(* ===== verification/Base.thy ===== *)
theory Base
  imports Main "HOL-Library.Word" "HOL-Library.Monad_Syntax"
begin

text \<open>
  Prelude of the development: the machine integers and return codes every component uses, the
  convention for undefined behaviour, and the generic list lemmas shared by the components.

  Conventions.
  \<^item> \<open>unsigned int\<close> is \<open>u32\<close>, \<open>uint64_t\<close>, \<open>bitmask_t\<close> and \<open>halfmask_t\<close> (LP64) are \<open>u64\<close>: both wrap
    around. A C \<open>int\<close> that counts (steps, visits, process ids) is \<open>int\<close>: its overflow is undefined
    behaviour in C++ and is not reached below \<open>2 ^ 31\<close> operations.
  \<^item> The code reports failure by an \<open>int\<close> return code, 0 for success: \<open>rc\<close>.
  \<^item> A step whose behaviour the C++ standard leaves undefined (erasing the end iterator, dereferencing
    a null \<open>shared_ptr\<close>, popping an empty deque) is \<open>None\<close>; every operation that could run into one has
    an \<open>option\<close> result, and the safety lemmas show when it is \<open>Some\<close>.
\<close>

type_synonym u32 = "32 word"
type_synonym u64 = "64 word"
type_synonym rc = int

text \<open>An \<open>int\<close> compared with the \<open>size_t\<close> of a container is converted to 64 unsigned bits.\<close>

definition as_size :: "int \<Rightarrow> nat" where
  "as_size n = nat (n mod 2 ^ 64)"

lemma as_size_nat [simp]: "0 \<le> n \<Longrightarrow> n < 2 ^ 64 \<Longrightarrow> as_size n = nat n"
  by (simp add: as_size_def)

named_theorems model_simps "equations that unfold the small operations of the model"

subsection \<open>std::find and erase on vectors and deques\<close>

text \<open>\<open>v.erase(std::find(v.begin(), v.end(), e))\<close>: the first occurrence of \<open>e\<close> goes; with no occurrence
  the end iterator is erased, which is undefined.\<close>

definition erase_find :: "'a \<Rightarrow> 'a list \<Rightarrow> 'a list option" where
  "erase_find e v = (if e \<in> set v then Some (remove1 e v) else None)"

lemma erase_find_Some_iff: "erase_find e v = Some w \<longleftrightarrow> e \<in> set v \<and> w = remove1 e v"
  by (auto simp: erase_find_def)

lemma erase_find_defined [simp]: "e \<in> set v \<Longrightarrow> erase_find e v = Some (remove1 e v)"
  by (simp add: erase_find_def)

lemma count_list_remove1:
  "count_list (remove1 x xs) y = count_list xs y - (if x = y then 1 else 0)"
  by (induction xs) (auto simp: count_list_0_iff)

lemma length_filter_remove1:
  "x \<in> set xs \<Longrightarrow> length (filter P (remove1 x xs)) = length (filter P xs) - (if P x then 1 else 0)"
proof (induction xs)
  case (Cons a xs)
  then show ?case
    by (cases "x = a") (auto dest: Suc_diff_le simp: length_greater_0_conv filter_empty_conv
        Suc_diff_Suc neq_Nil_conv intro!: Suc_pred)
qed simp

subsection \<open>Running a list of operations\<close>

text \<open>The operations in order; an undefined one makes the whole run undefined.\<close>

fun ops_run :: "('op \<Rightarrow> 's \<Rightarrow> 's option) \<Rightarrow> 'op list \<Rightarrow> 's \<Rightarrow> 's option" where
  "ops_run step [] s = Some s"
| "ops_run step (op # ops) s = do { s \<leftarrow> step op s; ops_run step ops s }"

lemma ops_run_append: "ops_run step (xs @ ys) s = do { s \<leftarrow> ops_run step xs s; ops_run step ys s }"
  by (induction xs arbitrary: s) (auto split: bind_splits)

text \<open>An invariant of every step is an invariant of every run.\<close>

lemma ops_run_invariant:
  assumes "\<And>op s s'. I s \<Longrightarrow> step op s = Some s' \<Longrightarrow> I s'" and "I s" and "ops_run step ops s = Some s'"
  shows "I s'"
  using assms(2,3) by (induction ops arbitrary: s) (auto simp: bind_eq_Some_conv dest: assms(1))

lemma ops_run_defined:
  assumes "\<And>op s. op \<in> A \<Longrightarrow> I s \<Longrightarrow> \<exists>s'. step op s = Some s' \<and> I s'" and "set ops \<subseteq> A" and "I s"
  shows "\<exists>s'. ops_run step ops s = Some s' \<and> I s'"
  using assms(2,3) by (induction ops arbitrary: s) (auto dest: assms(1))

end
