(* ===== verification/Std_Map.thy ===== *)
theory Std_Map
  imports Base
begin

text \<open>
  The ordered associative container \<open>std::map\<close> as the code uses it: a list of key/value pairs in
  strictly increasing key order (\<open>smap_ok\<close>), so that iteration (\<open>begin\<close> to \<open>end\<close>) is the list itself.
  The locale \<open>ordered_map\<close> states the container's contract; it is interpreted on this model.
\<close>

type_synonym ('k, 'v) smap = "('k \<times> 'v) list"

fun smap_put :: "'k::linorder \<Rightarrow> 'v \<Rightarrow> ('k, 'v) smap \<Rightarrow> ('k, 'v) smap" where
  "smap_put k v [] = [(k, v)]"
| "smap_put k v ((k', v') # m) =
     (if k < k' then (k, v) # (k', v') # m
      else if k = k' then (k, v) # m
      else (k', v') # smap_put k v m)"

definition smap_erase :: "'k \<Rightarrow> ('k, 'v) smap \<Rightarrow> ('k, 'v) smap" where
  "smap_erase k m = filter (\<lambda>p. fst p \<noteq> k) m"

definition smap_contains :: "'k \<Rightarrow> ('k, 'v) smap \<Rightarrow> bool" where
  "smap_contains k m = (map_of m k \<noteq> None)"

text \<open>\<open>m[k]\<close> read with a default: what \<open>operator[]\<close> yields, a missing key being value-initialised.\<close>

definition smap_get :: "'v \<Rightarrow> 'k \<Rightarrow> ('k, 'v) smap \<Rightarrow> 'v" where
  "smap_get d k m = (case map_of m k of Some v \<Rightarrow> v | None \<Rightarrow> d)"

text \<open>The side effect of the read \<open>m[k]\<close>: a missing key is inserted.\<close>

definition smap_touch :: "'v \<Rightarrow> 'k::linorder \<Rightarrow> ('k, 'v) smap \<Rightarrow> ('k, 'v) smap" where
  "smap_touch d k m = (if smap_contains k m then m else smap_put k d m)"

definition smap_ok :: "('k::linorder, 'v) smap \<Rightarrow> bool" where
  "smap_ok m = sorted_wrt (<) (map fst m)"

subsection \<open>The contract of the container\<close>

locale ordered_map =
  fixes empty :: "'m"
    and put :: "'k::linorder \<Rightarrow> 'v \<Rightarrow> 'm \<Rightarrow> 'm"
    and erase :: "'k \<Rightarrow> 'm \<Rightarrow> 'm"
    and find :: "'m \<Rightarrow> 'k \<Rightarrow> 'v option"
    and items :: "'m \<Rightarrow> ('k \<times> 'v) list"
    and ok :: "'m \<Rightarrow> bool"
  assumes find_empty: "find empty = Map.empty"
    and find_put: "find (put k v m) = (find m)(k \<mapsto> v)"
    and find_erase: "find (erase k m) = (find m)(k := None)"
    and items_sorted: "ok m \<Longrightarrow> sorted_wrt (<) (map fst (items m))"
    and items_find: "ok m \<Longrightarrow> map_of (items m) = find m"
    and ok_empty: "ok empty"
    and ok_put: "ok m \<Longrightarrow> ok (put k v m)"
    and ok_erase: "ok m \<Longrightarrow> ok (erase k m)"
begin

lemma dom_put: "dom (find (put k v m)) = insert k (dom (find m))"
  by (simp add: find_put)

lemma dom_erase: "dom (find (erase k m)) = dom (find m) - {k}"
  by (auto simp: find_erase dom_def)

lemma distinct_keys: "ok m \<Longrightarrow> distinct (map fst (items m))"
  using items_sorted by (blast intro: strict_sorted_imp_sorted strict_sorted_iff [THEN iffD1, THEN conjunct2])

lemma items_iff: "ok m \<Longrightarrow> (k, v) \<in> set (items m) \<longleftrightarrow> find m k = Some v"
  using distinct_keys [of m] items_find [of m] by (metis map_of_eq_Some_iff)

lemma keys_dom: "ok m \<Longrightarrow> set (map fst (items m)) = dom (find m)"
  using items_find [of m] by (metis dom_map_of_conv_image_fst list.set_map)

lemma size_card: "ok m \<Longrightarrow> length (items m) = card (dom (find m))"
  using distinct_keys [of m] keys_dom [of m] by (metis distinct_card length_map)

end

subsection \<open>The model fulfils the contract\<close>

lemma map_of_smap_put [simp]: "map_of (smap_put k v m) = (map_of m)(k \<mapsto> v)"
  by (induction k v m rule: smap_put.induct) (auto simp: fun_upd_twist)

lemma map_of_smap_erase [simp]: "map_of (smap_erase k m) = (map_of m)(k := None)"
  by (induction m) (auto simp: smap_erase_def fun_upd_twist)

lemma set_keys_smap_put: "set (map fst (smap_put k v m)) = insert k (set (map fst m))"
  by (induction k v m rule: smap_put.induct) auto

lemma smap_ok_put: "smap_ok m \<Longrightarrow> smap_ok (smap_put k v m)"
proof (induction k v m rule: smap_put.induct)
  case (2 k v k' v' m)
  then show ?case
    using set_keys_smap_put [of k v m] by (auto simp: smap_ok_def)
qed (simp add: smap_ok_def)

lemma smap_ok_erase: "smap_ok m \<Longrightarrow> smap_ok (smap_erase k m)"
  by (induction m) (auto simp: smap_ok_def smap_erase_def)

interpretation sm: ordered_map "[]" smap_put smap_erase map_of "\<lambda>m. m" smap_ok
  by unfold_locales (auto simp: smap_ok_put smap_ok_erase, auto simp: smap_ok_def)

lemma smap_contains_put [simp]: "smap_contains k (smap_put k' v m) = (k = k' \<or> smap_contains k m)"
  by (auto simp: smap_contains_def)

lemma smap_contains_erase [simp]: "smap_contains k (smap_erase k' m) = (k \<noteq> k' \<and> smap_contains k m)"
  by (auto simp: smap_contains_def)

lemma smap_contains_Nil [simp]: "\<not> smap_contains k []"
  by (simp add: smap_contains_def)

lemma smap_get_put [simp]: "smap_get d k (smap_put k' v m) = (if k = k' then v else smap_get d k m)"
  by (simp add: smap_get_def)

lemma smap_get_erase [simp]: "smap_get d k (smap_erase k' m) = (if k = k' then d else smap_get d k m)"
  by (simp add: smap_get_def)

lemma smap_get_Nil [simp]: "smap_get d k [] = d"
  by (simp add: smap_get_def)

lemma smap_get_touch [simp]: "smap_get d k (smap_touch d k' m) = smap_get d k m"
  by (auto simp: smap_get_def smap_touch_def smap_contains_def split: option.splits)

lemma smap_get_default: "\<not> smap_contains k m \<Longrightarrow> smap_get d k m = d"
  by (simp add: smap_get_def smap_contains_def split: option.splits)

lemma smap_contains_touch [simp]: "smap_contains k (smap_touch d k' m) = (k = k' \<or> smap_contains k m)"
  by (auto simp: smap_touch_def)

lemma smap_ok_touch: "smap_ok m \<Longrightarrow> smap_ok (smap_touch d k m)"
  by (simp add: smap_touch_def smap_ok_put)

lemma smap_ok_Nil [simp]: "smap_ok []"
  by (simp add: smap_ok_def)

lemmas smap_ok_intros = smap_ok_put smap_ok_erase smap_ok_touch smap_ok_Nil

end
