(* ===== verification/Patch.thy ===== *)
theory Patch
  imports Std_Map "HOL-Library.Char_ord" "HOL-Library.List_Lexorder" "HOL-Library.Product_Lexorder"
begin

text \<open>
  The utility header \<open>patch/include/patch.h\<close>: the string hash that names every sync point, decimal
  printing of arrays, the containers guarded by a mutex (every method locks the whole object, so each
  is one atomic step on the container) and the bounded score queue \<open>Queue\<close>.
  \<open>patch_sdm::hash_str\<close> is a second copy of the same hash.
\<close>

unbundle bit_operations_syntax

subsection \<open>hash_str\<close>

text \<open>\<open>char\<close> is signed on the target: \<open>s_[0] * HASH_PRIME_2\<close> is an \<open>int\<close> product of the sign-extended
  character, converted to \<open>unsigned int\<close> by the exclusive or.\<close>

definition hash_char :: "char \<Rightarrow> u32" where
  "hash_char c = scast (word_of_nat (of_char c) :: 8 word) * 76963"

definition hash_step :: "u32 \<Rightarrow> char \<Rightarrow> u32" where
  "hash_step h c = (h * 54059) XOR hash_char c"

text \<open>\<open>c_str\<close> walked up to the terminating NUL.\<close>

definition c_str :: "string \<Rightarrow> string" where
  "c_str s = takeWhile (\<lambda>c. c \<noteq> CHR 0x00) s"

definition hash_str :: "string \<Rightarrow> u32" where
  "hash_str s = foldl hash_step 31 (c_str s)"

lemma word_unit_mult_cancel:
  fixes a b x y :: "'a::len word"
  assumes "b * a = 1"
  shows "x * a = y * a \<longleftrightarrow> x = y"
  by (metis assms mult.assoc mult.commute mult.right_neutral)

lemma hash_prime_unit: "(651645827 :: u32) * 54059 = 1" "(2338645771 :: u32) * 76963 = 1"
  by simp_all

lemma scast_8_32_inject: "(scast (a :: 8 word) :: u32) = scast b \<longleftrightarrow> a = b"
proof
  assume "(scast a :: u32) = scast b"
  then have "sint (scast a :: u32) = sint (scast b :: u32)" by simp
  then show "a = b"
    by (simp add: sint_up_scast is_up.rep_eq signed_word_eqI)
qed simp

lemma hash_char_inject: "hash_char c = hash_char d \<longleftrightarrow> c = d"
proof
  assume "hash_char c = hash_char d"
  then have "(scast (word_of_nat (of_char c) :: 8 word) :: u32) = scast (word_of_nat (of_char d) :: 8 word)"
    unfolding hash_char_def by (simp only: word_unit_mult_cancel [OF hash_prime_unit(2)])
  then have "(word_of_nat (of_char c) :: 8 word) = word_of_nat (of_char d)"
    by (simp only: scast_8_32_inject)
  then have "unat (word_of_nat (of_char c) :: 8 word) = unat (word_of_nat (of_char d) :: 8 word)"
    by simp
  then have "(of_char c :: nat) = of_char d"
    using nat_of_char_less_256 [of c] nat_of_char_less_256 [of d] by (simp add: unat_of_nat)
  then show "c = d" by simp
qed simp

lemma xor_word_left_cancel: "(a XOR b = a XOR c) = (b = (c :: 'a::len word))"
  by (metis xor.assoc xor.left_neutral xor_self_eq)

lemma xor_word_right_cancel: "(b XOR a = c XOR a) = (b = (c :: 'a::len word))"
  by (simp add: xor.commute [of _ a] xor_word_left_cancel)

lemma hash_step_left_cancel: "hash_step h c = hash_step h d \<longleftrightarrow> c = d"
  by (simp add: hash_step_def xor_word_left_cancel hash_char_inject)

lemma hash_step_right_cancel: "hash_step h c = hash_step k c \<longleftrightarrow> h = k"
  unfolding hash_step_def xor_word_right_cancel
  by (simp only: word_unit_mult_cancel [OF hash_prime_unit(1)])

lemma foldl_hash_step_cancel: "foldl hash_step h s = foldl hash_step k s \<longleftrightarrow> h = k"
  by (induction s arbitrary: h k) (auto simp: hash_step_right_cancel)

lemma c_str_no_nul: "CHR 0x00 \<notin> set s \<Longrightarrow> c_str s = s"
  by (auto simp: c_str_def takeWhile_eq_all_conv)

lemma hash_str_append:
  "CHR 0x00 \<notin> set (s @ t) \<Longrightarrow> hash_str (s @ t) = foldl hash_step (hash_str s) t"
  by (simp add: hash_str_def c_str_no_nul)

subsection \<open>Decimal printing\<close>

text \<open>What \<open>operator<<\<close> of a string stream writes for an unsigned number and for an \<open>int\<close>.\<close>

definition digit_char :: "nat \<Rightarrow> char" where
  "digit_char d = char_of (48 + d)"

fun dec :: "nat \<Rightarrow> string" where
  "dec n = (if n < 10 then [digit_char n] else dec (n div 10) @ [digit_char (n mod 10)])"

declare dec.simps [simp del]

definition dec_int :: "int \<Rightarrow> string" where
  "dec_int i = (if i < 0 then CHR ''-'' # dec (nat (- i)) else dec (nat i))"

text \<open>Reading decimal digits back, used to prove that printing loses nothing.\<close>

definition digit_val :: "char \<Rightarrow> nat" where
  "digit_val c = of_char c - 48"

definition undec :: "string \<Rightarrow> nat" where
  "undec s = foldl (\<lambda>a c. 10 * a + digit_val c) 0 s"

lemma digit_val_char: "d < 10 \<Longrightarrow> digit_val (digit_char d) = d"
  by (simp add: digit_val_def digit_char_def)

lemma undec_dec [simp]: "undec (dec n) = n"
proof (induction n rule: dec.induct)
  case (1 n)
  show ?case
  proof (cases "n < 10")
    case True
    then show ?thesis by (simp add: dec.simps [of n] undec_def digit_val_char)
  next
    case False
    then have "undec (dec n) = 10 * undec (dec (n div 10)) + n mod 10"
      by (simp add: dec.simps [of n] undec_def digit_val_char)
    with 1 False show ?thesis by simp
  qed
qed

lemma dec_inject [simp]: "dec m = dec n \<longleftrightarrow> m = n"
  by (metis undec_dec)

lemma dec_nonempty [simp]: "dec n \<noteq> []"
  by (subst dec.simps) simp

lemma length_dec: "n < 10 ^ k \<Longrightarrow> 0 < k \<Longrightarrow> length (dec n) \<le> k"
proof (induction n arbitrary: k rule: dec.induct)
  case (1 n)
  show ?case
  proof (cases "n < 10")
    case True
    then show ?thesis using 1(3) by (simp add: dec.simps [of n])
  next
    case False
    then obtain k' where k: "k = Suc k'" "0 < k'" using 1(2) by (cases k; cases "k - 1") auto
    have "n div 10 < 10 ^ k'" using 1(2) by (simp add: k less_mult_imp_div_less mult.commute)
    with 1(1) [OF False _ k(2)] False show ?thesis by (simp add: dec.simps [of n] k)
  qed
qed

definition is_digit :: "char \<Rightarrow> bool" where
  "is_digit c \<longleftrightarrow> 48 \<le> (of_char c :: nat) \<and> (of_char c :: nat) \<le> 57"

lemma is_digit_char: "d < 10 \<Longrightarrow> is_digit (digit_char d)"
  by (simp add: digit_char_def is_digit_def)

lemma dec_digits: "c \<in> set (dec n) \<Longrightarrow> is_digit c"
proof (induction n arbitrary: c rule: dec.induct)
  case (1 n)
  then show ?case
    by (cases "n < 10") (auto simp: dec.simps [of n] is_digit_char)
qed

lemma dec_not_in: "\<not> is_digit c \<Longrightarrow> c \<notin> set (dec n)"
  using dec_digits by blast

lemma not_digit_seps [simp]:
  "\<not> is_digit CHR ''-''" "\<not> is_digit CHR '',''" "\<not> is_digit CHR ''_''" "\<not> is_digit CHR 0x00"
  by (simp_all add: is_digit_def)

lemma dec_int_inject [simp]: "dec_int i = dec_int j \<longleftrightarrow> i = j"
proof -
  have "dec n \<noteq> CHR ''-'' # s" "CHR ''-'' # s \<noteq> dec n" for n s
    using dec_not_in [of "CHR ''-''" n] by (metis list.set_intros(1) not_digit_seps(1))+
  then show ?thesis by (auto simp: dec_int_def)
qed

subsection \<open>arr_to_str\<close>

text \<open>The elements in decimal, a comma between two of them.\<close>

fun arr_to_str :: "u64 list \<Rightarrow> string" where
  "arr_to_str [] = []"
| "arr_to_str [x] = dec (unat x)"
| "arr_to_str (x # y # xs) = dec (unat x) @ CHR '','' # arr_to_str (y # xs)"

text \<open>Cutting a string at a separator; the printed elements come back.\<close>

fun split_on :: "char \<Rightarrow> string \<Rightarrow> string list" where
  "split_on c [] = [[]]"
| "split_on c (x # s) =
     (if x = c then [] # split_on c s
      else (case split_on c s of [] \<Rightarrow> [[x]] | t # ts \<Rightarrow> (x # t) # ts))"

lemma split_on_nonempty [simp]: "split_on c s \<noteq> []"
  by (induction s) (auto split: list.splits)

lemma split_on_append: "c \<notin> set s \<Longrightarrow> split_on c (s @ c # t) = s # split_on c t"
  by (induction s) auto

lemma split_on_single: "c \<notin> set s \<Longrightarrow> split_on c s = [s]"
  by (induction s) auto

lemma split_arr_to_str:
  "xs \<noteq> [] \<Longrightarrow> split_on CHR '','' (arr_to_str xs) = map (\<lambda>x. dec (unat x)) xs"
  by (induction xs rule: arr_to_str.induct) (simp_all add: split_on_append split_on_single dec_not_in)

lemma arr_to_str_inject:
  assumes "xs \<noteq> []" "ys \<noteq> []"
  shows "arr_to_str xs = arr_to_str ys \<longleftrightarrow> xs = ys"
proof
  assume "arr_to_str xs = arr_to_str ys"
  then have "map (\<lambda>x. dec (unat x)) xs = map (\<lambda>x. dec (unat x)) ys"
    using assms by (metis split_arr_to_str)
  moreover have "inj (\<lambda>x :: u64. dec (unat x))" by (auto simp: inj_def intro: unsigned_word_eqI)
  ultimately show "xs = ys" by (simp add: inj_map_eq_map)
qed simp

lemma arr_to_str_chars: "c \<in> set (arr_to_str xs) \<Longrightarrow> is_digit c \<or> c = CHR '',''"
  by (induction xs rule: arr_to_str.induct) (auto dest: dec_digits)

subsection \<open>thread_safe_vector\<close>

text \<open>\<open>operator[]\<close> does not check its index: out of range is undefined.\<close>

definition tsvec_at :: "'a list \<Rightarrow> int \<Rightarrow> 'a option" where
  "tsvec_at v i = (if 0 \<le> i \<and> i < int (length v) then Some (v ! nat i) else None)"

definition tsvec_push_back :: "'a \<Rightarrow> 'a list \<Rightarrow> 'a list" where
  "tsvec_push_back e v = v @ [e]"

definition tsvec_del :: "'a \<Rightarrow> 'a list \<Rightarrow> (rc \<times> 'a list) option" where
  "tsvec_del e v = do { w \<leftarrow> erase_find e v; Some (0, w) }"

definition tsvec_contains :: "'a \<Rightarrow> 'a list \<Rightarrow> bool" where
  "tsvec_contains e v = (e \<in> set v)"

lemmas tsvec_simps [simp] = tsvec_push_back_def tsvec_contains_def

subsection \<open>thread_safe_map\<close>

text \<open>A read through \<open>operator[]\<close> inserts the default for a missing key: it returns the value and the
  map after it. \<open>del\<close> erases \<open>map.find(k)\<close>: undefined for a missing key. (\<open>del\<close> is declared to return
  \<open>int\<close> and returns nothing; no caller looks at the value.)\<close>

definition tsmap_at :: "'v \<Rightarrow> 'k::linorder \<Rightarrow> ('k, 'v) smap \<Rightarrow> 'v \<times> ('k, 'v) smap" where
  "tsmap_at d k m = (smap_get d k m, smap_touch d k m)"

definition tsmap_del :: "'k \<Rightarrow> ('k, 'v) smap \<Rightarrow> ('k, 'v) smap option" where
  "tsmap_del k m = (if smap_contains k m then Some (smap_erase k m) else None)"

definition tsmap_contains :: "'k \<Rightarrow> ('k, 'v) smap \<Rightarrow> bool" where
  "tsmap_contains k m = (\<not> map_of m k = None)"

lemma tsmap_contains_smap [simp]: "tsmap_contains k m = smap_contains k m"
  by (simp add: tsmap_contains_def smap_contains_def)

lemma tsmap_del_Some_iff: "tsmap_del k m = Some m' \<longleftrightarrow> smap_contains k m \<and> m' = smap_erase k m"
  by (auto simp: tsmap_del_def)

lemma tsmap_del_defined [simp]: "smap_contains k m \<Longrightarrow> tsmap_del k m = Some (smap_erase k m)"
  by (simp add: tsmap_del_def)

subsection \<open>Queue\<close>

text \<open>A window of the last \<open>size\<close> values, newest at the front. \<open>pop\<close> reads \<open>q.back()\<close>: undefined on an
  empty deque, which \<open>push\<close> reaches when \<open>size\<close> is 0.\<close>

record 'a queue =
  q_size :: int
  q_deq :: "'a list"

definition q_new :: "int \<Rightarrow> 'a queue" where
  "q_new n = \<lparr>q_size = n, q_deq = []\<rparr>"

definition q_clear :: "'a queue \<Rightarrow> 'a queue" where
  "q_clear s = s\<lparr>q_deq := []\<rparr>"

definition q_pop :: "'a queue \<Rightarrow> ('a \<times> 'a queue) option" where
  "q_pop s = (if q_deq s = [] then None
              else Some (last (q_deq s), s\<lparr>q_deq := butlast (q_deq s)\<rparr>))"

definition q_push :: "'a \<Rightarrow> 'a queue \<Rightarrow> 'a queue option" where
  "q_push v s = do {
     s \<leftarrow> (if int (length (q_deq s)) = q_size s then map_option snd (q_pop s) else Some s);
     Some (s\<lparr>q_deq := v # q_deq s\<rparr>) }"

fun q_pushes :: "'a list \<Rightarrow> 'a queue \<Rightarrow> 'a queue option" where
  "q_pushes [] s = Some s"
| "q_pushes (v # vs) s = do { s \<leftarrow> q_push v s; q_pushes vs s }"

lemma q_push_window:
  assumes "0 < n"
  shows "q_push v \<lparr>q_size = int n, q_deq = take n h\<rparr> = Some \<lparr>q_size = int n, q_deq = take n (v # h)\<rparr>"
proof -
  obtain m where n: "n = Suc m" using assms by (cases n) auto
  show ?thesis
  proof (cases "length h < n")
    case True
    then show ?thesis by (auto simp: q_push_def n)
  next
    case False
    then have "take (Suc m) h \<noteq> []" "butlast (take (Suc m) h) = take m h" "length (take n h) = n"
      by (auto simp: n butlast_take)
    then show ?thesis by (simp add: q_push_def q_pop_def n)
  qed
qed

lemma q_pushes_window:
  assumes "0 < n"
  shows "q_pushes vs \<lparr>q_size = int n, q_deq = take n h\<rparr>
           = Some \<lparr>q_size = int n, q_deq = take n (rev vs @ h)\<rparr>"
  by (induction vs arbitrary: h) (simp_all add: q_push_window [OF assms] del: take_append)

subsection \<open>Properties\<close>

text \<open>Two strings that differ in exactly one character, at the same place, never have the same
  hash: the sync points of two versions of a key that differ in one digit are different.\<close>

theorem hash_str_one_char:
  assumes "CHR 0x00 \<notin> set (p @ c # s)" and "CHR 0x00 \<notin> set (p @ d # s)"
  shows "hash_str (p @ c # s) = hash_str (p @ d # s) \<longleftrightarrow> c = d"
proof -
  have "foldl hash_step (hash_str p) (c # s) = foldl hash_step (hash_str p) (d # s) \<longleftrightarrow> c = d"
    by (simp add: foldl_hash_step_cancel hash_step_left_cancel)
  then show ?thesis by (simp only: hash_str_append [OF assms(1)] hash_str_append [OF assms(2)])
qed

theorem hash_str_one_char_witness: "hash_str ''sdm_m_k_1'' \<noteq> hash_str ''sdm_m_k_2''"
  using hash_str_one_char [of "''sdm_m_k_''" "CHR ''1''" "[]" "CHR ''2''"] by simp

text \<open>After any number of pushes a queue of positive size \<open>n\<close> holds the last \<open>n\<close> values pushed, newest
  first, and no push ran into undefined behaviour.\<close>

theorem queue_holds_last_n:
  assumes "0 < n"
  shows "q_pushes vs (q_new (int n)) = Some \<lparr>q_size = int n, q_deq = take n (rev vs)\<rparr>"
  using q_pushes_window [OF assms, of vs "[]"] by (simp add: q_new_def)

theorem queue_holds_last_n_witness:
  "q_pushes [1, 2, 3, 4::int] (q_new 3) = Some \<lparr>q_size = 3, q_deq = [4, 3, 2]\<rparr>"
  using queue_holds_last_n [of 3 "[1, 2, 3, 4::int]"] by simp

end
