(* ===== verification/Syncer.thy ===== *)
theory Syncer
  imports Patch
begin

text \<open>
  \<open>patch::syncer\<close> (\<open>patch/include/patch.h\<close>): named rendezvous points. A thread that waits for a reply
  adds a sync point, waits on its condition variable and deletes the point when it wakes; the
  handler of the reply notifies the point. A condition variable is modelled by the list of the
  threads that wait on it; a reset \<open>shared_ptr\<close> is \<open>None\<close>. Which waiter \<open>notify_one\<close> wakes is left to
  the platform: the function \<open>pick\<close>.
\<close>

type_synonym tid = nat

record 'p syncer =
  point_cv_map :: "('p, tid list option) smap"
  point_m_map :: "('p, bool) smap"
  point__num_peers_map :: "('p, int) smap"

definition syncer_new :: "'p syncer" where
  "syncer_new = \<lparr>point_cv_map = [], point_m_map = [], point__num_peers_map = []\<rparr>"

definition syncer_close :: "'p syncer \<Rightarrow> 'p syncer" where
  "syncer_close s = s\<lparr>point_cv_map := map (\<lambda>(p, _). (p, None)) (point_cv_map s),
                     point_m_map := map (\<lambda>(p, _). (p, False)) (point_m_map s)\<rparr>"

definition add_sync_point :: "'p::linorder \<Rightarrow> int \<Rightarrow> 'p syncer \<Rightarrow> rc \<times> 'p syncer" where
  "add_sync_point p n s =
     (if tsmap_contains p (point_cv_map s) then (1, s)
      else (0, s\<lparr>point_cv_map := smap_put p (Some []) (point_cv_map s),
                 point_m_map := smap_put p True (point_m_map s),
                 point__num_peers_map := smap_put p n (point__num_peers_map s)\<rparr>))"

text \<open>Erasing the entry destroys the condition variable: undefined while a thread waits on it.\<close>

definition del_sync_point :: "'p::linorder \<Rightarrow> 'p syncer \<Rightarrow> (rc \<times> 'p syncer) option" where
  "del_sync_point p s =
     (if \<not> tsmap_contains p (point_cv_map s) then Some (1, s)
      else case smap_get None p (point_cv_map s) of
        Some (t # ts) \<Rightarrow> None
      | _ \<Rightarrow> do {
          cv \<leftarrow> tsmap_del p (point_cv_map s);
          m \<leftarrow> tsmap_del p (point_m_map s);
          np \<leftarrow> tsmap_del p (point__num_peers_map s);
          Some (0, s\<lparr>point_cv_map := cv, point_m_map := m, point__num_peers_map := np\<rparr>) })"

text \<open>The call that puts thread \<open>t\<close> to sleep; dereferencing a missing or reset pointer is undefined.\<close>

definition sync_wait :: "'p::linorder \<Rightarrow> tid \<Rightarrow> 'p syncer \<Rightarrow> 'p syncer option" where
  "sync_wait p t s =
     (if \<not> smap_get False p (point_m_map s) then None
      else case smap_get None p (point_cv_map s) of
        None \<Rightarrow> None
      | Some ts \<Rightarrow> Some (s\<lparr>point_cv_map := smap_put p (Some (ts @ [t])) (point_cv_map s)\<rparr>))"

text \<open>Return code, the thread woken (if any) and the new state. The peer count is stored back only
  while it has not reached zero.\<close>

definition notify :: "(tid list \<Rightarrow> tid) \<Rightarrow> 'p::linorder \<Rightarrow> 'p syncer \<Rightarrow> (rc \<times> tid option \<times> 'p syncer) option" where
  "notify pick p s =
     (if \<not> tsmap_contains p (point_cv_map s) then Some (1, None, s)
      else let (n, np) = tsmap_at 0 p (point__num_peers_map s);
               s = s\<lparr>point__num_peers_map := np\<rparr>;
               num_peers_to_wait = n - 1
           in if num_peers_to_wait = 0
              then (case smap_get None p (point_cv_map s) of
                      None \<Rightarrow> None
                    | Some [] \<Rightarrow> Some (0, None, s)
                    | Some ts \<Rightarrow> let t = pick ts in
                        Some (0, Some t, s\<lparr>point_cv_map := smap_put p (Some (remove1 t ts)) (point_cv_map s)\<rparr>))
              else Some (0, None, s\<lparr>point__num_peers_map := smap_put p num_peers_to_wait np\<rparr>))"

fun notifies :: "nat \<Rightarrow> (tid list \<Rightarrow> tid) \<Rightarrow> 'p::linorder \<Rightarrow> 'p syncer \<Rightarrow> (tid option list \<times> 'p syncer) option" where
  "notifies 0 pick p s = Some ([], s)"
| "notifies (Suc k) pick p s = do {
     (_, w, s) \<leftarrow> notify pick p s;
     (ws, s) \<leftarrow> notifies k pick p s;
     Some (w # ws, s) }"

subsection \<open>The three maps agree\<close>

definition syncer_ok :: "'p::linorder syncer \<Rightarrow> bool" where
  "syncer_ok s \<longleftrightarrow> smap_ok (point_cv_map s) \<and> smap_ok (point_m_map s) \<and> smap_ok (point__num_peers_map s)
     \<and> (\<forall>p. smap_contains p (point_m_map s) = smap_contains p (point_cv_map s))
     \<and> (\<forall>p. smap_contains p (point__num_peers_map s) = smap_contains p (point_cv_map s))"

definition waiters :: "'p \<Rightarrow> 'p syncer \<Rightarrow> tid list" where
  "waiters p s = (case map_of (point_cv_map s) p of Some (Some ts) \<Rightarrow> ts | _ \<Rightarrow> [])"

lemma syncer_ok_new: "syncer_ok syncer_new"
  by (simp add: syncer_ok_def syncer_new_def)

lemma syncer_ok_add: "syncer_ok s \<Longrightarrow> syncer_ok (snd (add_sync_point p n s))"
  by (auto simp: syncer_ok_def add_sync_point_def smap_ok_put)

lemma syncer_ok_del: "syncer_ok s \<Longrightarrow> del_sync_point p s = Some (r, s') \<Longrightarrow> syncer_ok s'"
  by (auto simp: syncer_ok_def del_sync_point_def tsmap_del_Some_iff smap_ok_erase bind_eq_Some_conv
      split: if_splits option.splits list.splits)

lemma smap_touch_contains [simp]: "smap_contains p m \<Longrightarrow> smap_touch d p m = m"
  by (simp add: smap_touch_def)

lemma smap_get_contains: "smap_get d k m \<noteq> d \<Longrightarrow> smap_contains k m"
  by (rule ccontr) (simp add: smap_get_default)

lemma syncer_ok_wait: "syncer_ok s \<Longrightarrow> sync_wait p t s = Some s' \<Longrightarrow> syncer_ok s'"
  using smap_get_contains [of None p "point_cv_map s"]
  by (auto simp: syncer_ok_def sync_wait_def smap_ok_put split: if_splits option.splits)

lemma syncer_ok_notify: "syncer_ok s \<Longrightarrow> notify pick p s = Some (r, w, s') \<Longrightarrow> syncer_ok s'"
  by (auto simp: syncer_ok_def notify_def tsmap_at_def Let_def smap_ok_put
      split: if_splits option.splits list.splits)

text \<open>Deleting a point nobody waits on is never undefined.\<close>

lemma del_sync_point_safe: "syncer_ok s \<Longrightarrow> waiters p s = [] \<Longrightarrow> del_sync_point p s \<noteq> None"
  by (auto simp: syncer_ok_def del_sync_point_def waiters_def smap_get_def tsmap_del_def
      split: option.splits list.splits)

text \<open>A point's notification leaves the waiters of every other point alone.\<close>

lemma notify_other_waiters: "notify pick p s = Some (r, w, s') \<Longrightarrow> q \<noteq> p \<Longrightarrow> waiters q s' = waiters q s"
  by (auto simp: notify_def tsmap_at_def Let_def waiters_def split: if_splits option.splits list.splits)

subsection \<open>Counting peers\<close>

lemma notify_not_last:
  assumes "smap_contains p (point_cv_map s)" "smap_get 0 p (point__num_peers_map s) = n" "n \<noteq> 1"
  shows "notify pick p s
    = Some (0, None, s\<lparr>point__num_peers_map := smap_put p (n - 1) (smap_touch 0 p (point__num_peers_map s))\<rparr>)"
  using assms by (simp add: notify_def tsmap_at_def)

lemma notify_last:
  assumes "smap_contains p (point_cv_map s)" "smap_get 0 p (point__num_peers_map s) = 1"
    "map_of (point_cv_map s) p = Some (Some ts)" "ts \<noteq> []"
  shows "\<exists>s'. notify pick p s = Some (0, Some (pick ts), s')"
  using assms by (auto simp: notify_def tsmap_at_def smap_get_def Let_def split: list.splits)

lemma notifies_count:
  assumes "map_of (point_cv_map s) p = Some (Some [t])" "smap_get 0 p (point__num_peers_map s) = int (Suc k)"
    "pick [t] = t"
  shows "\<exists>s'. notifies (Suc k) pick p s = Some (replicate k None @ [Some t], s')"
  using assms
proof (induction k arbitrary: s)
  case 0
  then show ?case by (auto simp: notify_def tsmap_at_def smap_get_def smap_contains_def Let_def)
next
  case (Suc k)
  let ?s = "s\<lparr>point__num_peers_map := smap_put p (int (Suc k)) (smap_touch 0 p (point__num_peers_map s))\<rparr>"
  have step: "notify pick p s = Some (0, None, ?s)"
    using notify_not_last [of p s "int (Suc (Suc k))" pick] Suc.prems by (simp add: smap_contains_def)
  have "\<exists>s'. notifies (Suc k) pick p ?s = Some (replicate k None @ [Some t], s')"
    by (rule Suc.IH) (use Suc.prems in auto)
  with step show ?case by (subst notifies.simps(2)) (auto simp del: notifies.simps)
qed

lemma fresh_point_waiting:
  assumes "\<not> smap_contains p (point_cv_map s)"
  obtains s' where "sync_wait p t (snd (add_sync_point p n s)) = Some s'"
    "map_of (point_cv_map s') p = Some (Some [t])" "smap_get 0 p (point__num_peers_map s') = n"
    "smap_contains p (point_m_map s')"
  using that assms by (auto simp: sync_wait_def add_sync_point_def)

subsection \<open>Properties\<close>

text \<open>C30: a thread that waits on a fresh point added for \<open>n\<close> peers sleeps through the first \<open>n - 1\<close>
  notifications and is woken by the \<open>n\<close>-th.\<close>

theorem last_peer_wakes:
  assumes "\<not> smap_contains p (point_cv_map s)" and "pick [t] = t"
  shows "\<exists>s'. (do { s \<leftarrow> sync_wait p t (snd (add_sync_point p (int (Suc k)) s)); notifies (Suc k) pick p s })
              = Some (replicate k None @ [Some t], s')"
proof -
  obtain s1 where s1: "sync_wait p t (snd (add_sync_point p (int (Suc k)) s)) = Some s1"
    "map_of (point_cv_map s1) p = Some (Some [t])" "smap_get 0 p (point__num_peers_map s1) = int (Suc k)"
    using fresh_point_waiting [OF assms(1)] by metis
  show ?thesis using notifies_count [of s1 p t k pick, OF s1(2,3) assms(2)] s1(1) by simp
qed

theorem last_peer_wakes_witness:
  "\<exists>s'. (do { s \<leftarrow> sync_wait (0::nat) 7 (snd (add_sync_point 0 3 syncer_new)); notifies 3 hd 0 s })
     = Some ([None, None, Some 7], s')"
  using last_peer_wakes [of 0 "syncer_new :: nat syncer" hd 7 2]
  by (simp add: syncer_new_def eval_nat_numeral)

text \<open>A notification of a point that nobody waits on yet is lost. The handler's \<open>notify\<close> that runs
  before the requester has added the point reports 1, and one that runs between \<open>add_sync_point\<close> and
  \<open>wait\<close> leaves the point as it was; in both cases the requester then sleeps as if nothing had come.\<close>

theorem early_notify_lost:
  assumes "\<not> smap_contains p (point_cv_map s)"
  shows "notify pick p s = Some (1, None, s)
    \<and> notify pick p (snd (add_sync_point p 1 s)) = Some (0, None, snd (add_sync_point p 1 s))"
  using assms by (simp add: notify_def add_sync_point_def tsmap_at_def)

theorem early_notify_lost_witness:
  "notify hd (5::nat) syncer_new = Some (1, None, syncer_new)
    \<and> notify hd (5::nat) (snd (add_sync_point 5 1 syncer_new)) = Some (0, None, snd (add_sync_point 5 1 syncer_new))"
  by (rule early_notify_lost) (simp add: syncer_new_def)

text \<open>Two threads that wait for the same point (the second \<open>add_sync_point\<close> returns 1, which every
  caller ignores) share one condition variable: one notification wakes one of them, and the
  \<open>del_sync_point\<close> it then runs destroys the variable the other still sleeps on.\<close>

theorem second_waiter_stranded:
  assumes "\<not> smap_contains p (point_cv_map s)" and "t \<noteq> u" and "pick [t, u] \<in> {t, u}"
  shows "(let s1 = snd (add_sync_point p 1 s); (r, s2) = add_sync_point p 1 s1 in
          r = 1 \<and> (do { s3 \<leftarrow> sync_wait p t s2; s4 \<leftarrow> sync_wait p u s3; notify pick p s4 }) \<noteq> None
          \<and> (do { s3 \<leftarrow> sync_wait p t s2; s4 \<leftarrow> sync_wait p u s3; (_, w, s5) \<leftarrow> notify pick p s4;
                   del_sync_point p s5 }) = None)"
  using assms
  by (auto simp: add_sync_point_def sync_wait_def notify_def tsmap_at_def del_sync_point_def Let_def)

theorem second_waiter_stranded_witness:
  "(let s1 = snd (add_sync_point (3::nat) 1 syncer_new); (r, s2) = add_sync_point 3 1 s1 in
          r = 1 \<and> (do { s3 \<leftarrow> sync_wait 3 0 s2; s4 \<leftarrow> sync_wait 3 1 s3; notify hd 3 s4 }) \<noteq> None
          \<and> (do { s3 \<leftarrow> sync_wait 3 0 s2; s4 \<leftarrow> sync_wait 3 1 s3; (_, w, s5) \<leftarrow> notify hd 3 s4;
                   del_sync_point 3 s5 }) = None)"
  by (rule second_waiter_stranded) (simp_all add: syncer_new_def)

end
