(* ===== verification/Parse_Graph.thy ===== *)
theory Parse_Graph
  imports Std_Map
begin

text \<open>
  \<open>Graph\<close> of \<open>sdm_control/prefetch/include/markov.h\<close>: the vertices and directed edges the parse trees
  are made of, with a root and a cursor. A vertex descriptor is a pointer into a list container, so it
  stays valid and a new one is different from all others: descriptors are numbers and \<open>g_next\<close> is the
  next one. The out-edges of a vertex are kept in the order in which they were added; the C++ set
  orders them by address, and nothing below depends on the order.
\<close>

type_synonym vid = nat

record vprop =
  vp_name :: string
  vp_key :: int
  vp_num_visit :: int
  vp_status :: char
  vp_level :: int

record graph =
  g_vs :: "vid list"
  g_prop :: "vid \<Rightarrow> vprop"
  g_adj :: "vid \<Rightarrow> vid list"
  g_up :: "vid \<rightharpoonup> vid"
  g_root :: vid
  g_pre_cur :: vid
  g_cur :: vid
  g_num_vertices :: int
  g_next :: vid

definition no_vprop :: vprop where
  "no_vprop = \<lparr>vp_name = [], vp_key = 0, vp_num_visit = 0, vp_status = CHR 0x00, vp_level = 0\<rparr>"

definition graph_new :: graph where
  "graph_new = \<lparr>g_vs = [], g_prop = (\<lambda>_. no_vprop), g_adj = (\<lambda>_. []), g_up = Map.empty,
     g_root = 0, g_pre_cur = 0, g_cur = 0, g_num_vertices = 0, g_next = 0\<rparr>"

definition add_vertex :: "vprop \<Rightarrow> graph \<Rightarrow> vid \<times> graph" where
  "add_vertex prop g =
     (let v = g_next g;
          g = g\<lparr>g_vs := g_vs g @ [v], g_prop := (g_prop g)(v := prop), g_next := Suc v\<rparr>;
          g = (if g_num_vertices g = 0 then g\<lparr>g_root := v, g_cur := v, g_pre_cur := v\<rparr> else g)
      in (v, g\<lparr>g_num_vertices := g_num_vertices g + 1\<rparr>))"

text \<open>\<open>clear_vertex\<close> removes the edges from and to the vertex.\<close>

definition rm_vertex :: "vid \<Rightarrow> graph \<Rightarrow> graph" where
  "rm_vertex v g = g\<lparr>g_vs := filter (\<lambda>u. u \<noteq> v) (g_vs g),
     g_adj := (\<lambda>u. if u = v then [] else filter (\<lambda>w. w \<noteq> v) (g_adj g u))\<rparr>"

definition graph_clear :: "graph \<Rightarrow> graph" where
  "graph_clear g = (fold rm_vertex (g_vs g) g)\<lparr>g_num_vertices := 0\<rparr>"

text \<open>Parallel edges are not allowed (\<open>setS\<close>): adding one again leaves the edge set as it is.\<close>

definition add_directed_edge :: "vid \<Rightarrow> vid \<Rightarrow> graph \<Rightarrow> graph" where
  "add_directed_edge vs vt g =
     g\<lparr>g_adj := (if vt \<in> set (g_adj g vs) then g_adj g else (g_adj g)(vs := g_adj g vs @ [vt])),
       g_up := (g_up g)(vt \<mapsto> vs)\<rparr>"

definition set_cur :: "vid \<Rightarrow> graph \<Rightarrow> graph" where
  "set_cur v g = g\<lparr>g_cur := v\<rparr>"

definition set_pre_cur :: "vid \<Rightarrow> graph \<Rightarrow> graph" where
  "set_pre_cur v g = g\<lparr>g_pre_cur := v\<rparr>"

text \<open>Writing through the reference \<open>properties(v)\<close>.\<close>

definition set_prop :: "vid \<Rightarrow> vprop \<Rightarrow> graph \<Rightarrow> graph" where
  "set_prop v p g = g\<lparr>g_prop := (g_prop g)(v := p)\<rparr>"

subsection \<open>Rooted trees\<close>

text \<open>Every edge leads to an existing vertex other than the root, every vertex has at most one parent
  and is its child once, and two children of a vertex have different keys.\<close>

definition tree_ok :: "graph \<Rightarrow> bool" where
  "tree_ok g \<longleftrightarrow>
     g_root g < g_next g \<and> g_cur g < g_next g \<and> 0 < g_num_vertices g \<and>
     (\<forall>v u. u \<in> set (g_adj g v) \<longrightarrow> v < g_next g \<and> u < g_next g \<and> u \<noteq> g_root g) \<and>
     (\<forall>v w u. u \<in> set (g_adj g v) \<longrightarrow> u \<in> set (g_adj g w) \<longrightarrow> v = w) \<and>
     (\<forall>v. distinct (map (\<lambda>u. vp_key (g_prop g u)) (g_adj g v)))"

lemma tree_okD:
  assumes "tree_ok g"
  shows "g_root g < g_next g" "g_cur g < g_next g" "0 < g_num_vertices g"
    "u \<in> set (g_adj g v) \<Longrightarrow> v < g_next g" "u \<in> set (g_adj g v) \<Longrightarrow> u < g_next g"
    "u \<in> set (g_adj g v) \<Longrightarrow> u \<noteq> g_root g"
    "u \<in> set (g_adj g v) \<Longrightarrow> u \<in> set (g_adj g w) \<Longrightarrow> v = w"
    "distinct (map (\<lambda>u. vp_key (g_prop g u)) (g_adj g v))" "distinct (g_adj g v)"
  using assms unfolding tree_ok_def distinct_map by blast+

lemma next_no_children: "tree_ok g \<Longrightarrow> g_adj g (g_next g) = []"
  using tree_okD(4) [of g _ "g_next g"] by (cases "g_adj g (g_next g)") auto

lemma next_not_child: "tree_ok g \<Longrightarrow> g_next g \<notin> set (g_adj g v)"
  using tree_okD(5) by blast

text \<open>The number of visits of the children of a vertex.\<close>

definition child_visits :: "graph \<Rightarrow> vid \<Rightarrow> int" where
  "child_visits g v = (\<Sum>u\<leftarrow>g_adj g v. vp_num_visit (g_prop g u))"

text \<open>Changing the visits of one vertex changes the sum of its parent only.\<close>

lemma sum_list_upd:
  "distinct xs \<Longrightarrow> (\<Sum>u\<leftarrow>xs. (if u = v then k + f u else f u)) = (\<Sum>u\<leftarrow>xs. f u) + (if v \<in> set xs then (k :: int) else 0)"
  by (induction xs) auto

subsection \<open>Adding a child\<close>

text \<open>A new vertex and the edge to it, as \<open>create__connect_leaf\<close> and \<open>create__move_cur_on_context\<close> do.\<close>

definition add_child :: "vid \<Rightarrow> vprop \<Rightarrow> graph \<Rightarrow> vid \<times> graph" where
  "add_child v p g = (let (leaf, g) = add_vertex p g in (leaf, add_directed_edge v leaf g))"

lemma add_child_simps:
  assumes "tree_ok g"
  shows "add_child v p g = (g_next g, g\<lparr>g_vs := g_vs g @ [g_next g], g_prop := (g_prop g)(g_next g := p),
      g_adj := (g_adj g)(v := g_adj g v @ [g_next g]), g_up := (g_up g)(g_next g \<mapsto> v),
      g_num_vertices := g_num_vertices g + 1, g_next := Suc (g_next g)\<rparr>)"
  using assms next_not_child [OF assms, of v] tree_okD(3) [OF assms]
  by (simp add: add_child_def add_vertex_def add_directed_edge_def Let_def)

lemma map_if_fresh:
  "n \<notin> set xs \<Longrightarrow> map (\<lambda>u. f (if u = n then p else P u)) xs = map (\<lambda>u. f (P u)) xs"
  "n \<notin> set xs \<Longrightarrow> (\<lambda>u. f (if u = n then p else P u)) ` set xs = (\<lambda>u. f (P u)) ` set xs"
  by (induction xs) auto

lemma tree_ok_add_child:
  assumes "tree_ok g" "v < g_next g" "vp_key p \<notin> (\<lambda>u. vp_key (g_prop g u)) ` set (g_adj g v)"
  shows "tree_ok (snd (add_child v p g))"
proof -
  note D = tree_okD [OF assms(1)]
  let ?n = "g_next g"
  have n: "?n \<notin> set (g_adj g u)" for u by (rule next_not_child [OF assms(1)])
  define h where "h = snd (add_child v p g)"
  have h: "g_root h = g_root g" "g_cur h = g_cur g" "g_next h = Suc ?n" "g_num_vertices h = g_num_vertices g + 1"
      "g_prop h = (g_prop g)(?n := p)" "g_adj h = (g_adj g)(v := g_adj g v @ [?n])"
    unfolding h_def add_child_simps [OF assms(1)] by simp_all
  have mem: "u \<in> set (g_adj h w) \<longleftrightarrow> u \<in> set (g_adj g w) \<or> (w = v \<and> u = ?n)" for u w
    by (auto simp: h(6))
  have up: "u \<in> set (g_adj h w) \<Longrightarrow> w < Suc ?n \<and> u < Suc ?n \<and> u \<noteq> g_root g" for u w
    using D(1) D(4) [of u w] D(5) [of u w] D(6) [of u w] assms(2) by (auto simp: mem)
  have par: "u \<in> set (g_adj h w) \<Longrightarrow> u \<in> set (g_adj h w') \<Longrightarrow> w = w'" for u w w'
    using D(7) [of u w w'] n by (auto simp: mem)
  have "distinct (map (\<lambda>u. vp_key (g_prop h u)) (g_adj h w))" for w
    using D(8) [of w] D(8) [of v] assms(3)
    by (cases "w = v") (simp_all add: h(5,6) map_if_fresh n)
  note dist = this
  show ?thesis
    unfolding h_def [symmetric] tree_ok_def h(1-4)
  proof (intro conjI allI impI)
    show "w = w'" if "u \<in> set (g_adj h w)" "u \<in> set (g_adj h w')" for u w w'
      using par that .
  qed (use D(1-3) up dist in auto)
qed

lemma child_visits_add_child:
  assumes "tree_ok g" "v < g_next g"
  shows "child_visits (snd (add_child v p g)) w =
    (if w = g_next g then 0 else child_visits g w + (if w = v then vp_num_visit p else 0))"
proof -
  have n: "g_next g \<notin> set (g_adj g u)" for u by (rule next_not_child [OF assms(1)])
  show ?thesis
    using assms(2) next_no_children [OF assms(1)]
    unfolding add_child_simps [OF assms(1)] child_visits_def
    by (cases "w = v") (simp_all add: map_if_fresh n)
qed

end
