(* ===== verification/Parse_Tree.thy ===== *)
theory Parse_Tree
  imports Parse_Graph Patch
begin

text \<open>
  \<open>ParseTree\<close> of \<open>sdm_control/prefetch/include/markov.h\<close>: the Markov predictors of the prefetcher. An
  access is a key (a producer id); the tree counts phrases of keys in the LZ78 way (\<open>'l'\<close>), in the
  active-LeZi variant (\<open>'a'\<close>) or for contexts of a fixed length (PPM, \<open>'p'\<close>); the Poisson variant
  (\<open>'o'\<close>) keeps arrival counts and times. \<open>float\<close> arithmetic is a parameter: the record \<open>fops\<close> of the
  operations the code applies, so every statement holds for the rounding of any machine. The draws of
  \<open>rand()\<close> are a parameter as well, the n-th perturbation of a call being \<open>rnd n\<close>. The blended
  prediction (\<open>get_key__blended_prob_map\<close>) has no caller left and is not modelled.
\<close>

type_synonym timeval = "int \<times> int"

record 'f fops =
  f_zero :: 'f
  f_of_int :: "int \<Rightarrow> 'f"
  f_add :: "'f \<Rightarrow> 'f \<Rightarrow> 'f"
  f_div :: "'f \<Rightarrow> 'f \<Rightarrow> 'f"
  f_mul :: "'f \<Rightarrow> 'f \<Rightarrow> 'f"
  f_add_elapsed :: "'f \<Rightarrow> timeval \<Rightarrow> timeval \<Rightarrow> 'f"

definition MALGO_W_LZ :: char where "MALGO_W_LZ = CHR ''l''"
definition MALGO_W_ALZ :: char where "MALGO_W_ALZ = CHR ''a''"
definition MALGO_W_PPM :: char where "MALGO_W_PPM = CHR ''p''"
definition MALGO_W_PO :: char where "MALGO_W_PO = CHR ''o''"

lemmas malgo_defs = MALGO_W_LZ_def MALGO_W_ALZ_def MALGO_W_PPM_def MALGO_W_PO_def

definition PARSE_TREE_ROOT_KEY :: int where "PARSE_TREE_ROOT_KEY = - 2"
definition BACK_TO_ROOT_LEAF_KEY :: int where "BACK_TO_ROOT_LEAF_KEY = - 1"

record 'f parse_tree =
  malgo_t :: char
  context_size :: int
  pt_graph :: graph
  pt_context :: "int list"
  sliding_win :: "int list"
  longest_phrase_length :: int
  key__num_arr_map :: "(int, int) smap"
  key__last_arr_tv_map :: "(int, timeval) smap"
  key__sum_arr_t_map :: "(int, 'f) smap"

definition root_prop :: vprop where
  "root_prop = \<lparr>vp_name = ''R'', vp_key = PARSE_TREE_ROOT_KEY, vp_num_visit = 0, vp_status = CHR ''R'', vp_level = 0\<rparr>"

text \<open>The two constructors.\<close>

definition parse_tree_new2 :: "char \<Rightarrow> int \<Rightarrow> 'f parse_tree" where
  "parse_tree_new2 t n = \<lparr>malgo_t = t, context_size = n, pt_graph = snd (add_vertex root_prop graph_new),
     pt_context = [], sliding_win = [], longest_phrase_length = 0,
     key__num_arr_map = [], key__last_arr_tv_map = [], key__sum_arr_t_map = []\<rparr>"

definition parse_tree_new :: "char \<Rightarrow> 'f parse_tree" where
  "parse_tree_new t = parse_tree_new2 t (if t = MALGO_W_PPM then 2 else 0)"

definition pt_reset :: "'f parse_tree \<Rightarrow> 'f parse_tree" where
  "pt_reset pt = pt\<lparr>pt_graph := snd (add_vertex root_prop (graph_clear (pt_graph pt))),
     pt_context := [], sliding_win := [], longest_phrase_length := 0,
     key__num_arr_map := [], key__last_arr_tv_map := [], key__sum_arr_t_map := []\<rparr>"

subsection \<open>Walking and growing the tree\<close>

text \<open>\<open>does_vertex_have_key_in_adjs\<close>: the first child with the key, if there is one.\<close>

definition child_with_key :: "graph \<Rightarrow> vid \<Rightarrow> int \<Rightarrow> vid option" where
  "child_with_key g v key = List.find (\<lambda>u. vp_key (g_prop g u) = key) (g_adj g v)"

definition move_cur :: "bool \<Rightarrow> vid \<Rightarrow> 'f parse_tree \<Rightarrow> 'f parse_tree" where
  "move_cur inc_num_visit v pt =
     (let g = set_cur v (set_pre_cur (g_cur (pt_graph pt)) (pt_graph pt));
          g = (if inc_num_visit then set_prop v ((g_prop g v)\<lparr>vp_num_visit := vp_num_visit (g_prop g v) + 1\<rparr>) g else g)
      in pt\<lparr>pt_graph := g\<rparr>)"

definition create__connect_leaf :: "vid \<Rightarrow> int \<Rightarrow> 'f parse_tree \<Rightarrow> vid \<times> 'f parse_tree" where
  "create__connect_leaf v leaf_key pt =
     (let g = pt_graph pt;
          g = (if vp_status (g_prop g v) = CHR ''L'' then set_prop v ((g_prop g v)\<lparr>vp_status := CHR ''N''\<rparr>) g else g);
          leaf_prop = \<lparr>vp_name = vp_name (g_prop g v) @ dec_int leaf_key, vp_key = leaf_key, vp_num_visit = 1,
                       vp_status = CHR ''L'', vp_level = vp_level (g_prop g v) + 1\<rparr>;
          pt = (if leaf_key \<noteq> BACK_TO_ROOT_LEAF_KEY \<and> longest_phrase_length pt < vp_level leaf_prop
                then pt\<lparr>longest_phrase_length := vp_level leaf_prop\<rparr> else pt);
          (leaf, g) = add_vertex leaf_prop g;
          g = add_directed_edge v leaf g
      in (leaf, pt\<lparr>pt_graph := g\<rparr>))"

subsection \<open>LZ\<close>

definition add_access_w_lz :: "int \<Rightarrow> 'f parse_tree \<Rightarrow> rc \<times> 'f parse_tree" where
  "add_access_w_lz key pt =
     (let cur_v = g_cur (pt_graph pt) in
      (0, case child_with_key (pt_graph pt) cur_v key of
            Some leaf_to_go \<Rightarrow> move_cur True leaf_to_go pt
          | None \<Rightarrow>
              let (leaf, pt) = create__connect_leaf cur_v key pt;
                  pt = (case child_with_key (pt_graph pt) leaf BACK_TO_ROOT_LEAF_KEY of
                          None \<Rightarrow> snd (create__connect_leaf leaf BACK_TO_ROOT_LEAF_KEY pt)
                        | Some _ \<Rightarrow> pt)
              in move_cur True (g_root (pt_graph pt)) pt))"

text \<open>The denominator at the cursor, and the one at the root when the prediction falls back to it.\<close>

definition lz_total :: "'f parse_tree \<Rightarrow> int" where
  "lz_total pt =
     (let p = g_prop (pt_graph pt) (g_cur (pt_graph pt)) in
      if vp_status p \<noteq> CHR ''R'' \<and> malgo_t pt \<noteq> MALGO_W_PPM then vp_num_visit p - 1 else vp_num_visit p)"

definition lz_root_total :: "'f parse_tree \<Rightarrow> int" where
  "lz_root_total pt = vp_num_visit (g_prop (pt_graph pt) (g_root (pt_graph pt))) + 1"

text \<open>One loop over the children: \<open>num_visit / total\<close> plus the next random perturbation.\<close>

fun fill_probs ::
  "'f fops \<Rightarrow> (nat \<Rightarrow> 'f) \<Rightarrow> graph \<Rightarrow> int \<Rightarrow> vid list \<Rightarrow> nat \<Rightarrow> (int, 'f) smap \<Rightarrow> (int, 'f) smap" where
  "fill_probs fo rnd g tnv [] i m = m"
| "fill_probs fo rnd g tnv (u # us) i m =
     fill_probs fo rnd g tnv us (Suc i)
       (smap_put (vp_key (g_prop g u))
          (f_add fo (f_div fo (f_of_int fo (vp_num_visit (g_prop g u))) (f_of_int fo tnv)) (rnd i)) m)"

definition get_key_prob_map_w_lz ::
  "'f fops \<Rightarrow> (nat \<Rightarrow> 'f) \<Rightarrow> 'f parse_tree \<Rightarrow> (int, 'f) smap \<Rightarrow> (int, 'f) smap" where
  "get_key_prob_map_w_lz fo rnd pt m =
     (let g = pt_graph pt;
          adj = g_adj g (g_cur g);
          m = fill_probs fo rnd g (lz_total pt) adj 0 m;
          m = (if m = [] \<or> (length m = 1 \<and> fst (hd m) = BACK_TO_ROOT_LEAF_KEY)
               then fill_probs fo rnd g (lz_root_total pt) (g_adj g (g_root g)) (length adj) []
               else m)
      in if smap_contains BACK_TO_ROOT_LEAF_KEY m then smap_erase BACK_TO_ROOT_LEAF_KEY m else m)"

subsection \<open>ALZ\<close>

fun alz_walk :: "int list \<Rightarrow> 'f parse_tree \<Rightarrow> 'f parse_tree" where
  "alz_walk [] pt = pt"
| "alz_walk (k # ks) pt =
     (let cur_v = g_cur (pt_graph pt) in
      alz_walk ks
        (case child_with_key (pt_graph pt) cur_v k of
           Some leaf_to_go \<Rightarrow> move_cur True leaf_to_go pt
         | None \<Rightarrow> let (leaf, pt) = create__connect_leaf cur_v k pt in move_cur False leaf pt))"

definition add_access_w_alz :: "int \<Rightarrow> 'f parse_tree \<Rightarrow> rc \<times> 'f parse_tree" where
  "add_access_w_alz key pt =
     (let (r, pt) = add_access_w_lz key pt in
      if r \<noteq> 0 then (1, pt)
      else
        let cur0 = g_cur (pt_graph pt);
            pt = (if length (sliding_win pt) < 1 then pt\<lparr>sliding_win := sliding_win pt @ [key]\<rparr>
                  else pt\<lparr>sliding_win := tl (sliding_win pt) @ [key]\<rparr>);
            pt = (if 1 < longest_phrase_length pt \<and> vp_status (g_prop (pt_graph pt) cur0) = CHR ''R''
                  then
                    let pt = move_cur True (g_root (pt_graph pt)) pt;
                        pt = alz_walk (sliding_win pt) pt;
                        cur_v = g_cur (pt_graph pt)
                    in (case child_with_key (pt_graph pt) cur_v BACK_TO_ROOT_LEAF_KEY of
                          Some back_to_root_leaf \<Rightarrow> move_cur True back_to_root_leaf pt
                        | None \<Rightarrow> let (leaf, pt) = create__connect_leaf cur_v BACK_TO_ROOT_LEAF_KEY pt
                                  in move_cur False leaf pt)
                  else pt)
        in (0, move_cur False cur0 pt))"

subsection \<open>PPM\<close>

text \<open>\<open>move_cur_on_context\<close> follows the context from the cursor and returns how far it got.\<close>

fun walk_context :: "bool \<Rightarrow> int list \<Rightarrow> int \<Rightarrow> 'f parse_tree \<Rightarrow> int \<times> 'f parse_tree" where
  "walk_context inc [] i pt = (i, pt)"
| "walk_context inc (k # ks) i pt =
     (case child_with_key (pt_graph pt) (g_cur (pt_graph pt)) k of
        Some leaf_to_go \<Rightarrow> walk_context inc ks (i + 1) (move_cur inc leaf_to_go pt)
      | None \<Rightarrow> (i, pt))"

definition move_cur_on_context :: "bool \<Rightarrow> 'f parse_tree \<Rightarrow> int \<times> 'f parse_tree" where
  "move_cur_on_context inc pt = walk_context inc (pt_context pt) 0 pt"

text \<open>The rest of the context is added below the cursor; the last of it gets the status \<open>'L'\<close>.\<close>

fun create_context :: "int list \<Rightarrow> 'f parse_tree \<Rightarrow> 'f parse_tree" where
  "create_context [] pt = pt"
| "create_context (k # ks) pt =
     (let g = pt_graph pt;
          cur_v = g_cur g;
          cur_prop = g_prop g cur_v;
          leaf_prop = \<lparr>vp_name = vp_name cur_prop @ dec_int k, vp_key = k, vp_num_visit = 0,
                       vp_status = (if ks \<noteq> [] then CHR ''N'' else CHR ''L''), vp_level = vp_level cur_prop + 1\<rparr>;
          (leaf, g) = add_vertex leaf_prop g;
          g = add_directed_edge cur_v leaf g
      in create_context ks (move_cur True leaf (pt\<lparr>pt_graph := g\<rparr>)))"

definition create__move_cur_on_context :: "int \<Rightarrow> 'f parse_tree \<Rightarrow> 'f parse_tree" where
  "create__move_cur_on_context i pt = create_context (drop (nat i) (pt_context pt)) pt"

text \<open>\<open>context.pop_front()\<close> on an empty deque is undefined: a context size of 0 runs into it.\<close>

definition add_access_w_ppm :: "int \<Rightarrow> 'f parse_tree \<Rightarrow> (rc \<times> 'f parse_tree) option" where
  "add_access_w_ppm key pt =
     do { pt \<leftarrow>
       (if int (length (pt_context pt)) = context_size pt
        then
          let (i, pt) = move_cur_on_context True pt;
              pt = create__move_cur_on_context i pt;
              pt = (case child_with_key (pt_graph pt) (g_cur (pt_graph pt)) key of
                      Some leaf_to_go \<Rightarrow> move_cur True leaf_to_go pt
                    | None \<Rightarrow> snd (create__connect_leaf (g_cur (pt_graph pt)) key pt));
              pt = move_cur True (g_root (pt_graph pt)) pt
          in if pt_context pt = [] then None else Some (pt\<lparr>pt_context := tl (pt_context pt)\<rparr>)
        else Some pt);
       Some (0, pt\<lparr>pt_context := pt_context pt @ [key]\<rparr>) }"

definition get_key_prob_map_w_ppm ::
  "'f fops \<Rightarrow> (nat \<Rightarrow> 'f) \<Rightarrow> 'f parse_tree \<Rightarrow> (int, 'f) smap \<Rightarrow> (int, 'f) smap \<times> 'f parse_tree" where
  "get_key_prob_map_w_ppm fo rnd pt m =
     (let (_, pt) = move_cur_on_context False pt;
          m = get_key_prob_map_w_lz fo rnd pt m
      in (m, move_cur False (g_root (pt_graph pt)) pt))"

subsection \<open>Poisson\<close>

text \<open>\<open>now\<close> is what \<open>gettimeofday\<close> returns. \<open>f_add_elapsed s last now\<close> is the update of the running sum.\<close>

definition add_access_w_po :: "'f fops \<Rightarrow> timeval \<Rightarrow> int \<Rightarrow> 'f parse_tree \<Rightarrow> rc \<times> 'f parse_tree" where
  "add_access_w_po fo now key pt =
     (let pt = (if \<not> smap_contains key (key__num_arr_map pt)
                then pt\<lparr>key__num_arr_map := smap_put key 0 (key__num_arr_map pt)\<rparr>
                else
                  let last_arr_tv = smap_get (0, 0) key (key__last_arr_tv_map pt);
                      s = smap_get (f_zero fo) key (key__sum_arr_t_map pt)
                  in pt\<lparr>key__last_arr_tv_map := smap_touch (0, 0) key (key__last_arr_tv_map pt),
                        key__sum_arr_t_map := smap_put key (f_add_elapsed fo s last_arr_tv now) (key__sum_arr_t_map pt)\<rparr>)
      in (0, pt\<lparr>key__num_arr_map := smap_put key (smap_get 0 key (key__num_arr_map pt) + 1) (key__num_arr_map pt),
                key__last_arr_tv_map := smap_put key now (key__last_arr_tv_map pt)\<rparr>))"

definition po_rate :: "'f fops \<Rightarrow> 'f parse_tree \<Rightarrow> int \<times> int \<Rightarrow> 'f" where
  "po_rate fo pt e = f_div fo (f_of_int fo (snd e)) (smap_get (f_zero fo) (fst e) (key__sum_arr_t_map pt))"

text \<open>The reads \<open>key__sum_arr_t_map[it->first]\<close> insert the keys they miss.\<close>

definition get_key_prob_map_w_poisson ::
  "'f fops \<Rightarrow> 'f parse_tree \<Rightarrow> (int, 'f) smap \<Rightarrow> (int, 'f) smap \<times> 'f parse_tree" where
  "get_key_prob_map_w_poisson fo pt m =
     (let es = key__num_arr_map pt;
          sum = foldl (\<lambda>s e. f_add fo s (po_rate fo pt e)) (f_zero fo) es;
          m = foldl (\<lambda>m e. smap_put (fst e) (f_div fo (po_rate fo pt e) sum) m) m es
      in (m, pt\<lparr>key__sum_arr_t_map := foldl (\<lambda>s e. smap_touch (f_zero fo) (fst e) s) (key__sum_arr_t_map pt) es\<rparr>))"

subsection \<open>The interface of the tree\<close>

text \<open>For any other value of \<open>malgo_t\<close> \<open>add_access\<close> runs off its end: undefined.\<close>

definition pt_add_access :: "'f fops \<Rightarrow> timeval \<Rightarrow> int \<Rightarrow> 'f parse_tree \<Rightarrow> (rc \<times> 'f parse_tree) option" where
  "pt_add_access fo now key pt =
     (if malgo_t pt = MALGO_W_LZ then Some (add_access_w_lz key pt)
      else if malgo_t pt = MALGO_W_ALZ then Some (add_access_w_alz key pt)
      else if malgo_t pt = MALGO_W_PPM then add_access_w_ppm key pt
      else if malgo_t pt = MALGO_W_PO then Some (add_access_w_po fo now key pt)
      else None)"

definition pt_get_key_prob_map ::
  "'f fops \<Rightarrow> (nat \<Rightarrow> 'f) \<Rightarrow> 'f parse_tree \<Rightarrow> (int, 'f) smap \<Rightarrow> rc \<times> (int, 'f) smap \<times> 'f parse_tree" where
  "pt_get_key_prob_map fo rnd pt m =
     (if malgo_t pt = MALGO_W_LZ then (0, get_key_prob_map_w_lz fo rnd pt m, pt)
      else if malgo_t pt = MALGO_W_ALZ then (0, get_key_prob_map_w_lz fo rnd pt m, pt)
      else if malgo_t pt = MALGO_W_PPM then (0, get_key_prob_map_w_ppm fo rnd pt m)
      else if malgo_t pt = MALGO_W_PO then (0, get_key_prob_map_w_poisson fo pt m)
      else (0, m, pt))"

text \<open>\<open>prob_key_map\<close>: a probability keeps the largest key that has it.\<close>

definition invert_map :: "('k, 'f::linorder) smap \<Rightarrow> ('f, 'k) smap" where
  "invert_map m = foldl (\<lambda>p e. smap_put (snd e) (fst e) p) [] m"

text \<open>Appending from the most probable on until the vector has \<open>n\<close> elements; the test follows the append.\<close>

fun push_ranked :: "int \<Rightarrow> 'k list \<Rightarrow> 'k list \<Rightarrow> 'k list" where
  "push_ranked n [] out = out"
| "push_ranked n (k # ks) out =
     (let out = out @ [k] in if int (length out) = n then out else push_ranked n ks out)"

definition rank_keys :: "int \<Rightarrow> ('k, 'f::linorder) smap \<Rightarrow> 'k list \<Rightarrow> 'k list" where
  "rank_keys n m out = push_ranked n (map snd (rev (invert_map m))) out"

text \<open>\<open>num_keys\<close> comes back as the size of the vector.\<close>

definition pt_get_to_prefetch ::
  "'f::linorder fops \<Rightarrow> (nat \<Rightarrow> 'f) \<Rightarrow> int \<Rightarrow> int list \<Rightarrow> 'f parse_tree \<Rightarrow> rc \<times> int \<times> int list \<times> 'f parse_tree" where
  "pt_get_to_prefetch fo rnd num_keys key_v pt =
     (let (_, m, pt) = pt_get_key_prob_map fo rnd pt [];
          key_v = rank_keys num_keys m key_v
      in (0, int (length key_v), key_v, pt))"

subsection \<open>A concrete arithmetic\<close>

text \<open>Integers scaled by 100 stand in for \<open>float\<close> where a predictor is run on a concrete sequence.\<close>

definition int_fops :: "int fops" where
  "int_fops = \<lparr>f_zero = 0, f_of_int = (\<lambda>i. i), f_add = (+), f_div = (\<lambda>a b. a * 100 div b), f_mul = (*),
     f_add_elapsed = (\<lambda>s a b. s + (fst b - fst a))\<rparr>"

end
