(* ===== verification/Parse_Tree_LZ.thy ===== *)
theory Parse_Tree_LZ
  imports Parse_Tree
begin

text \<open>
  Correctness of the LZ and ALZ predictors of \<open>markov.h\<close>: the visit counters of the tree are a flow, so
  the estimated distribution is normalised by the totals the code divides by, and the tree is the
  dictionary of the LZ78 parsing of the accesses.
\<close>

abbreviation nv :: "graph \<Rightarrow> vid \<Rightarrow> int" where
  "nv g v \<equiv> vp_num_visit (g_prop g v)"

abbreviation key :: "graph \<Rightarrow> vid \<Rightarrow> int" where
  "key g v \<equiv> vp_key (g_prop g v)"

subsection \<open>The two ways the tree changes\<close>

lemma map_if_other: "n \<notin> set xs \<Longrightarrow> map (\<lambda>u. if u = n then a else f u) xs = map f xs"
  by (induction xs) auto

lemma child_with_key_Some:
  "child_with_key g v k = Some u \<Longrightarrow> u \<in> set (g_adj g v) \<and> key g u = k"
  by (auto simp: child_with_key_def find_Some_iff)

lemma child_with_key_None:
  "child_with_key g v k = None \<longleftrightarrow> k \<notin> key g ` set (g_adj g v)"
  by (auto simp: child_with_key_def find_None_iff)

text \<open>\<open>move_cur\<close> changes the cursor and possibly one counter.\<close>

lemma move_cur_simps [simp]:
  "g_root (pt_graph (move_cur inc v pt)) = g_root (pt_graph pt)"
  "g_next (pt_graph (move_cur inc v pt)) = g_next (pt_graph pt)"
  "g_adj (pt_graph (move_cur inc v pt)) = g_adj (pt_graph pt)"
  "g_vs (pt_graph (move_cur inc v pt)) = g_vs (pt_graph pt)"
  "g_num_vertices (pt_graph (move_cur inc v pt)) = g_num_vertices (pt_graph pt)"
  "g_cur (pt_graph (move_cur inc v pt)) = v"
  "key (pt_graph (move_cur inc v pt)) u = key (pt_graph pt) u"
  "vp_status (g_prop (pt_graph (move_cur inc v pt)) u) = vp_status (g_prop (pt_graph pt) u)"
  "nv (pt_graph (move_cur inc v pt)) u = nv (pt_graph pt) u + (if inc \<and> u = v then 1 else 0)"
  "malgo_t (move_cur inc v pt) = malgo_t pt" "context_size (move_cur inc v pt) = context_size pt"
  "pt_context (move_cur inc v pt) = pt_context pt" "sliding_win (move_cur inc v pt) = sliding_win pt"
  "longest_phrase_length (move_cur inc v pt) = longest_phrase_length pt"
  by (simp_all add: move_cur_def set_cur_def set_pre_cur_def set_prop_def Let_def)

lemma child_with_key_move [simp]:
  "child_with_key (pt_graph (move_cur inc v pt)) u k = child_with_key (pt_graph pt) u k"
  by (simp add: child_with_key_def)

lemma tree_ok_move: "tree_ok (pt_graph pt) \<Longrightarrow> v < g_next (pt_graph pt) \<Longrightarrow> tree_ok (pt_graph (move_cur inc v pt))"
  by (simp add: tree_ok_def)

lemma child_visits_move:
  assumes "tree_ok (pt_graph pt)"
  shows "child_visits (pt_graph (move_cur inc v pt)) w =
    child_visits (pt_graph pt) w + (if inc \<and> v \<in> set (g_adj (pt_graph pt) w) then 1 else 0)"
proof -
  have "child_visits (pt_graph (move_cur inc v pt)) w =
      (\<Sum>u\<leftarrow>g_adj (pt_graph pt) w. if u = v then (if inc then 1 else 0) + nv (pt_graph pt) u else nv (pt_graph pt) u)"
    unfolding child_visits_def by (intro arg_cong [of _ _ sum_list] map_cong) auto
  also have "\<dots> = child_visits (pt_graph pt) w + (if inc \<and> v \<in> set (g_adj (pt_graph pt) w) then 1 else 0)"
    unfolding child_visits_def using tree_okD(9) [OF assms] by (subst sum_list_upd) auto
  finally show ?thesis .
qed

text \<open>\<open>create__connect_leaf\<close> hangs a new vertex with one visit below \<open>v\<close>.\<close>

lemma create_leaf_simps:
  assumes "tree_ok (pt_graph pt)" and c: "create__connect_leaf v k pt = (leaf, pt')"
    and v: "v < g_next (pt_graph pt)"
  shows "leaf = g_next (pt_graph pt)" "g_root (pt_graph pt') = g_root (pt_graph pt)"
    "g_next (pt_graph pt') = Suc (g_next (pt_graph pt))" "g_cur (pt_graph pt') = g_cur (pt_graph pt)"
    "g_num_vertices (pt_graph pt') = g_num_vertices (pt_graph pt) + 1"
    "g_vs (pt_graph pt') = g_vs (pt_graph pt) @ [g_next (pt_graph pt)]"
    "g_adj (pt_graph pt') = (g_adj (pt_graph pt))(v := g_adj (pt_graph pt) v @ [g_next (pt_graph pt)])"
    "key (pt_graph pt') u = (if u = g_next (pt_graph pt) then k else key (pt_graph pt) u)"
    "nv (pt_graph pt') u = (if u = g_next (pt_graph pt) then 1 else nv (pt_graph pt) u)"
    "vp_status (g_prop (pt_graph pt') u) =
      (if u = g_next (pt_graph pt) then CHR ''L''
       else if u = v \<and> vp_status (g_prop (pt_graph pt) v) = CHR ''L'' then CHR ''N'' else vp_status (g_prop (pt_graph pt) u))"
    "malgo_t pt' = malgo_t pt" "sliding_win pt' = sliding_win pt" "context_size pt' = context_size pt"
    "pt_context pt' = pt_context pt"
  using c v tree_okD(3) [OF assms(1)] next_not_child [OF assms(1), of v]
  by (auto simp: create__connect_leaf_def add_vertex_def add_directed_edge_def set_prop_def Let_def
      split: if_splits)

lemma tree_ok_create:
  assumes "tree_ok (pt_graph pt)" "create__connect_leaf v k pt = (leaf, pt')" "v < g_next (pt_graph pt)"
    and "child_with_key (pt_graph pt) v k = None"
  shows "tree_ok (pt_graph pt')"
proof -
  note C = create_leaf_simps [OF assms(1-3)] and D = tree_okD [OF assms(1)]
  have n: "g_next (pt_graph pt) \<notin> set (g_adj (pt_graph pt) u)" for u by (rule next_not_child [OF assms(1)])
  have mem: "u \<in> set (g_adj (pt_graph pt') w) \<longleftrightarrow>
      u \<in> set (g_adj (pt_graph pt) w) \<or> (w = v \<and> u = g_next (pt_graph pt))" for u w
    by (auto simp: C(7))
  have up: "u \<in> set (g_adj (pt_graph pt') w) \<Longrightarrow>
      w < Suc (g_next (pt_graph pt)) \<and> u < Suc (g_next (pt_graph pt)) \<and> u \<noteq> g_root (pt_graph pt)" for u w
    using D(1) D(4) [of u w] D(5) [of u w] D(6) [of u w] assms(3) by (auto simp: mem)
  have par: "u \<in> set (g_adj (pt_graph pt') w) \<Longrightarrow> u \<in> set (g_adj (pt_graph pt') w') \<Longrightarrow> w = w'" for u w w'
    using D(7) [of u w w'] n by (auto simp: mem)
  have "k \<notin> key (pt_graph pt) ` set (g_adj (pt_graph pt) v)" using assms(4) by (simp add: child_with_key_None)
  then have dist: "distinct (map (\<lambda>u. key (pt_graph pt') u) (g_adj (pt_graph pt') w))" for w
    using D(8) [of w] D(8) [of v] n by (auto simp: C(7,8) map_if_other)
  show ?thesis
    unfolding tree_ok_def C(2-5)
  proof (intro conjI allI impI)
    show "w = w'" if "u \<in> set (g_adj (pt_graph pt') w)" "u \<in> set (g_adj (pt_graph pt') w')" for u w w'
      using par that .
  qed (use D(1-3) up dist in auto)
qed

lemma child_visits_create:
  assumes "tree_ok (pt_graph pt)" "create__connect_leaf v k pt = (leaf, pt')" "v < g_next (pt_graph pt)"
  shows "child_visits (pt_graph pt') w = (if w = leaf then 0 else child_visits (pt_graph pt) w + (if w = v then 1 else 0))"
proof -
  note C = create_leaf_simps [OF assms]
  have old: "sum_list (map (\<lambda>u. nv (pt_graph pt') u) (g_adj (pt_graph pt) w)) = child_visits (pt_graph pt) w" for w
    unfolding child_visits_def C(9) by (simp add: map_if_other next_not_child [OF assms(1)])
  show ?thesis
    using assms(3) next_no_children [OF assms(1)] old [of w] unfolding child_visits_def [of "pt_graph pt'"] C(7)
    by (auto simp: C(1,9) child_visits_def)
qed

lemma child_with_key_create:
  assumes "tree_ok (pt_graph pt)" "create__connect_leaf v k pt = (leaf, pt')" "v < g_next (pt_graph pt)"
  shows "child_with_key (pt_graph pt') w j =
    (if w = v \<and> child_with_key (pt_graph pt) v j = None \<and> j = k then Some leaf else child_with_key (pt_graph pt) w j)"
proof -
  note C = create_leaf_simps [OF assms]
  have "List.find (\<lambda>u. key (pt_graph pt') u = j) (g_adj (pt_graph pt) w) = child_with_key (pt_graph pt) w j" for w
    unfolding child_with_key_def using next_not_child [OF assms(1), of w]
    by (intro find_cong) (auto simp: C(8))
  moreover have "List.find P (xs @ [y]) = (case List.find P xs of Some z \<Rightarrow> Some z | None \<Rightarrow> if P y then Some y else None)" for P xs and y :: vid
    by (induction xs) auto
  ultimately show ?thesis
    unfolding child_with_key_def [of "pt_graph pt'"] C(7) by (auto simp: C(1,8) split: option.splits)
qed

subsection \<open>Visits are a flow\<close>

text \<open>\<open>flow r c\<close>: the visits of a vertex other than the root are those of its children, one less at the
  vertex \<open>c\<close> that was entered and not left yet; the root has \<open>r\<close> visits less than its children.\<close>

definition flow :: "int \<Rightarrow> vid \<Rightarrow> graph \<Rightarrow> bool" where
  "flow r c g \<longleftrightarrow> child_visits g (g_root g) = nv g (g_root g) + r \<and>
     (\<forall>v\<in>set (g_vs g). v \<noteq> g_root g \<longrightarrow> key g v \<noteq> BACK_TO_ROOT_LEAF_KEY \<longrightarrow>
        child_visits g v + (if v = c then 1 else 0) = nv g v)"

definition tree_inv :: "graph \<Rightarrow> bool" where
  "tree_inv g \<longleftrightarrow> tree_ok g \<and> key g (g_root g) = PARSE_TREE_ROOT_KEY \<and>
     (\<forall>v\<in>set (g_vs g). vp_status (g_prop g v) = CHR ''R'' \<longleftrightarrow> v = g_root g) \<and>
     (\<forall>v u. u \<in> set (g_adj g v) \<longrightarrow> v \<in> set (g_vs g) \<and> u \<in> set (g_vs g))"

lemma tree_invD:
  assumes "tree_inv g"
  shows "tree_ok g" "key g (g_root g) = PARSE_TREE_ROOT_KEY"
    "v \<in> set (g_vs g) \<Longrightarrow> vp_status (g_prop g v) = CHR ''R'' \<longleftrightarrow> v = g_root g"
    "u \<in> set (g_adj g v) \<Longrightarrow> v \<in> set (g_vs g)" "u \<in> set (g_adj g v) \<Longrightarrow> u \<in> set (g_vs g)"
  using assms by (auto simp: tree_inv_def)

lemma tree_inv_move: "tree_inv (pt_graph pt) \<Longrightarrow> v < g_next (pt_graph pt) \<Longrightarrow> tree_inv (pt_graph (move_cur inc v pt))"
  by (auto simp: tree_inv_def tree_ok_move)

lemma tree_inv_create:
  assumes "tree_inv (pt_graph pt)" "create__connect_leaf v k pt = (leaf, pt')" "v < g_next (pt_graph pt)"
    and "v \<in> set (g_vs (pt_graph pt))" "child_with_key (pt_graph pt) v k = None"
  shows "tree_inv (pt_graph pt') \<and> leaf < g_next (pt_graph pt') \<and> leaf \<in> set (g_vs (pt_graph pt')) \<and> leaf \<noteq> g_root (pt_graph pt)"
proof -
  note I = tree_invD [OF assms(1)] and C = create_leaf_simps [OF tree_invD(1) [OF assms(1)] assms(2,3)]
  note D = tree_okD [OF I(1)]
  have "vp_status (g_prop (pt_graph pt') u) = CHR ''R'' \<longleftrightarrow> u = g_root (pt_graph pt)" if "u \<in> set (g_vs (pt_graph pt'))" for u
    using I(3) [of u] D(1) assms(4) I(3) [of v] that by (auto simp: C(6,10))
  moreover have "w \<in> set (g_vs (pt_graph pt')) \<and> u \<in> set (g_vs (pt_graph pt'))" if "u \<in> set (g_adj (pt_graph pt') w)" for u w
    using I(4) [of u w] I(5) [of u w] assms(4) that by (auto simp: C(6,7) split: if_splits)
  ultimately show ?thesis
    using tree_ok_create [OF I(1) assms(2,3,5)] I(2) D(1) by (auto simp: tree_inv_def C(1-3,6,8))
qed

text \<open>Entering a child that exists, entering a new one, leaving through the leaf, returning to the root.\<close>

lemma flow_descend:
  assumes "tree_ok (pt_graph pt)" "flow r c (pt_graph pt)" "c < g_next (pt_graph pt)"
    and "key (pt_graph pt) c \<noteq> BACK_TO_ROOT_LEAF_KEY"
    and "child_with_key (pt_graph pt) c k = Some u" "k \<noteq> BACK_TO_ROOT_LEAF_KEY"
  shows "flow (r + (if c = g_root (pt_graph pt) then 1 else 0)) u (pt_graph (move_cur True u pt))"
proof -
  note D = tree_okD [OF assms(1)]
  have u: "u \<in> set (g_adj (pt_graph pt) c)" "key (pt_graph pt) u = k" using child_with_key_Some [OF assms(5)] by auto
  have par: "u \<in> set (g_adj (pt_graph pt) w) \<longleftrightarrow> w = c" for w using D(7) [OF _ u(1)] u(1) by blast
  have "u \<noteq> g_root (pt_graph pt)" "u \<noteq> c \<or> u = c" using D(6) u by auto
  then show ?thesis
    using assms(2) unfolding flow_def child_visits_move [OF assms(1)] par by auto
qed

lemma flow_create:
  assumes "tree_ok (pt_graph pt)" "flow r c (pt_graph pt)" "c < g_next (pt_graph pt)"
    and "create__connect_leaf c k pt = (leaf, pt')"
  shows "flow (r + (if c = g_root (pt_graph pt) then 1 else 0)) leaf (pt_graph pt')"
proof -
  note C = create_leaf_simps [OF assms(1,4,3)] and D = tree_okD [OF assms(1)]
  show ?thesis
    using assms(2) D(1)
    unfolding flow_def child_visits_create [OF assms(1,4,3)] C(1-3,6,8,9) by auto
qed

lemma flow_leave_create:
  assumes "tree_ok (pt_graph pt)" "flow r c (pt_graph pt)" "c < g_next (pt_graph pt)" "c \<noteq> g_root (pt_graph pt)"
    and "create__connect_leaf c BACK_TO_ROOT_LEAF_KEY pt = (leaf, pt')"
  shows "flow r (g_root (pt_graph pt)) (pt_graph pt')"
proof -
  note C = create_leaf_simps [OF assms(1,5,3)] and D = tree_okD [OF assms(1)]
  show ?thesis
    using assms(2,4) D(1)
    unfolding flow_def child_visits_create [OF assms(1,5,3)] C(1-3,6,8,9) by auto
qed

lemma flow_leave_descend:
  assumes "tree_ok (pt_graph pt)" "flow r c (pt_graph pt)" "c < g_next (pt_graph pt)" "c \<noteq> g_root (pt_graph pt)"
    and "child_with_key (pt_graph pt) c BACK_TO_ROOT_LEAF_KEY = Some u"
  shows "flow r (g_root (pt_graph pt)) (pt_graph (move_cur True u pt))"
proof -
  note D = tree_okD [OF assms(1)]
  have u: "u \<in> set (g_adj (pt_graph pt) c)" "key (pt_graph pt) u = BACK_TO_ROOT_LEAF_KEY"
    using child_with_key_Some [OF assms(5)] by auto
  have par: "u \<in> set (g_adj (pt_graph pt) w) \<longleftrightarrow> w = c" for w using D(7) [OF _ u(1)] u(1) by blast
  have "u \<noteq> g_root (pt_graph pt)" using D(6) u by auto
  then show ?thesis
    using assms(2,4) u(2) unfolding flow_def child_visits_move [OF assms(1)] par by auto
qed

lemma flow_root:
  assumes "tree_ok (pt_graph pt)" "flow r (g_root (pt_graph pt)) (pt_graph pt)"
  shows "flow (r - 1) (g_root (pt_graph pt)) (pt_graph (move_cur True (g_root (pt_graph pt)) pt))"
  using assms(2) tree_okD(6) [OF assms(1)] unfolding flow_def child_visits_move [OF assms(1)] by auto

lemma flow_move_False:
  assumes "tree_ok (pt_graph pt)"
  shows "flow r c (pt_graph (move_cur False v pt)) \<longleftrightarrow> flow r c (pt_graph pt)"
  unfolding flow_def child_visits_move [OF assms] by simp

subsection \<open>LZ keeps the flow\<close>

text \<open>Between two accesses: the cursor is the vertex entered last.\<close>

definition lz_inv :: "graph \<Rightarrow> bool" where
  "lz_inv g \<longleftrightarrow> tree_inv g \<and> flow (if g_cur g = g_root g then 0 else 1) (g_cur g) g \<and>
     key g (g_cur g) \<noteq> BACK_TO_ROOT_LEAF_KEY \<and> g_cur g \<in> set (g_vs g) \<and> g_root g \<in> set (g_vs g)"

lemma key_consts [simp]: "PARSE_TREE_ROOT_KEY \<noteq> BACK_TO_ROOT_LEAF_KEY" "BACK_TO_ROOT_LEAF_KEY \<noteq> PARSE_TREE_ROOT_KEY"
  by (simp_all add: PARSE_TREE_ROOT_KEY_def BACK_TO_ROOT_LEAF_KEY_def)

lemma lz_inv_new: "lz_inv (pt_graph (parse_tree_new2 t n))"
  by (auto simp: lz_inv_def tree_inv_def flow_def tree_ok_def child_visits_def parse_tree_new2_def
      add_vertex_def graph_new_def root_prop_def Let_def no_vprop_def less_Suc_eq)

lemma back_leaf_missing:
  assumes "tree_ok (pt_graph pt)" "create__connect_leaf v k pt = (leaf, pt')" "v < g_next (pt_graph pt)"
  shows "child_with_key (pt_graph pt') leaf j = None"
  using assms(3) child_with_key_create [OF assms, of leaf j] next_no_children [OF assms(1)] create_leaf_simps(1) [OF assms]
  by (auto simp: child_with_key_def split: if_splits)

lemma lz_inv_access_lz:
  assumes inv: "lz_inv (pt_graph pt)" and k: "k \<noteq> BACK_TO_ROOT_LEAF_KEY"
  shows "lz_inv (pt_graph (snd (add_access_w_lz k pt)))"
proof -
  let ?g = "pt_graph pt" and ?c = "g_cur (pt_graph pt)"
  have T: "tree_inv ?g" and F: "flow (if ?c = g_root ?g then 0 else 1) ?c ?g" and ck: "key ?g ?c \<noteq> BACK_TO_ROOT_LEAF_KEY"
    and vs: "?c \<in> set (g_vs ?g)" "g_root ?g \<in> set (g_vs ?g)" using inv by (auto simp: lz_inv_def)
  note I = tree_invD [OF T] and D = tree_okD [OF tree_invD(1) [OF T]]
  show ?thesis
  proof (cases "child_with_key ?g ?c k")
    case (Some u)
    then have u: "u \<in> set (g_adj ?g ?c)" "key ?g u = k" using child_with_key_Some by auto
    have "flow 1 u (pt_graph (move_cur True u pt))"
      using flow_descend [OF I(1) F D(2) ck Some k] by (simp split: if_splits)
    moreover have "tree_inv (pt_graph (move_cur True u pt))" using tree_inv_move [OF T D(5) [OF u(1)]] .
    ultimately show ?thesis
      using Some D(6) [OF u(1)] u(2) k vs(2) I(5) [OF u(1)] by (simp add: add_access_w_lz_def lz_inv_def)
  next
    case None
    obtain leaf p1 where c1: "create__connect_leaf ?c k pt = (leaf, p1)" by (metis surj_pair)
    obtain b p2 where c2: "create__connect_leaf leaf BACK_TO_ROOT_LEAF_KEY p1 = (b, p2)" by (metis surj_pair)
    note C1 = create_leaf_simps [OF I(1) c1 D(2)]
    have T1: "tree_inv (pt_graph p1)" and leaf: "leaf < g_next (pt_graph p1)" "leaf \<in> set (g_vs (pt_graph p1))" "leaf \<noteq> g_root ?g"
      using tree_inv_create [OF T c1 D(2) vs(1) None] by auto
    note C2 = create_leaf_simps [OF tree_invD(1) [OF T1] c2 leaf(1)]
    have miss: "child_with_key (pt_graph p1) leaf BACK_TO_ROOT_LEAF_KEY = None"
      by (rule back_leaf_missing [OF I(1) c1 D(2)])
    have T2: "tree_inv (pt_graph p2)" using tree_inv_create [OF T1 c2 leaf(1,2) miss] by auto
    have F1: "flow 1 leaf (pt_graph p1)" using flow_create [OF I(1) F D(2) c1] by (simp split: if_splits)
    have F2: "flow 1 (g_root (pt_graph p2)) (pt_graph p2)"
      using flow_leave_create [OF tree_invD(1) [OF T1] F1 leaf(1) _ c2] leaf(3) C1(2) C2(2) by simp
    note D2 = tree_okD [OF tree_invD(1) [OF T2]]
    have F3: "flow 0 (g_root (pt_graph p2)) (pt_graph (move_cur True (g_root (pt_graph p2)) p2))"
      using flow_root [OF tree_invD(1) [OF T2] F2] by simp
    have T3: "tree_inv (pt_graph (move_cur True (g_root (pt_graph p2)) p2))" by (rule tree_inv_move [OF T2 D2(1)])
    have "snd (add_access_w_lz k pt) = move_cur True (g_root (pt_graph p2)) p2"
      using None miss by (simp add: add_access_w_lz_def c1 c2)
    then show ?thesis
      using T3 F3 tree_invD(2) [OF T2] vs(2) by (simp add: lz_inv_def C1(2,6) C2(2,6))
  qed
qed

subsection \<open>ALZ keeps the flow\<close>

lemma alz_window_step:
  assumes T: "tree_inv (pt_graph pt)" and F: "flow (- 1) (g_root (pt_graph pt)) (pt_graph pt)"
    and cur: "g_cur (pt_graph pt) = g_root (pt_graph pt)" and vs: "g_root (pt_graph pt) \<in> set (g_vs (pt_graph pt))"
    and k: "k \<noteq> BACK_TO_ROOT_LEAF_KEY"
  shows "let p = alz_walk [k] pt; c = g_cur (pt_graph p) in
     tree_inv (pt_graph p) \<and> flow 0 c (pt_graph p) \<and> c < g_next (pt_graph p) \<and> c \<noteq> g_root (pt_graph p) \<and>
     c \<in> set (g_vs (pt_graph p)) \<and> g_root (pt_graph p) = g_root (pt_graph pt) \<and>
     set (g_vs (pt_graph pt)) \<subseteq> set (g_vs (pt_graph p)) \<and> g_next (pt_graph pt) \<le> g_next (pt_graph p) \<and>
     (\<forall>v<g_next (pt_graph pt). key (pt_graph p) v = key (pt_graph pt) v)"
proof -
  let ?g = "pt_graph pt"
  note I = tree_invD [OF T] and D = tree_okD [OF tree_invD(1) [OF T]]
  have rk: "key ?g (g_root ?g) \<noteq> BACK_TO_ROOT_LEAF_KEY" using I(2) by simp
  show ?thesis
  proof (cases "child_with_key ?g (g_root ?g) k")
    case (Some u)
    then have u: "u \<in> set (g_adj ?g (g_root ?g))" using child_with_key_Some by auto
    have "flow 0 u (pt_graph (move_cur True u pt))"
      using flow_descend [OF I(1) F D(1) rk Some k] by simp
    then show ?thesis using Some cur tree_inv_move [OF T D(5) [OF u]] D(5,6) [OF u] I(5) [OF u] by (simp add: Let_def)
  next
    case None
    obtain leaf p1 where c1: "create__connect_leaf (g_root ?g) k pt = (leaf, p1)" by (metis surj_pair)
    note C1 = create_leaf_simps [OF I(1) c1 D(1)]
    have T1: "tree_inv (pt_graph p1)" and leaf: "leaf < g_next (pt_graph p1)" "leaf \<in> set (g_vs (pt_graph p1))" "leaf \<noteq> g_root ?g"
      using tree_inv_create [OF T c1 D(1) vs None] by auto
    have F1: "flow 0 leaf (pt_graph p1)" using flow_create [OF I(1) F D(1) c1] by simp
    show ?thesis
      using None cur c1 tree_inv_move [OF T1 leaf(1)] F1 leaf flow_move_False [OF tree_invD(1) [OF T1]] C1(2,3,6,8)
      by (auto simp: Let_def)
  qed
qed

lemma alz_walk_keeps [simp]:
  "malgo_t (alz_walk ks pt) = malgo_t pt" "sliding_win (alz_walk ks pt) = sliding_win pt"
  by (induction ks pt rule: alz_walk.induct)
    (auto simp: Let_def create__connect_leaf_def add_vertex_def split: option.splits prod.splits)

lemma create_leaf_keeps [simp]:
  "create__connect_leaf v k pt = (leaf, pt') \<Longrightarrow> malgo_t pt' = malgo_t pt"
  "create__connect_leaf v k pt = (leaf, pt') \<Longrightarrow> sliding_win pt' = sliding_win pt"
  "create__connect_leaf v k pt = (leaf, pt') \<Longrightarrow> context_size pt' = context_size pt"
  "create__connect_leaf v k pt = (leaf, pt') \<Longrightarrow> pt_context pt' = pt_context pt"
  by (auto simp: create__connect_leaf_def Let_def split: prod.splits)

lemma create_leaf_keeps_snd [simp]:
  "malgo_t (snd (create__connect_leaf v k pt)) = malgo_t pt"
  "sliding_win (snd (create__connect_leaf v k pt)) = sliding_win pt"
  by (metis create_leaf_keeps(1,2) surjective_pairing)+

lemma access_lz_keeps [simp]:
  "malgo_t (snd (add_access_w_lz k pt)) = malgo_t pt" "sliding_win (snd (add_access_w_lz k pt)) = sliding_win pt"
  "fst (add_access_w_lz k pt) = 0"
  by (auto simp: add_access_w_lz_def Let_def split: option.splits prod.splits)

text \<open>The phrase update that follows an access that ended a phrase.\<close>

definition alz_update :: "'f parse_tree \<Rightarrow> 'f parse_tree" where
  "alz_update pt =
     (let pt = alz_walk (sliding_win pt) (move_cur True (g_root (pt_graph pt)) pt);
          cur_v = g_cur (pt_graph pt)
      in (case child_with_key (pt_graph pt) cur_v BACK_TO_ROOT_LEAF_KEY of
            Some back_to_root_leaf \<Rightarrow> move_cur True back_to_root_leaf pt
          | None \<Rightarrow> let (leaf, pt) = create__connect_leaf cur_v BACK_TO_ROOT_LEAF_KEY pt
                    in move_cur False leaf pt))"

lemma lz_inv_alz_update:
  assumes inv: "lz_inv (pt_graph pt)" and cur: "g_cur (pt_graph pt) = g_root (pt_graph pt)"
    and w: "sliding_win pt = [k]" "k \<noteq> BACK_TO_ROOT_LEAF_KEY"
  shows "lz_inv (pt_graph (move_cur False (g_cur (pt_graph pt)) (alz_update pt)))"
proof -
  let ?r = "g_root (pt_graph pt)"
  have T: "tree_inv (pt_graph pt)" and F: "flow 0 ?r (pt_graph pt)" and vs: "?r \<in> set (g_vs (pt_graph pt))"
    using inv cur by (auto simp: lz_inv_def)
  note I = tree_invD [OF T] and D = tree_okD [OF tree_invD(1) [OF T]]
  define p where "p = move_cur True ?r pt"
  define q where "q = alz_walk [k] p"
  define c where "c = g_cur (pt_graph q)"
  have Tp: "tree_inv (pt_graph p)" unfolding p_def by (rule tree_inv_move [OF T D(1)])
  have Fp: "flow (- 1) (g_root (pt_graph p)) (pt_graph p)" using flow_root [OF I(1) F] by (simp add: p_def)
  have q: "tree_inv (pt_graph q)" "flow 0 c (pt_graph q)" "c < g_next (pt_graph q)" "c \<noteq> g_root (pt_graph q)"
     "c \<in> set (g_vs (pt_graph q))" "g_root (pt_graph q) = ?r" "?r \<in> set (g_vs (pt_graph q))"
    using alz_window_step [OF Tp Fp _ _ w(2)] vs unfolding q_def [symmetric] Let_def c_def [symmetric]
    by (auto simp: p_def)
  have Dq: "?r < g_next (pt_graph q)" using tree_okD(1) [OF tree_invD(1) [OF q(1)]] q(6) by simp
  note Iq = tree_invD [OF q(1)]
  show ?thesis
  proof (cases "child_with_key (pt_graph q) c BACK_TO_ROOT_LEAF_KEY")
    case (Some b)
    then have b: "b < g_next (pt_graph q)" using child_with_key_Some [OF Some] tree_okD(5) [OF Iq(1)] by blast
    have u: "alz_update pt = move_cur True b q"
      unfolding alz_update_def w(1) Let_def p_def [symmetric] q_def [symmetric] c_def [symmetric] Some by simp
    have Tb: "tree_inv (pt_graph (move_cur True b q))" by (rule tree_inv_move [OF q(1) b])
    have Fb: "flow 0 ?r (pt_graph (move_cur True b q))" using flow_leave_descend [OF Iq(1) q(2-4) Some] q(6) by simp
    show ?thesis
      using tree_inv_move [OF Tb, of ?r False] flow_move_False [OF tree_invD(1) [OF Tb], of 0 ?r ?r] Fb Dq q(6,7) cur Iq(2)
      by (simp add: u lz_inv_def)
  next
    case None
    obtain b p2 where c2: "create__connect_leaf c BACK_TO_ROOT_LEAF_KEY q = (b, p2)" by (metis surj_pair)
    note C2 = create_leaf_simps [OF Iq(1) c2 q(3)]
    have Tb: "tree_inv (pt_graph p2)" and b: "b < g_next (pt_graph p2)" using tree_inv_create [OF q(1) c2 q(3,5) None] by auto
    have Fb: "flow 0 ?r (pt_graph p2)" using flow_leave_create [OF Iq(1) q(2-4) c2] q(6) by simp
    have Tm: "tree_inv (pt_graph (move_cur False b p2))" by (rule tree_inv_move [OF Tb b])
    have Fm: "flow 0 ?r (pt_graph (move_cur False b p2))" using Fb flow_move_False [OF tree_invD(1) [OF Tb]] by blast
    have u: "alz_update pt = move_cur False b p2"
      unfolding alz_update_def w(1) Let_def p_def [symmetric] q_def [symmetric] c_def [symmetric] None c2 by simp
    show ?thesis
      using tree_inv_move [OF Tm, of ?r False] flow_move_False [OF tree_invD(1) [OF Tm], of 0 ?r ?r] Fm Dq q(6,7) cur tree_invD(2) [OF Tb]
      by (simp add: u lz_inv_def C2(2,3,6))
  qed
qed

lemma lz_inv_access_alz:
  assumes inv: "lz_inv (pt_graph pt)" and win: "length (sliding_win pt) \<le> 1" and k: "k \<noteq> BACK_TO_ROOT_LEAF_KEY"
  shows "lz_inv (pt_graph (snd (add_access_w_alz k pt))) \<and> sliding_win (snd (add_access_w_alz k pt)) = [k]"
proof -
  define p where "p = snd (add_access_w_lz k pt)"
  define p' where "p' = (if length (sliding_win p) < 1 then p\<lparr>sliding_win := sliding_win p @ [k]\<rparr>
                  else p\<lparr>sliding_win := tl (sliding_win p) @ [k]\<rparr>)"
  have g: "pt_graph p' = pt_graph p" by (simp add: p'_def)
  have ip: "lz_inv (pt_graph p')" unfolding g p_def by (rule lz_inv_access_lz [OF inv k])
  have w: "sliding_win p' = [k]" using win by (cases "sliding_win pt") (auto simp: p'_def p_def)
  let ?c = "g_cur (pt_graph p')"
  have lz: "add_access_w_lz k pt = (0, p)" by (simp add: p_def prod_eq_iff)
  have "snd (add_access_w_alz k pt) = move_cur False (g_cur (pt_graph p))
     (if 1 < longest_phrase_length p' \<and> vp_status (g_prop (pt_graph p') (g_cur (pt_graph p))) = CHR ''R'' then alz_update p' else p')"
    by (simp only: add_access_w_alz_def lz Let_def prod.case alz_update_def move_cur_simps(13) snd_conv simp_thms if_False flip: p'_def)
  then have "snd (add_access_w_alz k pt) = move_cur False ?c
     (if 1 < longest_phrase_length p' \<and> vp_status (g_prop (pt_graph p') ?c) = CHR ''R'' then alz_update p' else p')"
    by (simp only: g)
  moreover have "lz_inv (pt_graph (move_cur False ?c p'))"
  proof -
    have T: "tree_inv (pt_graph p')" using ip by (simp add: lz_inv_def)
    show ?thesis
      using ip tree_inv_move [OF T, of ?c False] tree_okD(2) [OF tree_invD(1) [OF T]]
        flow_move_False [OF tree_invD(1) [OF T]] by (simp add: lz_inv_def)
  qed
  moreover have "lz_inv (pt_graph (move_cur False ?c (alz_update p')))" if "vp_status (g_prop (pt_graph p') ?c) = CHR ''R''"
  proof -
    have T: "tree_inv (pt_graph p')" using ip by (simp add: lz_inv_def)
    then have "?c = g_root (pt_graph p')"
      using that tree_invD(3) [OF T] ip unfolding lz_inv_def by blast
    then show ?thesis by (rule lz_inv_alz_update [OF ip _ w k])
  qed
  moreover have "sliding_win (alz_update p') = [k]"
    using w by (auto simp: alz_update_def Let_def split: option.splits prod.splits)
  ultimately show ?thesis using w by simp
qed

subsection \<open>Resetting\<close>

lemma rm_vertices:
  "g_adj (fold rm_vertex vs g) u = (if u \<in> set vs then [] else filter (\<lambda>w. w \<notin> set vs) (g_adj g u))"
  "g_vs (fold rm_vertex vs g) = filter (\<lambda>w. w \<notin> set vs) (g_vs g)"
  by (induction vs arbitrary: g) (auto simp: rm_vertex_def intro!: filter_cong)

lemma lz_inv_reset:
  assumes "tree_inv (pt_graph pt)"
  shows "lz_inv (pt_graph (pt_reset pt))"
proof -
  let ?g = "pt_graph pt" and ?h = "pt_graph (pt_reset pt)"
  have "g_adj (graph_clear ?g) u = []" for u
  proof (cases "u \<in> set (g_vs ?g)")
    case False
    then have "g_adj ?g u = []" using tree_invD(4) [OF assms] by (metis list.set_intros(1) neq_Nil_conv)
    then show ?thesis by (simp add: graph_clear_def rm_vertices)
  qed (simp add: graph_clear_def rm_vertices)
  then have adj: "g_adj (graph_clear ?g) = (\<lambda>_. [])" by blast
  have num: "g_num_vertices (graph_clear ?g) = 0" and vs: "g_vs (graph_clear ?g) = []"
    by (simp_all add: graph_clear_def rm_vertices)
  have h: "g_adj ?h = (\<lambda>_. [])" "g_root ?h = g_next (graph_clear ?g)" "g_cur ?h = g_next (graph_clear ?g)"
    "g_next ?h = Suc (g_next (graph_clear ?g))" "g_num_vertices ?h = 1" "g_vs ?h = [g_next (graph_clear ?g)]"
    "g_prop ?h = (g_prop (graph_clear ?g))(g_next (graph_clear ?g) := root_prop)"
    by (simp_all add: pt_reset_def add_vertex_def Let_def adj num vs)
  show ?thesis
    by (simp add: lz_inv_def tree_inv_def tree_ok_def flow_def child_visits_def h) (simp add: root_prop_def)
qed

subsection \<open>Runs\<close>

datatype 'f pt_op = PAccess timeval int | PPredict "nat \<Rightarrow> 'f" | PReset

definition pt_step :: "'f fops \<Rightarrow> 'f pt_op \<Rightarrow> 'f parse_tree \<Rightarrow> 'f parse_tree option" where
  "pt_step fo op pt =
     (case op of
        PAccess now k \<Rightarrow> map_option snd (pt_add_access fo now k pt)
      | PPredict rnd \<Rightarrow> Some (snd (snd (pt_get_key_prob_map fo rnd pt [])))
      | PReset \<Rightarrow> Some (pt_reset pt))"

text \<open>Producer ids are not negative, so they are not the key of the leaf that leads back.\<close>

definition pt_op_ok :: "'f pt_op \<Rightarrow> bool" where
  "pt_op_ok op = (case op of PAccess _ k \<Rightarrow> 0 \<le> k | _ \<Rightarrow> True)"

definition lz_ok :: "'f parse_tree \<Rightarrow> bool" where
  "lz_ok pt \<longleftrightarrow> malgo_t pt \<in> {MALGO_W_LZ, MALGO_W_ALZ} \<and> lz_inv (pt_graph pt) \<and> length (sliding_win pt) \<le> 1"

lemma access_alz_malgo [simp]: "malgo_t (snd (add_access_w_alz k pt)) = malgo_t pt"
proof -
  obtain p where lz: "add_access_w_lz k pt = (0, p)" "malgo_t p = malgo_t pt"
    by (metis access_lz_keeps(1,3) prod.collapse)
  show ?thesis by (auto simp: add_access_w_alz_def lz Let_def split: option.splits prod.splits)
qed

lemma lz_ok_step:
  assumes "pt_op_ok op" "lz_ok pt"
  shows "\<exists>pt'. pt_step fo op pt = Some pt' \<and> lz_ok pt'"
proof (cases op)
  case (PAccess now k)
  have k: "k \<noteq> BACK_TO_ROOT_LEAF_KEY" using assms(1) by (auto simp: PAccess pt_op_ok_def BACK_TO_ROOT_LEAF_KEY_def)
  have i: "lz_inv (pt_graph pt)" "length (sliding_win pt) \<le> 1" using assms(2) by (auto simp: lz_ok_def)
  show ?thesis
  proof (cases "malgo_t pt = MALGO_W_LZ")
    case True
    then show ?thesis using lz_inv_access_lz [OF i(1) k] i(2)
      by (auto simp: pt_step_def PAccess pt_add_access_def lz_ok_def)
  next
    case False
    then have "malgo_t pt = MALGO_W_ALZ" using assms(2) by (auto simp: lz_ok_def)
    then show ?thesis using lz_inv_access_alz [OF i k] False
      by (auto simp: pt_step_def PAccess pt_add_access_def lz_ok_def)
  qed
next
  case (PPredict rnd)
  have "malgo_t pt = MALGO_W_LZ \<or> malgo_t pt = MALGO_W_ALZ" using assms(2) by (simp add: lz_ok_def)
  then have "snd (snd (pt_get_key_prob_map fo rnd pt [])) = pt"
    unfolding pt_get_key_prob_map_def by (elim disjE) (simp_all add: malgo_defs)
  then show ?thesis using assms(2) by (simp add: pt_step_def PPredict)
next
  case PReset
  then show ?thesis using lz_inv_reset [of pt] assms(2)
    by (auto simp: pt_step_def lz_ok_def lz_inv_def [of "pt_graph pt"]) (simp_all add: pt_reset_def)
qed

lemma lz_ok_run:
  assumes "t = MALGO_W_LZ \<or> t = MALGO_W_ALZ" "\<forall>op\<in>set ops. pt_op_ok op"
  shows "\<exists>pt. ops_run (pt_step fo) ops (parse_tree_new2 t n) = Some pt \<and> lz_ok pt"
proof (rule ops_run_defined [where A = "Collect pt_op_ok"])
  show "lz_ok (parse_tree_new2 t n)"
    using assms(1) lz_inv_new by (auto simp: lz_ok_def parse_tree_new2_def)
qed (use assms(2) lz_ok_step in auto)

subsection \<open>The tree is the LZ78 dictionary\<close>

text \<open>The LZ78 parsing of a sequence: the phrases found so far, and the prefix of the next one.\<close>

fun lz78_step :: "int \<Rightarrow> int list list \<times> int list \<Rightarrow> int list list \<times> int list" where
  "lz78_step k (D, w) = (if w @ [k] \<in> set D then (D, w @ [k]) else (D @ [w @ [k]], []))"

fun walk :: "graph \<Rightarrow> vid \<Rightarrow> int list \<Rightarrow> vid option" where
  "walk g v [] = Some v"
| "walk g v (k # ks) = (case child_with_key g v k of Some u \<Rightarrow> walk g u ks | None \<Rightarrow> None)"

lemma walk_append: "walk g v (p @ q) = (case walk g v p of Some u \<Rightarrow> walk g u q | None \<Rightarrow> None)"
  by (induction p arbitrary: v) (auto split: option.splits)

lemma walk_snoc: "walk g v (p @ [k]) = (case walk g v p of Some u \<Rightarrow> child_with_key g u k | None \<Rightarrow> None)"
  by (auto simp: walk_append split: option.splits)

lemma walk_move [simp]: "walk (pt_graph (move_cur inc v pt)) u p = walk (pt_graph pt) u p"
  by (induction p arbitrary: u) (auto split: option.splits)

lemma walk_less:
  assumes "tree_ok g" "v < g_next g" "walk g v p = Some u"
  shows "u < g_next g"
  using assms(2,3)
  by (induction p arbitrary: v) (auto split: option.splits dest!: child_with_key_Some intro: tree_okD(5) [OF assms(1)])

text \<open>A vertex is reached from the root by one path.\<close>

lemma walk_unique:
  assumes ok: "tree_ok g"
  shows "walk g (g_root g) p = Some u \<Longrightarrow> walk g (g_root g) q = Some u \<Longrightarrow> p = q"
proof (induction p arbitrary: q u rule: rev_induct)
  case Nil
  show ?case
  proof (cases q rule: rev_cases)
    case (snoc q' k)
    then have "\<exists>v. u \<in> set (g_adj g v)" using Nil by (auto simp: walk_snoc split: option.splits dest!: child_with_key_Some)
    with Nil(1) show ?thesis using tree_okD(6) [OF ok] by auto
  qed simp
next
  case (snoc k p)
  then obtain v where v: "walk g (g_root g) p = Some v" "child_with_key g v k = Some u"
    by (auto simp: walk_snoc split: option.splits)
  note cu = child_with_key_Some [OF v(2)]
  have "u \<noteq> g_root g" using tree_okD(6) [OF ok] cu by blast
  then have "q \<noteq> []" using snoc(3) by auto
  then obtain q' j where q: "q = q' @ [j]" by (cases q rule: rev_cases) auto
  then obtain w where w: "walk g (g_root g) q' = Some w" "child_with_key g w j = Some u"
    using snoc(3) by (auto simp: walk_snoc split: option.splits)
  have "w = v" using tree_okD(7) [OF ok] child_with_key_Some [OF w(2)] cu by blast
  then show ?case using snoc(1) [OF v(1)] w cu child_with_key_Some [OF w(2)] q by auto
qed

text \<open>A new leaf adds one path.\<close>

lemma walk_create:
  assumes ok: "tree_ok (pt_graph pt)" and c: "create__connect_leaf v k pt = (leaf, pt')"
    and v: "v < g_next (pt_graph pt)" "child_with_key (pt_graph pt) v k = None"
    and w: "walk (pt_graph pt) (g_root (pt_graph pt)) w = Some v"
  shows "walk (pt_graph pt') (g_root (pt_graph pt')) p =
    (if p = w @ [k] then Some leaf else walk (pt_graph pt) (g_root (pt_graph pt)) p)"
proof -
  note C = create_leaf_simps [OF ok c v(1)] and ch = child_with_key_create [OF ok c v(1)]
  let ?r = "g_root (pt_graph pt)"
  have none: "child_with_key (pt_graph pt) leaf j = None" for j
    using next_no_children [OF ok] by (simp add: C(1) child_with_key_def)
  have lv: "leaf \<noteq> v" using v C(1) by simp
  have "walk (pt_graph pt') ?r p = (if p = w @ [k] then Some leaf else walk (pt_graph pt) ?r p)"
  proof (induction p rule: rev_induct)
    case (snoc j p)
    show ?case
    proof (cases "p = w @ [k]")
      case True
      have "walk (pt_graph pt) ?r (w @ [k]) = None" using w v(2) by (simp add: walk_snoc)
      then have "walk (pt_graph pt) ?r (p @ [j]) = None" using True walk_append [of _ _ "w @ [k]" "[j]"] by simp
      moreover have "walk (pt_graph pt') ?r (p @ [j]) = None"
        using snoc True ch [of leaf j] lv none by (subst walk_snoc) simp
      ultimately show ?thesis using True by simp
    next
      case False
      show ?thesis
      proof (cases "walk (pt_graph pt) ?r p")
        case (Some x)
        have xv: "x = v \<longleftrightarrow> p = w"
        proof
          assume "x = v"
          then show "p = w" using walk_unique [OF ok Some, of w] w by simp
        qed (use Some w in simp)
        have "walk (pt_graph pt') ?r (p @ [j]) = child_with_key (pt_graph pt') x j"
          using snoc False Some by (simp add: walk_snoc)
        moreover have "walk (pt_graph pt) ?r (p @ [j]) = child_with_key (pt_graph pt) x j"
          using Some by (simp add: walk_snoc)
        ultimately show ?thesis using ch [of x j] v(2) xv by auto
      next
        case None
        then have "p \<noteq> w" using w by auto
        then show ?thesis using snoc False None by (simp add: walk_snoc)
      qed
    qed
  qed simp
  then show ?thesis by (simp add: C(2))
qed

definition lz78_rel :: "graph \<Rightarrow> int list list \<times> int list \<Rightarrow> bool" where
  "lz78_rel g = (\<lambda>(D, w). walk g (g_root g) w = Some (g_cur g) \<and> BACK_TO_ROOT_LEAF_KEY \<notin> set w \<and>
     (\<forall>p. BACK_TO_ROOT_LEAF_KEY \<notin> set p \<longrightarrow> (walk g (g_root g) p \<noteq> None \<longleftrightarrow> p = [] \<or> p \<in> set D)) \<and>
     nv g (g_root g) = int (length D))"

lemma lz78_rel_step:
  assumes inv: "lz_inv (pt_graph pt)" and rel: "lz78_rel (pt_graph pt) (D, w)" and k: "k \<noteq> BACK_TO_ROOT_LEAF_KEY"
  shows "lz78_rel (pt_graph (snd (add_access_w_lz k pt))) (lz78_step k (D, w))"
proof -
  let ?g = "pt_graph pt" and ?c = "g_cur (pt_graph pt)"
  have T: "tree_inv ?g" and vs: "?c \<in> set (g_vs ?g)" using inv by (auto simp: lz_inv_def)
  note I = tree_invD [OF T] and D = tree_okD [OF tree_invD(1) [OF T]]
  have w: "walk ?g (g_root ?g) w = Some ?c" "BACK_TO_ROOT_LEAF_KEY \<notin> set w"
    and dict: "\<And>p. BACK_TO_ROOT_LEAF_KEY \<notin> set p \<Longrightarrow> walk ?g (g_root ?g) p \<noteq> None \<longleftrightarrow> p = [] \<or> p \<in> set D"
    and num: "nv ?g (g_root ?g) = int (length D)" using rel by (auto simp: lz78_rel_def)
  have wk: "BACK_TO_ROOT_LEAF_KEY \<notin> set (w @ [k])" using w(2) k by auto
  have inD: "w @ [k] \<in> set D \<longleftrightarrow> child_with_key ?g ?c k \<noteq> None"
    using dict [OF wk] w(1) by (simp add: walk_snoc)
  show ?thesis
  proof (cases "child_with_key ?g ?c k")
    case (Some u)
    then have "u \<noteq> g_root ?g" using D(6) child_with_key_Some by blast
    with Some inD w wk dict num show ?thesis
      by (simp add: add_access_w_lz_def lz78_rel_def walk_snoc)
  next
    case None
    obtain leaf p1 where c1: "create__connect_leaf ?c k pt = (leaf, p1)" by (metis surj_pair)
    obtain b p2 where c2: "create__connect_leaf leaf BACK_TO_ROOT_LEAF_KEY p1 = (b, p2)" by (metis surj_pair)
    note C1 = create_leaf_simps [OF I(1) c1 D(2)]
    have T1: "tree_inv (pt_graph p1)" and leaf: "leaf < g_next (pt_graph p1)"
      using tree_inv_create [OF T c1 D(2) vs None] by auto
    note C2 = create_leaf_simps [OF tree_invD(1) [OF T1] c2 leaf]
    have miss: "child_with_key (pt_graph p1) leaf BACK_TO_ROOT_LEAF_KEY = None"
      by (rule back_leaf_missing [OF I(1) c1 D(2)])
    note W1 = walk_create [OF I(1) c1 D(2) None w(1)]
    have "walk (pt_graph p1) (g_root (pt_graph p1)) (w @ [k]) = Some leaf" by (simp add: W1)
    note W2 = walk_create [OF tree_invD(1) [OF T1] c2 leaf miss this]
    have a: "snd (add_access_w_lz k pt) = move_cur True (g_root (pt_graph p2)) p2"
      using None miss by (simp add: add_access_w_lz_def c1 c2)
    have "walk (pt_graph p2) (g_root (pt_graph p2)) p \<noteq> None \<longleftrightarrow> p = [] \<or> p \<in> set (D @ [w @ [k]])"
      if "BACK_TO_ROOT_LEAF_KEY \<notin> set p" for p
    proof -
      have "p \<noteq> (w @ [k]) @ [BACK_TO_ROOT_LEAF_KEY]" using that by auto
      then show ?thesis using dict [OF that] by (auto simp: W1 W2)
    qed
    moreover have "nv (pt_graph p2) (g_root ?g) = nv ?g (g_root ?g)" using D(1) C1(3) by (simp add: C2(9) C1(9))
    ultimately show ?thesis
      using None inD num unfolding a by (simp add: lz78_rel_def C1(2) C2(2))
  qed
qed

subsection \<open>Properties\<close>

text \<open>C20: in every state an LZ or ALZ tree reaches by accesses and resets, the total the prediction at the
  cursor divides by (\<open>num_visit\<close>, less one below the root) is the sum of the visits of the children it
  divides, and the total of the fall-back to the root (\<open>num_visit + 1\<close>), used while the cursor is
  elsewhere, is the sum over the children of the root: both estimated distributions are normalised.\<close>

theorem lz_distribution_normalised:
  assumes "t = MALGO_W_LZ \<or> t = MALGO_W_ALZ" and "\<forall>op\<in>set ops. pt_op_ok op"
  shows "\<exists>pt. ops_run (pt_step fo) ops (parse_tree_new2 t n) = Some pt \<and>
     child_visits (pt_graph pt) (g_cur (pt_graph pt)) = lz_total pt \<and>
     (g_cur (pt_graph pt) \<noteq> g_root (pt_graph pt) \<longrightarrow>
        child_visits (pt_graph pt) (g_root (pt_graph pt)) = lz_root_total pt)"
proof -
  obtain pt where pt: "ops_run (pt_step fo) ops (parse_tree_new2 t n) = Some pt" "lz_ok pt"
    using lz_ok_run [OF assms] by blast
  let ?g = "pt_graph pt"
  have i: "lz_inv ?g" and m: "malgo_t pt \<noteq> MALGO_W_PPM" using pt(2) by (auto simp: lz_ok_def malgo_defs)
  have st: "vp_status (g_prop ?g (g_cur ?g)) = CHR ''R'' \<longleftrightarrow> g_cur ?g = g_root ?g"
    using i by (auto simp: lz_inv_def tree_inv_def)
  have f: "flow (if g_cur ?g = g_root ?g then 0 else 1) (g_cur ?g) ?g" "key ?g (g_cur ?g) \<noteq> BACK_TO_ROOT_LEAF_KEY"
    "g_cur ?g \<in> set (g_vs ?g)"
    using i by (auto simp: lz_inv_def)
  show ?thesis
  proof (cases "g_cur ?g = g_root ?g")
    case True
    then show ?thesis using pt(1) f m st by (auto simp: flow_def lz_total_def)
  next
    case False
    then have "child_visits ?g (g_cur ?g) + 1 = nv ?g (g_cur ?g)" "child_visits ?g (g_root ?g) = nv ?g (g_root ?g) + 1"
      using f by (auto simp: flow_def)
    then show ?thesis using pt(1) m st False by (auto simp: lz_total_def lz_root_total_def Let_def)
  qed
qed

theorem lz_distribution_normalised_witness:
  "\<exists>pt. ops_run (pt_step int_fops) (map (PAccess (0, 0)) [1, 2, 1, 1, 2, 1, 2]) (parse_tree_new2 MALGO_W_LZ 0) = Some pt \<and>
     child_visits (pt_graph pt) (g_cur (pt_graph pt)) = lz_total pt"
  using lz_distribution_normalised [of MALGO_W_LZ "map (PAccess (0, 0)) [1, 2, 1, 1, 2, 1, 2]" int_fops 0]
  by (auto simp: pt_op_ok_def)

text \<open>C17: the LZ tree refines the LZ78 parser: after any accesses the paths of the tree are the phrases of
  the dictionary, the cursor stands at the end of the unfinished phrase and the visits of the root count
  the finished ones.\<close>

theorem lz_tree_is_lz78:
  assumes "\<forall>k\<in>set ks. 0 \<le> k"
  shows "\<exists>pt. ops_run (pt_step fo) (map (PAccess now) ks) (parse_tree_new2 MALGO_W_LZ n) = Some pt \<and>
     lz78_rel (pt_graph pt) (fold lz78_step ks ([], []))"
proof -
  have "lz78_rel (pt_graph (parse_tree_new2 MALGO_W_LZ n)) ([], [])"
  proof -
    have "walk (pt_graph (parse_tree_new2 MALGO_W_LZ n)) v p = (if p = [] then Some v else None)" for v p
      by (cases p) (auto simp: parse_tree_new2_def add_vertex_def graph_new_def Let_def child_with_key_def)
    then show ?thesis
      by (simp add: lz78_rel_def) (simp add: parse_tree_new2_def add_vertex_def graph_new_def Let_def root_prop_def)
  qed
  moreover have "\<exists>pt'. ops_run (pt_step fo) (map (PAccess now) ks) pt = Some pt' \<and> lz78_rel (pt_graph pt') (fold lz78_step ks d)"
    if "lz_inv (pt_graph pt)" "malgo_t pt = MALGO_W_LZ" "lz78_rel (pt_graph pt) d" for pt d
    using assms that
  proof (induction ks arbitrary: pt d)
    case (Cons k ks)
    have k: "k \<noteq> BACK_TO_ROOT_LEAF_KEY" using Cons(2) by (auto simp: BACK_TO_ROOT_LEAF_KEY_def)
    obtain D w where d: "d = (D, w)" by (cases d)
    show ?case
      using Cons(1) [OF _ lz_inv_access_lz [OF Cons(3) k] _ lz78_rel_step [OF Cons(3) Cons(5) [unfolded d] k]] Cons(2,4)
      by (simp add: pt_step_def pt_add_access_def d del: lz78_step.simps)
  qed simp
  ultimately show ?thesis
    using lz_inv_new [of MALGO_W_LZ n] by (simp add: parse_tree_new2_def)
qed

theorem lz_tree_is_lz78_witness:
  "\<exists>pt. ops_run (pt_step int_fops) (map (PAccess (0, 0)) [1, 2, 1, 1, 2, 1, 2]) (parse_tree_new2 MALGO_W_LZ 0) = Some pt \<and>
     lz78_rel (pt_graph pt) ([[1], [2], [1, 1], [2, 1]], [2])"
  using lz_tree_is_lz78 [of "[1, 2, 1, 1, 2, 1, 2]" int_fops "(0, 0)" 0] by simp

end
