(* ===== verification/Parse_Tree_PPM.thy ===== *)
theory Parse_Tree_PPM
  imports Parse_Tree_LZ
begin

text \<open>
  Correctness of the PPM predictor of \<open>markov.h\<close>: with a positive context size no access is undefined,
  the context is the window of the last accesses, and the visits of every vertex a context can lead to
  are those of its children, so the predictions are normalised.
\<close>

abbreviation lev :: "graph \<Rightarrow> vid \<Rightarrow> int" where
  "lev g v \<equiv> vp_level (g_prop g v)"

definition levels_ok :: "graph \<Rightarrow> bool" where
  "levels_ok g \<longleftrightarrow> lev g (g_root g) = 0 \<and> (\<forall>v u. u \<in> set (g_adj g v) \<longrightarrow> lev g u = lev g v + 1)"

text \<open>\<open>pflow n r c\<close>: as \<open>flow\<close>, for the vertices of level at most \<open>n\<close>.\<close>

definition pflow :: "int \<Rightarrow> int \<Rightarrow> vid \<Rightarrow> graph \<Rightarrow> bool" where
  "pflow n r c g \<longleftrightarrow> child_visits g (g_root g) = nv g (g_root g) + r \<and>
     (\<forall>v\<in>set (g_vs g). v \<noteq> g_root g \<longrightarrow> lev g v \<le> n \<longrightarrow> child_visits g v + (if v = c then 1 else 0) = nv g v)"

lemma lev_move [simp]: "lev (pt_graph (move_cur inc v pt)) u = lev (pt_graph pt) u"
  by (simp add: move_cur_def set_cur_def set_pre_cur_def set_prop_def Let_def)

lemma levels_ok_move [simp]: "levels_ok (pt_graph (move_cur inc v pt)) = levels_ok (pt_graph pt)"
  by (simp add: levels_ok_def)

lemma pflow_move_False:
  assumes "tree_ok (pt_graph pt)"
  shows "pflow n r c (pt_graph (move_cur False v pt)) \<longleftrightarrow> pflow n r c (pt_graph pt)"
  unfolding pflow_def child_visits_move [OF assms] by simp

subsection \<open>Steps down a context\<close>

lemma pflow_descend:
  assumes T: "tree_inv (pt_graph pt)" and F: "pflow n r c (pt_graph pt)"
    and u: "child_with_key (pt_graph pt) c k = Some u"
  shows "pflow n (r + (if c = g_root (pt_graph pt) then 1 else 0)) u (pt_graph (move_cur True u pt))"
proof -
  note D = tree_okD [OF tree_invD(1) [OF T]]
  have ua: "u \<in> set (g_adj (pt_graph pt) c)" using child_with_key_Some [OF u] by auto
  have par: "u \<in> set (g_adj (pt_graph pt) w) \<longleftrightarrow> w = c" for w using D(7) [OF _ ua] ua by blast
  have "u \<noteq> g_root (pt_graph pt)" using D(6) ua by auto
  then show ?thesis
    using F unfolding pflow_def child_visits_move [OF tree_invD(1) [OF T]] par by auto
qed

text \<open>One new vertex of the rest of the context, entered at once.\<close>

definition ctx_leaf :: "int \<Rightarrow> bool \<Rightarrow> 'f parse_tree \<Rightarrow> 'f parse_tree" where
  "ctx_leaf k is_last pt =
     (let g = pt_graph pt; cur_v = g_cur g; cur_prop = g_prop g cur_v;
          leaf_prop = \<lparr>vp_name = vp_name cur_prop @ dec_int k, vp_key = k, vp_num_visit = 0,
                       vp_status = (if \<not> is_last then CHR ''N'' else CHR ''L''), vp_level = vp_level cur_prop + 1\<rparr>;
          (leaf, g) = add_child cur_v leaf_prop g
      in move_cur True leaf (pt\<lparr>pt_graph := g\<rparr>))"

lemma create_context_Cons: "create_context (k # ks) pt = create_context ks (ctx_leaf k (ks = []) pt)"
  by (simp add: ctx_leaf_def add_child_def add_vertex_def Let_def)

lemma ctx_leaf_inv:
  assumes T: "tree_inv (pt_graph pt)" and L: "levels_ok (pt_graph pt)"
    and F: "pflow n r (g_cur (pt_graph pt)) (pt_graph pt)" and vs: "g_cur (pt_graph pt) \<in> set (g_vs (pt_graph pt))"
    and None: "child_with_key (pt_graph pt) (g_cur (pt_graph pt)) k = None"
  shows "let q = ctx_leaf k b pt in tree_inv (pt_graph q) \<and> levels_ok (pt_graph q) \<and>
     pflow n (r + (if g_cur (pt_graph pt) = g_root (pt_graph pt) then 1 else 0)) (g_cur (pt_graph q)) (pt_graph q) \<and>
     g_cur (pt_graph q) \<in> set (g_vs (pt_graph q)) \<and> g_cur (pt_graph q) \<noteq> g_root (pt_graph q) \<and>
     lev (pt_graph q) (g_cur (pt_graph q)) = lev (pt_graph pt) (g_cur (pt_graph pt)) + 1 \<and>
     g_root (pt_graph q) = g_root (pt_graph pt) \<and> g_root (pt_graph pt) \<in> set (g_vs (pt_graph q)) = (g_root (pt_graph pt) \<in> set (g_vs (pt_graph pt))) \<and>
     g_adj (pt_graph q) (g_cur (pt_graph q)) = [] \<and>
     malgo_t q = malgo_t pt \<and> context_size q = context_size pt \<and> pt_context q = pt_context pt"
proof -
  let ?g = "pt_graph pt" and ?c = "g_cur (pt_graph pt)" and ?n = "g_next (pt_graph pt)"
  define p where "p = \<lparr>vp_name = vp_name (g_prop ?g ?c) @ dec_int k, vp_key = k, vp_num_visit = 0,
                       vp_status = (if \<not> b then CHR ''N'' else CHR ''L''), vp_level = lev ?g ?c + 1\<rparr>"
  note I = tree_invD [OF T] and D = tree_okD [OF tree_invD(1) [OF T]]
  note A = add_child_simps [OF I(1), of ?c p]
  define h where "h = snd (add_child ?c p ?g)"
  have key: "vp_key p \<notin> key ?g ` set (g_adj ?g ?c)" using None by (simp add: p_def child_with_key_None)
  have Th: "tree_ok h" unfolding h_def by (rule tree_ok_add_child [OF I(1) D(2) key])
  have h: "g_root h = g_root ?g" "g_next h = Suc ?n" "g_vs h = g_vs ?g @ [?n]" "g_prop h = (g_prop ?g)(?n := p)"
      "g_adj h = (g_adj ?g)(?c := g_adj ?g ?c @ [?n])"
    unfolding h_def A by simp_all
  have cv: "child_visits h w = (if w = ?n then 0 else child_visits ?g w)" for w
    unfolding h_def child_visits_add_child [OF I(1) D(2)] by (simp add: p_def)
  have q: "ctx_leaf k b pt = move_cur True ?n (pt\<lparr>pt_graph := h\<rparr>)"
    by (simp add: ctx_leaf_def Let_def h_def A flip: p_def)
  have Ih: "tree_inv h"
    using I(2-5) D(1,2) Th vs next_not_child [OF I(1)]
    by (auto simp: tree_inv_def h p_def split: if_splits)
  have Lh: "levels_ok h"
    using L D(1,2) D(4,5) next_not_child [OF I(1)] by (auto simp: levels_ok_def h p_def split: if_splits)
  let ?q = "move_cur True ?n (pt\<lparr>pt_graph := h\<rparr>)"
  have Tq: "tree_inv (pt_graph ?q)" by (rule tree_inv_move) (simp_all add: Ih h)
  have par: "?n \<in> set (g_adj h w) \<longleftrightarrow> w = ?c" for w using next_not_child [OF I(1)] by (auto simp: h)
  have cvq: "child_visits (pt_graph ?q) w = child_visits h w + (if w = ?c then 1 else 0)" for w
    using child_visits_move [of "pt\<lparr>pt_graph := h\<rparr>" True ?n w] Th par by simp
  have "pflow n (r + (if ?c = g_root ?g then 1 else 0)) ?n (pt_graph ?q)"
    using F D(1,2) unfolding pflow_def cvq cv by (auto simp: h p_def)
  moreover have "g_adj h ?n = []" using next_no_children [OF I(1)] D(2) by (simp add: h)
  ultimately show ?thesis
    using Tq Lh D(1,2) unfolding q Let_def by (auto simp: h p_def)
qed

text \<open>The state on the way down: \<open>pst n\<close>.\<close>

definition pst :: "int \<Rightarrow> 'f parse_tree \<Rightarrow> bool" where
  "pst n pt \<longleftrightarrow> (let g = pt_graph pt in tree_inv g \<and> levels_ok g \<and> g_cur g \<in> set (g_vs g) \<and> g_root g \<in> set (g_vs g) \<and>
     pflow n (if g_cur g = g_root g then 0 else 1) (g_cur g) g)"

abbreviation same_par :: "'f parse_tree \<Rightarrow> 'f parse_tree \<Rightarrow> bool" where
  "same_par q pt \<equiv> malgo_t q = malgo_t pt \<and> context_size q = context_size pt \<and> pt_context q = pt_context pt \<and>
     g_root (pt_graph q) = g_root (pt_graph pt)"

lemma pst_descend:
  assumes "pst n pt" "child_with_key (pt_graph pt) (g_cur (pt_graph pt)) k = Some u"
  shows "pst n (move_cur True u pt) \<and> lev (pt_graph pt) u = lev (pt_graph pt) (g_cur (pt_graph pt)) + 1 \<and>
    u \<noteq> g_root (pt_graph pt)"
proof -
  have T: "tree_inv (pt_graph pt)" and L: "levels_ok (pt_graph pt)"
    and F: "pflow n (if g_cur (pt_graph pt) = g_root (pt_graph pt) then 0 else 1) (g_cur (pt_graph pt)) (pt_graph pt)"
    and vs: "g_root (pt_graph pt) \<in> set (g_vs (pt_graph pt))"
    using assms(1) by (auto simp: pst_def Let_def)
  have u: "u \<in> set (g_adj (pt_graph pt) (g_cur (pt_graph pt)))" using child_with_key_Some [OF assms(2)] by blast
  note I = tree_invD [OF T] and D = tree_okD [OF tree_invD(1) [OF T]]
  have "pflow n 1 u (pt_graph (move_cur True u pt))"
    using pflow_descend [OF T F assms(2)] by (simp split: if_splits)
  then show ?thesis
    using tree_inv_move [OF T D(5) [OF u]] L I(5) [OF u] D(6) [OF u] u vs by (auto simp: pst_def Let_def levels_ok_def)
qed

lemma pst_ctx_leaf:
  assumes "pst n pt" "child_with_key (pt_graph pt) (g_cur (pt_graph pt)) k = None"
  shows "pst n (ctx_leaf k b pt) \<and> g_cur (pt_graph (ctx_leaf k b pt)) \<noteq> g_root (pt_graph pt) \<and>
    lev (pt_graph (ctx_leaf k b pt)) (g_cur (pt_graph (ctx_leaf k b pt))) = lev (pt_graph pt) (g_cur (pt_graph pt)) + 1 \<and>
    g_adj (pt_graph (ctx_leaf k b pt)) (g_cur (pt_graph (ctx_leaf k b pt))) = [] \<and> same_par (ctx_leaf k b pt) pt"
proof -
  have T: "tree_inv (pt_graph pt)" and L: "levels_ok (pt_graph pt)"
    and F: "pflow n (if g_cur (pt_graph pt) = g_root (pt_graph pt) then 0 else 1) (g_cur (pt_graph pt)) (pt_graph pt)"
    and vs: "g_cur (pt_graph pt) \<in> set (g_vs (pt_graph pt))" "g_root (pt_graph pt) \<in> set (g_vs (pt_graph pt))"
    using assms(1) by (auto simp: pst_def Let_def)
  show ?thesis
    using ctx_leaf_inv [OF T L F vs(1) assms(2), of b] vs(2) unfolding pst_def Let_def by (auto split: if_splits)
qed

lemma pst_walk:
  assumes "pst n pt" "walk_context True ks i pt = (i', pt')"
  shows "pst n pt' \<and> same_par pt' pt \<and> i \<le> i' \<and> i' \<le> i + int (length ks) \<and>
    lev (pt_graph pt') (g_cur (pt_graph pt')) = lev (pt_graph pt) (g_cur (pt_graph pt)) + (i' - i) \<and>
    (i' < i + int (length ks) \<longrightarrow> child_with_key (pt_graph pt') (g_cur (pt_graph pt')) (ks ! nat (i' - i)) = None)"
  using assms
proof (induction ks arbitrary: i pt)
  case (Cons k ks)
  show ?case
  proof (cases "child_with_key (pt_graph pt) (g_cur (pt_graph pt)) k")
    case None
    then show ?thesis using Cons by auto
  next
    case (Some u)
    then have w: "walk_context True ks (i + 1) (move_cur True u pt) = (i', pt')" using Cons by simp
    note st = pst_descend [OF Cons(2) Some]
    have "(k # ks) ! nat (i' - i) = ks ! nat (i' - (i + 1))" if "i + 1 \<le> i'"
    proof -
      have "nat (i' - i) = Suc (nat (i' - (i + 1)))" using that by simp
      then show ?thesis by simp
    qed
    then show ?thesis using Cons(1) [OF conjunct1 [OF st] w] st by auto
  qed
qed auto

lemma pst_create_context:
  assumes "pst n pt" "ks \<noteq> [] \<Longrightarrow> child_with_key (pt_graph pt) (g_cur (pt_graph pt)) (hd ks) = None"
  shows "pst n (create_context ks pt) \<and> same_par (create_context ks pt) pt \<and>
    lev (pt_graph (create_context ks pt)) (g_cur (pt_graph (create_context ks pt))) =
      lev (pt_graph pt) (g_cur (pt_graph pt)) + int (length ks)"
  using assms
proof (induction ks arbitrary: pt)
  case (Cons k ks)
  have "child_with_key (pt_graph pt) (g_cur (pt_graph pt)) k = None" using Cons(3) by simp
  note st = pst_ctx_leaf [OF Cons(2) this, of "ks = []"]
  define q where "q = ctx_leaf k (ks = []) pt"
  note st' = st [folded q_def]
  have "child_with_key (pt_graph q) (g_cur (pt_graph q)) j = None" for j
    using st' by (simp add: child_with_key_def)
  then show ?case
    unfolding create_context_Cons q_def [symmetric] using Cons(1) [OF conjunct1 [OF st']] st' by simp
qed simp

subsection \<open>An access\<close>

lemma lev_create:
  assumes "tree_ok (pt_graph pt)" "create__connect_leaf v k pt = (leaf, pt')" "v < g_next (pt_graph pt)"
  shows "lev (pt_graph pt') u = (if u = g_next (pt_graph pt) then lev (pt_graph pt) v + 1 else lev (pt_graph pt) u)"
proof -
  have "pt_graph pt' = pt_graph (snd (create__connect_leaf v k pt))" using assms(2) by simp
  then show ?thesis
    using assms(3) tree_okD(3) [OF assms(1)]
    by (cases "vp_status (g_prop (pt_graph pt) v) = CHR ''L''")
      (simp_all add: create__connect_leaf_def add_vertex_def add_directed_edge_def set_prop_def Let_def split_beta
        split del: if_split, simp_all)
qed

definition ppm_inv :: "int \<Rightarrow> graph \<Rightarrow> bool" where
  "ppm_inv n g \<longleftrightarrow> tree_inv g \<and> levels_ok g \<and> g_root g \<in> set (g_vs g) \<and> g_cur g = g_root g \<and> pflow n 0 (g_root g) g"

lemma ppm_inv_pst: "ppm_inv n (pt_graph pt) \<Longrightarrow> pst n pt"
  by (simp add: ppm_inv_def pst_def Let_def)

text \<open>The last step of an access: the key below the end of the context, then back to the root.\<close>

definition ppm_count :: "int \<Rightarrow> 'f parse_tree \<Rightarrow> 'f parse_tree" where
  "ppm_count k pt =
     (let pt = (case child_with_key (pt_graph pt) (g_cur (pt_graph pt)) k of
                  Some leaf_to_go \<Rightarrow> move_cur True leaf_to_go pt
                | None \<Rightarrow> snd (create__connect_leaf (g_cur (pt_graph pt)) k pt))
      in move_cur True (g_root (pt_graph pt)) pt)"

lemma pflow_back:
  assumes T: "tree_inv (pt_graph pt)" and "levels_ok (pt_graph pt)" "g_root (pt_graph pt) \<in> set (g_vs (pt_graph pt))"
    and F: "pflow n 1 c (pt_graph pt)" "n < lev (pt_graph pt) c" and n: "0 \<le> n"
  shows "ppm_inv n (pt_graph (move_cur True (g_root (pt_graph pt)) pt))"
proof -
  note D = tree_okD [OF tree_invD(1) [OF T]]
  have "child_visits (pt_graph pt) v = nv (pt_graph pt) v"
    if "v \<in> set (g_vs (pt_graph pt))" "v \<noteq> g_root (pt_graph pt)" "lev (pt_graph pt) v \<le> n" for v
  proof -
    have "v \<noteq> c" using that(3) F(2) by auto
    then show ?thesis using F(1) that unfolding pflow_def by fastforce
  qed
  then have "pflow n 0 (g_root (pt_graph pt)) (pt_graph (move_cur True (g_root (pt_graph pt)) pt))"
    using F(1) D(6) unfolding pflow_def child_visits_move [OF tree_invD(1) [OF T]] by auto
  then show ?thesis using assms(2,3) tree_inv_move [OF T D(1)] by (simp add: ppm_inv_def)
qed

lemma ppm_count_inv:
  assumes st: "pst n pt" and l: "lev (pt_graph pt) (g_cur (pt_graph pt)) = n" "0 < n"
  shows "ppm_inv n (pt_graph (ppm_count k pt)) \<and> same_par (ppm_count k pt) pt"
proof -
  let ?g = "pt_graph pt" and ?c = "g_cur (pt_graph pt)"
  have T: "tree_inv ?g" and L: "levels_ok ?g" and vs: "?c \<in> set (g_vs ?g)" "g_root ?g \<in> set (g_vs ?g)"
    and F0: "pflow n (if ?c = g_root ?g then 0 else 1) ?c ?g"
    using st by (auto simp: pst_def Let_def)
  have nr: "?c \<noteq> g_root ?g" using l L by (auto simp: levels_ok_def)
  note I = tree_invD [OF T] and D = tree_okD [OF tree_invD(1) [OF T]]
  show ?thesis
  proof (cases "child_with_key ?g ?c k")
    case (Some u)
    note ds = pst_descend [OF st Some]
    have "ppm_inv n (pt_graph (move_cur True (g_root (pt_graph (move_cur True u pt))) (move_cur True u pt)))"
      by (rule pflow_back [where c = u]) (use ds l L vs in \<open>auto simp: pst_def Let_def\<close>)
    then show ?thesis using Some by (simp add: ppm_count_def)
  next
    case None
    obtain leaf p1 where c1: "create__connect_leaf ?c k pt = (leaf, p1)" by (metis surj_pair)
    note C1 = create_leaf_simps [OF I(1) c1 D(2)] and Lc = lev_create [OF I(1) c1 D(2)]
    have T1: "tree_inv (pt_graph p1)" using tree_inv_create [OF T c1 D(2) vs(1) None] by auto
    have L1: "levels_ok (pt_graph p1)"
      using L D(1,2) D(4,5) next_not_child [OF I(1)] by (auto simp: levels_ok_def Lc C1(2,7) split: if_splits)
    have F1: "pflow n 1 leaf (pt_graph p1)"
      using F0 nr D(1) unfolding pflow_def child_visits_create [OF I(1) c1 D(2)] C1(1,2,6,9) Lc by auto
    have "ppm_inv n (pt_graph (move_cur True (g_root (pt_graph p1)) p1))"
      by (rule pflow_back [OF T1 L1 _ F1]) (use l vs C1(1,2,6) Lc in auto)
    then show ?thesis using None c1 C1(2) by (simp add: ppm_count_def)
  qed
qed

lemma ppm_inv_access:
  assumes inv: "ppm_inv n (pt_graph pt)" and n: "context_size pt = n" "0 < n" and len: "int (length (pt_context pt)) \<le> n"
  shows "\<exists>pt'. add_access_w_ppm k pt = Some (0, pt') \<and> ppm_inv n (pt_graph pt') \<and> malgo_t pt' = malgo_t pt \<and>
     context_size pt' = n \<and>
     pt_context pt' = (if int (length (pt_context pt)) = n then tl (pt_context pt) else pt_context pt) @ [k]"
proof (cases "int (length (pt_context pt)) = n")
  case False
  then show ?thesis using inv n by (auto simp: add_access_w_ppm_def)
next
  case True
  obtain i p where w: "move_cur_on_context True pt = (i, p)" by (metis surj_pair)
  let ?ks = "pt_context pt"
  have ne: "?ks \<noteq> []" using True n by auto
  have r0: "lev (pt_graph pt) (g_cur (pt_graph pt)) = 0" using inv by (simp add: ppm_inv_def levels_ok_def)
  note wk = pst_walk [OF ppm_inv_pst [OF inv] w [unfolded move_cur_on_context_def], simplified]
  have dr: "nat i < length ?ks \<Longrightarrow> hd (drop (nat i) ?ks) = ?ks ! nat i" by (simp add: hd_drop_conv_nth)
  define q where "q = create__move_cur_on_context i p"
  have q: "pst n q" "same_par q p" "lev (pt_graph q) (g_cur (pt_graph q)) = n"
    using pst_create_context [of n p "drop (nat i) ?ks"] wk dr r0 True
    unfolding q_def create__move_cur_on_context_def by (auto simp: nat_less_iff of_nat_diff)
  note c = ppm_count_inv [OF q(1,3) n(2), of k]
  have ctx: "pt_context (ppm_count k q) = ?ks" using c q(2) wk by simp
  have "add_access_w_ppm k pt =
      (if pt_context (ppm_count k q) = [] then None
       else Some (0, (ppm_count k q)\<lparr>pt_context := tl (pt_context (ppm_count k q)) @ [k]\<rparr>))"
    using True n(1) unfolding add_access_w_ppm_def w Let_def prod.case q_def [symmetric] ppm_count_def
    by simp
  then show ?thesis using ctx ne c wk q(2) n True by auto
qed

subsection \<open>A prediction\<close>

text \<open>A walk that does not count leaves everything but the cursor as it is.\<close>

definition pinv :: "int \<Rightarrow> 'f parse_tree \<Rightarrow> bool" where
  "pinv n pt \<longleftrightarrow> (let g = pt_graph pt in tree_inv g \<and> levels_ok g \<and> g_root g \<in> set (g_vs g) \<and>
     g_cur g \<in> set (g_vs g) \<and> pflow n 0 (g_root g) g)"

lemma pinv_move:
  assumes "pinv n pt" "v \<in> set (g_vs (pt_graph pt))" "v < g_next (pt_graph pt)"
  shows "pinv n (move_cur False v pt)"
  using assms tree_inv_move [of pt v False] pflow_move_False [of pt n 0 "g_root (pt_graph pt)" v]
  by (auto simp: pinv_def Let_def dest: tree_invD(1))

lemma pinv_walk:
  assumes "pinv n pt" "walk_context False ks i pt = (i', pt')"
  shows "pinv n pt' \<and> same_par pt' pt \<and> g_next (pt_graph pt') = g_next (pt_graph pt) \<and>
    lev (pt_graph pt') (g_cur (pt_graph pt')) \<le> lev (pt_graph pt) (g_cur (pt_graph pt)) + int (length ks)"
  using assms
proof (induction ks arbitrary: i pt)
  case (Cons k ks)
  show ?case
  proof (cases "child_with_key (pt_graph pt) (g_cur (pt_graph pt)) k")
    case (Some u)
    then have u: "u \<in> set (g_adj (pt_graph pt) (g_cur (pt_graph pt)))" using child_with_key_Some by blast
    have T: "tree_inv (pt_graph pt)" and L: "levels_ok (pt_graph pt)" using Cons(2) by (auto simp: pinv_def Let_def)
    have "pinv n (move_cur False u pt)"
      by (rule pinv_move [OF Cons(2) tree_invD(5) [OF T u] tree_okD(5) [OF tree_invD(1) [OF T] u]])
    moreover have "walk_context False ks (i + 1) (move_cur False u pt) = (i', pt')" using Cons(3) Some by simp
    ultimately show ?thesis using Cons(1) [of "move_cur False u pt" "i + 1"] L u by (auto simp: levels_ok_def)
  qed (use Cons in auto)
qed auto

definition ppm_ok :: "int \<Rightarrow> 'f parse_tree \<Rightarrow> bool" where
  "ppm_ok n pt \<longleftrightarrow> malgo_t pt = MALGO_W_PPM \<and> context_size pt = n \<and> ppm_inv n (pt_graph pt) \<and>
     int (length (pt_context pt)) \<le> n"

lemma ppm_inv_pinv: "ppm_inv n (pt_graph pt) \<Longrightarrow> pinv n pt"
  by (auto simp: ppm_inv_def pinv_def Let_def)

lemma ppm_ok_predict:
  assumes "ppm_ok n pt"
  shows "ppm_ok n (snd (snd (pt_get_key_prob_map fo rnd pt m)))"
proof -
  obtain i q where q: "move_cur_on_context False pt = (i, q)" by (metis surj_pair)
  have i: "pinv n q" "same_par q pt"
    using pinv_walk [OF ppm_inv_pinv q [unfolded move_cur_on_context_def]] assms by (auto simp: ppm_ok_def)
  have "pinv n (move_cur False (g_root (pt_graph q)) q)"
    by (rule pinv_move [OF i(1)]) (use i(1) in \<open>auto simp: pinv_def Let_def dest: tree_invD(1) tree_okD(1)\<close>)
  then have "ppm_inv n (pt_graph (move_cur False (g_root (pt_graph q)) q))"
    by (simp add: pinv_def ppm_inv_def Let_def)
  then show ?thesis
    using assms i by (simp add: ppm_ok_def pt_get_key_prob_map_def get_key_prob_map_w_ppm_def q malgo_defs)
qed

lemma ppm_ok_step:
  assumes "0 < n" "ppm_ok n pt"
  shows "\<exists>pt'. pt_step fo op pt = Some pt' \<and> ppm_ok n pt'"
proof (cases op)
  case (PAccess now k)
  obtain pt' where "add_access_w_ppm k pt = Some (0, pt')" "ppm_inv n (pt_graph pt')" "malgo_t pt' = malgo_t pt"
     "context_size pt' = n"
     "pt_context pt' = (if int (length (pt_context pt)) = n then tl (pt_context pt) else pt_context pt) @ [k]"
    using ppm_inv_access [of n pt k] assms by (auto simp: ppm_ok_def)
  then show ?thesis
    using assms by (auto simp: pt_step_def PAccess pt_add_access_def ppm_ok_def malgo_defs)
next
  case (PPredict rnd)
  then show ?thesis using ppm_ok_predict [OF assms(2)] by (simp add: pt_step_def)
next
  case PReset
  have "tree_inv (pt_graph pt)" using assms(2) by (simp add: ppm_ok_def ppm_inv_def)
  then have l: "lz_inv (pt_graph (pt_reset pt))" by (rule lz_inv_reset)
  have c: "g_cur (pt_graph (pt_reset pt)) = g_root (pt_graph (pt_reset pt))"
    "lev (pt_graph (pt_reset pt)) (g_root (pt_graph (pt_reset pt))) = 0"
    by (simp_all add: pt_reset_def add_vertex_def Let_def graph_clear_def root_prop_def)
  have a: "g_adj (pt_graph (pt_reset pt)) v = []" for v
  proof (cases "v \<in> set (g_vs (pt_graph pt))")
    case False
    then have "g_adj (pt_graph pt) v = []"
      using tree_invD(4) [OF \<open>tree_inv (pt_graph pt)\<close>] by (metis list.set_intros(1) neq_Nil_conv)
    then show ?thesis by (simp add: pt_reset_def add_vertex_def Let_def graph_clear_def rm_vertices)
  qed (simp add: pt_reset_def add_vertex_def Let_def graph_clear_def rm_vertices)
  have v: "g_vs (pt_graph (pt_reset pt)) = [g_root (pt_graph (pt_reset pt))]"
    by (simp add: pt_reset_def add_vertex_def Let_def graph_clear_def rm_vertices)
  have "ppm_inv n (pt_graph (pt_reset pt))"
    using l c a v by (auto simp: ppm_inv_def lz_inv_def levels_ok_def pflow_def flow_def)
  then show ?thesis using assms by (simp add: pt_step_def PReset ppm_ok_def) (simp add: pt_reset_def)
qed

lemma ppm_ok_new: "0 < n \<Longrightarrow> ppm_ok n (parse_tree_new2 MALGO_W_PPM n)"
  using lz_inv_new [of MALGO_W_PPM n]
  by (auto simp: ppm_ok_def ppm_inv_def lz_inv_def levels_ok_def pflow_def flow_def parse_tree_new2_def
      add_vertex_def graph_new_def root_prop_def Let_def)

lemma ppm_ok_run:
  assumes "0 < n"
  shows "\<exists>pt. ops_run (pt_step fo) ops (parse_tree_new2 MALGO_W_PPM n) = Some pt \<and> ppm_ok n pt"
  by (rule ops_run_defined [where A = UNIV]) (use assms ppm_ok_step ppm_ok_new in auto)

subsection \<open>Properties\<close>

text \<open>C19: with a positive context size no sequence of accesses, predictions and resets makes the PPM tree
  undefined, the context never grows beyond its size, and at the vertex the context leads to, the total
  the prediction divides by is the sum of the visits it divides.\<close>

theorem ppm_distribution_normalised:
  assumes "0 < n"
  shows "\<exists>pt. ops_run (pt_step fo) ops (parse_tree_new2 MALGO_W_PPM n) = Some pt \<and>
     int (length (pt_context pt)) \<le> n \<and>
     (let q = snd (move_cur_on_context False pt)
      in child_visits (pt_graph q) (g_cur (pt_graph q)) = lz_total q)"
proof -
  obtain pt where pt: "ops_run (pt_step fo) ops (parse_tree_new2 MALGO_W_PPM n) = Some pt" "ppm_ok n pt"
    using ppm_ok_run [OF assms] by blast
  obtain i q where q: "move_cur_on_context False pt = (i, q)" by (metis surj_pair)
  have inv: "ppm_inv n (pt_graph pt)" and m: "malgo_t pt = MALGO_W_PPM" and c: "int (length (pt_context pt)) \<le> n"
    using pt(2) by (auto simp: ppm_ok_def)
  note w = pinv_walk [OF ppm_inv_pinv [OF inv] q [unfolded move_cur_on_context_def]]
  have "lev (pt_graph pt) (g_cur (pt_graph pt)) = 0" using inv by (simp add: ppm_inv_def levels_ok_def)
  with w c have lv: "lev (pt_graph q) (g_cur (pt_graph q)) \<le> n" by simp
  have "child_visits (pt_graph q) (g_cur (pt_graph q)) = nv (pt_graph q) (g_cur (pt_graph q))"
    using w lv by (cases "g_cur (pt_graph q) = g_root (pt_graph q)") (auto simp: pinv_def pflow_def Let_def)
  then show ?thesis using pt(1) c w m by (auto simp: q lz_total_def Let_def)
qed

theorem ppm_distribution_normalised_witness:
  "\<exists>pt. ops_run (pt_step int_fops) (map (PAccess (0, 0)) [1, 2, 1, 2, 1, 3]) (parse_tree_new2 MALGO_W_PPM 2) = Some pt \<and>
     int (length (pt_context pt)) \<le> 2 \<and>
     (let q = snd (move_cur_on_context False pt)
      in child_visits (pt_graph q) (g_cur (pt_graph q)) = lz_total q)"
  by (rule ppm_distribution_normalised) simp

text \<open>A PPM tree of context size 0, which the constructor accepts, is undefined at its first access:
  \<open>context.pop_front()\<close> meets an empty deque.\<close>

theorem ppm_zero_context_undefined:
  "ops_run (pt_step fo) [PAccess now k] (parse_tree_new2 MALGO_W_PPM 0) = None"
proof -
  have "add_access_w_ppm k pt = None" if "context_size pt = 0" "pt_context pt = []" for pt :: "'a parse_tree"
  proof -
    have "pt_context (snd (create__connect_leaf v k pt)) = []" for v
      using that(2) create_leaf_keeps(4) by (metis surjective_pairing)
    then show ?thesis
      using that by (auto simp: add_access_w_ppm_def move_cur_on_context_def create__move_cur_on_context_def Let_def
          split: option.splits)
  qed
  then show ?thesis by (simp add: pt_step_def pt_add_access_def) (simp add: parse_tree_new2_def malgo_defs)
qed

end
