(* ===== verification/PAlgo.thy ===== *)
theory PAlgo
  imports Parse_Tree_PPM
begin

text \<open>
  The prediction algorithms of \<open>sdm_control/prefetch/palgo.cpp\<close> and \<open>include/palgo.h\<close>: the base class
  \<open>PAlgo\<close>, the Markov algorithms \<open>MAlgo\<close> over a parse tree, the arrival-time algorithm \<open>TAlgo\<close>, and the
  mixed ones, which run several algorithms side by side: the highest probability (\<open>MMPAlgo\<close>), a weighted
  sum (\<open>WMPAlgo\<close>), the best recent score (\<open>BMPAlgo\<close>) and weighted majority (\<open>MJMPAlgo\<close>, \<open>RMJMPAlgo\<close>).
  \<open>float\<close> operations are the record \<open>fops\<close>, extended by those the time and majority algorithms add;
  the normal distribution of \<open>boost::math\<close> is one of its fields. Two accessors with the same
  probability are told apart by a map keyed by the probability: only the larger one is ranked.
\<close>

subsection \<open>std::set\<close>

fun sset_insert :: "'a::linorder \<Rightarrow> 'a list \<Rightarrow> 'a list" where
  "sset_insert x [] = [x]"
| "sset_insert x (y # ys) = (if x < y then x # y # ys else if x = y then y # ys else y # sset_insert x ys)"

lemma set_sset_insert [simp]: "set (sset_insert x ys) = insert x (set ys)"
  by (induction x ys rule: sset_insert.induct) auto

lemma sorted_sset_insert: "sorted_wrt (<) ys \<Longrightarrow> sorted_wrt (<) (sset_insert x ys)"
  by (induction x ys rule: sset_insert.induct) auto

lemma distinct_sorted: "sorted_wrt (<) (ys :: 'a::linorder list) \<Longrightarrow> distinct ys"
  by (simp add: strict_sorted_iff)

subsection \<open>PAlgo\<close>

record palgo =
  acc_s :: "int list"
  acc_v :: "int list"

definition palgo_new :: palgo where
  "palgo_new = \<lparr>acc_s = [], acc_v = []\<rparr>"

definition palgo_reset :: "('a) palgo_scheme \<Rightarrow> 'a palgo_scheme" where
  "palgo_reset s = s\<lparr>acc_s := [], acc_v := []\<rparr>"

definition palgo_add_access :: "int \<Rightarrow> 'a palgo_scheme \<Rightarrow> rc \<times> 'a palgo_scheme" where
  "palgo_add_access acc s = (0, s\<lparr>acc_s := sset_insert acc (acc_s s), acc_v := acc_v s @ [acc]\<rparr>)"

text \<open>The loop every \<open>get_to_prefetch\<close> ends with: what was accessed once and is neither cached nor
  predicted goes to the second list.\<close>

definition push_rest :: "int list \<Rightarrow> int list \<Rightarrow> int list \<Rightarrow> int list \<Rightarrow> int list" where
  "push_rest s cached predicted eacc = eacc @ filter (\<lambda>a. a \<notin> set cached \<and> a \<notin> set predicted) s"

subsection \<open>TAlgo\<close>

record 'f tops = "'f fops" +
  f_sub :: "'f \<Rightarrow> 'f \<Rightarrow> 'f"
  f_pow2 :: "'f \<Rightarrow> 'f"
  f_sqrt :: "'f \<Rightarrow> 'f"
  f_normal_above :: "'f \<Rightarrow> 'f \<Rightarrow> 'f \<Rightarrow> 'f"
  f_step :: 'f
  f_exp2 :: "'f \<Rightarrow> 'f"
  f_log2 :: "'f \<Rightarrow> 'f"

record 'f talgo = palgo +
  arr_inter_map :: "(int, ('f \<times> 'f) list) smap"
  mean_var_map :: "(int, 'f \<times> 'f) smap"

definition talgo_new :: "'f talgo" where
  "talgo_new = \<lparr>acc_s = [], acc_v = [], arr_inter_map = [], mean_var_map = []\<rparr>"

definition talgo_reset :: "'f talgo \<Rightarrow> 'f talgo" where
  "talgo_reset s = (palgo_reset s)\<lparr>arr_inter_map := [], mean_var_map := []\<rparr>"

text \<open>\<open>NO_INTER_TIME\<close> is 0, \<open>MIN_VARIANCE\<close> 20. A negative inter-arrival time is the error 1, reported
  after the access has been recorded.\<close>

definition talgo_add_access :: "('f::linorder, 'a) tops_scheme \<Rightarrow> 'f \<Rightarrow> int \<Rightarrow> 'f talgo \<Rightarrow> rc \<times> 'f talgo" where
  "talgo_add_access fo arr_time acc s =
     (let (_, s) = palgo_add_access acc s;
          s = (if smap_contains acc (arr_inter_map s) then s
               else s\<lparr>arr_inter_map := smap_put acc [] (arr_inter_map s)\<rparr>);
          ai_v = smap_get [] acc (arr_inter_map s);
          inter_time = (if ai_v = [] then f_zero fo else f_sub fo arr_time (fst (last ai_v)))
      in if ai_v \<noteq> [] \<and> inter_time < f_zero fo then (1, s)
      else
        let ai_v = ai_v @ [(arr_time, inter_time)];
            s = s\<lparr>arr_inter_map := smap_put acc ai_v (arr_inter_map s)\<rparr>
        in if inter_time = f_zero fo then (0, s)
        else
          let num_sample = int (length ai_v) - 1;
              total = foldl (\<lambda>a p. f_add fo a (snd p)) (f_zero fo) ai_v;
              mean = f_div fo total (f_of_int fo num_sample);
              min_var = f_of_int fo 20;
              var = (if 2 < num_sample then
                       let total = foldl (\<lambda>a p. if snd p \<noteq> f_zero fo
                             then f_add fo a (f_pow2 fo (f_sub fo (snd p) mean)) else a) (f_zero fo) ai_v
                       in max (f_div fo total (f_of_int fo (num_sample - 1))) min_var
                     else min_var)
          in (0, s\<lparr>mean_var_map := smap_put acc (mean, var) (mean_var_map s)\<rparr>))"

text \<open>\<open>return_if_err\<close> stops at the first error.\<close>

fun talgo_train :: "('f::linorder, 'a) tops_scheme \<Rightarrow> ('f \<times> int) list \<Rightarrow> 'f talgo \<Rightarrow> rc \<times> 'f talgo" where
  "talgo_train fo [] s = (0, s)"
| "talgo_train fo ((t, acc) # xs) s =
     (let (err, s) = talgo_add_access fo t acc s in if err \<noteq> 0 then (err, s) else talgo_train fo xs s)"

text \<open>\<open>while (prob_acc_map.count(prob) != 0) prob += 0.0001\<close>: it need not end, \<open>None\<close> then.\<close>

partial_function (option) free_prob ::
  "('f::linorder, 'a) tops_scheme \<Rightarrow> ('f, int) smap \<Rightarrow> 'f \<Rightarrow> 'f option" where
  "free_prob fo m p = (if smap_contains p m then free_prob fo m (f_add fo p (f_step fo)) else Some p)"

text \<open>The loop over the means: the error, the ranked map and the skipped accessors.\<close>

fun talgo_scan ::
  "('f::linorder, 'a) tops_scheme \<Rightarrow> 'f talgo \<Rightarrow> 'f \<Rightarrow> (int \<times> 'f \<times> 'f) list \<Rightarrow> ('f, int) smap \<Rightarrow> int list \<Rightarrow>
     (rc \<times> ('f, int) smap \<times> int list) option" where
  "talgo_scan fo s now [] m skipped = Some (0, m, skipped)"
| "talgo_scan fo s now ((acc, mean, var) # es) m skipped =
     (case smap_get [] acc (arr_inter_map s) of
        [] \<Rightarrow> None
      | p # ps \<Rightarrow>
          let passed = f_sub fo now (fst (last (p # ps))) in
          if passed < f_zero fo then Some (1, m, skipped)
          else if passed < f_of_int fo 1 then talgo_scan fo s now es m (skipped @ [acc])
          else if f_mul fo (f_of_int fo 2) mean < passed then talgo_scan fo s now es m skipped
          else do {
            prob \<leftarrow> free_prob fo m (f_normal_above fo mean (f_sqrt fo var) passed);
            talgo_scan fo s now es (smap_put prob acc m) skipped })"

text \<open>\<open>while (acc_v.size() < num_acc && !skipped_v.empty())\<close>, the sizes compared as unsigned.\<close>

fun push_skipped :: "nat \<Rightarrow> int list \<Rightarrow> int list \<Rightarrow> int list" where
  "push_skipped n [] out = out"
| "push_skipped n (a # as) out = (if length out < n then push_skipped n as (out @ [a]) else out)"

definition talgo_get_to_prefetch ::
  "('f::linorder, 'a) tops_scheme \<Rightarrow> 'f \<Rightarrow> int \<Rightarrow> int list \<Rightarrow> int list \<Rightarrow> int list \<Rightarrow> 'f talgo \<Rightarrow>
     (rc \<times> int \<times> int list \<times> int list) option" where
  "talgo_get_to_prefetch fo now num_acc out cached eacc s =
     do { (err, m, skipped) \<leftarrow> talgo_scan fo s now (mean_var_map s) [] [];
          if err \<noteq> 0 then Some (err, num_acc, out, eacc)
          else let out = push_ranked num_acc (map snd m) out;
                   out = push_skipped (as_size num_acc) (rev skipped) out
               in Some (0, int (length out), out, push_rest (acc_s s) cached out eacc) }"

subsection \<open>MAlgo\<close>

record 'f malgo = palgo +
  parse_tree :: "'f parse_tree"

definition malgo_new :: "char \<Rightarrow> int \<Rightarrow> 'f malgo" where
  "malgo_new t n = \<lparr>acc_s = [], acc_v = [], parse_tree = parse_tree_new2 t n\<rparr>"

definition malgo_reset :: "'f malgo \<Rightarrow> 'f malgo" where
  "malgo_reset s = (palgo_reset s)\<lparr>parse_tree := pt_reset (parse_tree s)\<rparr>"

definition malgo_add_access :: "('f, 'a) fops_scheme \<Rightarrow> timeval \<Rightarrow> int \<Rightarrow> 'f malgo \<Rightarrow> (rc \<times> 'f malgo) option" where
  "malgo_add_access fo now acc s =
     (let (err, s) = palgo_add_access acc s in
      if err \<noteq> 0 then Some (err, s)
      else do {
        (err, pt) \<leftarrow> pt_add_access (fops.truncate fo) now acc (parse_tree s);
        Some (err, s\<lparr>parse_tree := pt\<rparr>) })"

fun malgo_train :: "('f, 'a) fops_scheme \<Rightarrow> timeval \<Rightarrow> int list \<Rightarrow> 'f malgo \<Rightarrow> (rc \<times> 'f malgo) option" where
  "malgo_train fo now [] s = Some (0, s)"
| "malgo_train fo now (a # as) s =
     do { (err, s) \<leftarrow> malgo_add_access fo now a s;
          if err \<noteq> 0 then Some (err, s) else malgo_train fo now as s }"

definition malgo_get_acc_prob_map ::
  "('f, 'a) fops_scheme \<Rightarrow> (nat \<Rightarrow> 'f) \<Rightarrow> (int, 'f) smap \<Rightarrow> 'f malgo \<Rightarrow> rc \<times> (int, 'f) smap \<times> 'f malgo" where
  "malgo_get_acc_prob_map fo rnd m s =
     (let (err, m, pt) = pt_get_key_prob_map (fops.truncate fo) rnd (parse_tree s) m
      in (err, m, s\<lparr>parse_tree := pt\<rparr>))"

definition malgo_get_to_prefetch ::
  "('f::linorder, 'a) fops_scheme \<Rightarrow> (nat \<Rightarrow> 'f) \<Rightarrow> int \<Rightarrow> int list \<Rightarrow> int list \<Rightarrow> int list \<Rightarrow> 'f malgo \<Rightarrow>
     rc \<times> int \<times> int list \<times> int list \<times> 'f malgo" where
  "malgo_get_to_prefetch fo rnd num_acc out cached eacc s =
     (let (err, num_acc, out, pt) = pt_get_to_prefetch (fops.truncate fo) rnd num_acc out (parse_tree s);
          s = s\<lparr>parse_tree := pt\<rparr>
      in if err \<noteq> 0 then (err, num_acc, out, eacc, s)
         else (0, num_acc, out, push_rest (acc_s s) cached out eacc, s))"

end
