(* ===== verification/PAlgo_Mixed.thy ===== *)
theory PAlgo_Mixed
  imports PAlgo
begin

text \<open>
  The mixed algorithms of \<open>palgo.cpp\<close>: \<open>MPAlgo\<close> keeps a vector of algorithms, feeds every access to all of
  them and combines their predictions. A null element of the vector (an unknown type) is undefined as
  soon as it is called.
\<close>

subsection \<open>The algorithms behind the shared pointers\<close>

datatype 'f pobj = MObj "'f malgo" | TObj "'f talgo" | NullObj

definition TALGO :: char where "TALGO = CHR ''t''"

definition pobj_new :: "char \<times> int \<Rightarrow> 'f pobj" where
  "pobj_new p = (let (t, n) = p in
     if t = MALGO_W_LZ then MObj (malgo_new MALGO_W_LZ 0)
     else if t = MALGO_W_ALZ then MObj (malgo_new MALGO_W_ALZ 0)
     else if t = MALGO_W_PPM then MObj (malgo_new MALGO_W_PPM n)
     else if t = MALGO_W_PO then MObj (malgo_new MALGO_W_PO 0)
     else if t = TALGO then TObj talgo_new
     else NullObj)"

definition pobj_reset :: "'f pobj \<Rightarrow> 'f pobj option" where
  "pobj_reset p = (case p of MObj s \<Rightarrow> Some (MObj (malgo_reset s)) | TObj s \<Rightarrow> Some (TObj (talgo_reset s)) | NullObj \<Rightarrow> None)"

text \<open>\<open>add_access(acc)\<close>: the time algorithm refuses an access without a time.\<close>

definition pobj_add_access :: "('f::linorder, 'a) tops_scheme \<Rightarrow> timeval \<Rightarrow> int \<Rightarrow> 'f pobj \<Rightarrow> (rc \<times> 'f pobj) option" where
  "pobj_add_access fo now acc p =
     (case p of
        MObj s \<Rightarrow> map_option (map_prod id MObj) (malgo_add_access (fops.truncate fo) now acc s)
      | TObj s \<Rightarrow> Some (1, p)
      | NullObj \<Rightarrow> None)"

definition pobj_add_access_t ::
  "('f::linorder, 'a) tops_scheme \<Rightarrow> timeval \<Rightarrow> 'f \<Rightarrow> int \<Rightarrow> 'f pobj \<Rightarrow> (rc \<times> 'f pobj) option" where
  "pobj_add_access_t fo now t acc p =
     (case p of
        MObj s \<Rightarrow> map_option (map_prod id MObj) (malgo_add_access (fops.truncate fo) now acc s)
      | TObj s \<Rightarrow> Some (map_prod id TObj (talgo_add_access fo t acc s))
      | NullObj \<Rightarrow> None)"

definition pobj_get_acc_prob_map ::
  "('f::linorder, 'a) tops_scheme \<Rightarrow> (nat \<Rightarrow> 'f) \<Rightarrow> 'f pobj \<Rightarrow> ((int, 'f) smap \<times> 'f pobj) option" where
  "pobj_get_acc_prob_map fo rnd p =
     (case p of
        MObj s \<Rightarrow> (let (_, m, s) = malgo_get_acc_prob_map (fops.truncate fo) rnd [] s in Some (m, MObj s))
      | TObj s \<Rightarrow> Some ([], p)
      | NullObj \<Rightarrow> None)"

definition pobj_get_to_prefetch ::
  "('f::linorder, 'a) tops_scheme \<Rightarrow> (nat \<Rightarrow> 'f) \<Rightarrow> 'f \<Rightarrow> int \<Rightarrow> 'f pobj \<Rightarrow> (rc \<times> int \<times> int list \<times> 'f pobj) option" where
  "pobj_get_to_prefetch fo rnd t num_acc p =
     (case p of
        MObj s \<Rightarrow> (let (err, n, out, _, s) = malgo_get_to_prefetch (fops.truncate fo) rnd num_acc [] [] [] s
                   in Some (err, n, out, MObj s))
      | TObj s \<Rightarrow> do { (err, n, out, _) \<leftarrow> talgo_get_to_prefetch fo t num_acc [] [] [] s; Some (err, n, out, p) }
      | NullObj \<Rightarrow> None)"

text \<open>A loop over the vector that stops at the first error, and one that collects a result from each.\<close>

fun each_until_err :: "('p \<Rightarrow> (rc \<times> 'p) option) \<Rightarrow> 'p list \<Rightarrow> (rc \<times> 'p list) option" where
  "each_until_err f [] = Some (0, [])"
| "each_until_err f (p # ps) =
     do { (err, p) \<leftarrow> f p;
          if err \<noteq> 0 then Some (err, p # ps)
          else do { (err, ps) \<leftarrow> each_until_err f ps; Some (err, p # ps) } }"

fun collect :: "(nat \<Rightarrow> 'p \<Rightarrow> ('r \<times> 'p) option) \<Rightarrow> nat \<Rightarrow> 'p list \<Rightarrow> ('r list \<times> 'p list) option" where
  "collect f i [] = Some ([], [])"
| "collect f i (p # ps) =
     do { (r, p) \<leftarrow> f i p; (rs, ps) \<leftarrow> collect f (Suc i) ps; Some (r # rs, p # ps) }"

subsection \<open>MPAlgo\<close>

record 'f mpalgo = palgo +
  palgo_v :: "'f pobj list"
  palgo_id_used_v :: "int list"

definition mpalgo_new :: "(char \<times> int) list \<Rightarrow> 'f mpalgo" where
  "mpalgo_new cfg = \<lparr>acc_s = [], acc_v = [], palgo_v = map pobj_new cfg, palgo_id_used_v = []\<rparr>"

definition mpalgo_reset :: "('f, 'a) mpalgo_scheme \<Rightarrow> ('f, 'a) mpalgo_scheme option" where
  "mpalgo_reset s =
     do { (_, ps) \<leftarrow> collect (\<lambda>_ p. map_option (\<lambda>p. ((), p)) (pobj_reset p)) 0 (palgo_v s);
          Some ((palgo_reset s)\<lparr>palgo_v := ps, palgo_id_used_v := []\<rparr>) }"

definition mpalgo_add_access ::
  "('f::linorder, 'b) tops_scheme \<Rightarrow> timeval \<Rightarrow> int \<Rightarrow> ('f, 'a) mpalgo_scheme \<Rightarrow> (rc \<times> ('f, 'a) mpalgo_scheme) option" where
  "mpalgo_add_access fo now acc s =
     (let (_, s) = palgo_add_access acc s in
      do { (err, ps) \<leftarrow> each_until_err (pobj_add_access fo now acc) (palgo_v s);
           Some (err, s\<lparr>palgo_v := ps\<rparr>) })"

definition mpalgo_add_access_t ::
  "('f::linorder, 'b) tops_scheme \<Rightarrow> timeval \<Rightarrow> 'f \<Rightarrow> int \<Rightarrow> ('f, 'a) mpalgo_scheme \<Rightarrow> (rc \<times> ('f, 'a) mpalgo_scheme) option" where
  "mpalgo_add_access_t fo now t acc s =
     (let (_, s) = palgo_add_access acc s in
      do { (err, ps) \<leftarrow> each_until_err (pobj_add_access_t fo now t acc) (palgo_v s);
           Some (err, s\<lparr>palgo_v := ps\<rparr>) })"

text \<open>The virtual \<open>add_access\<close> it calls is a parameter; it stops at the first error.\<close>

fun mpalgo_train :: "(int \<Rightarrow> 's \<Rightarrow> (rc \<times> 's) option) \<Rightarrow> int list \<Rightarrow> 's \<Rightarrow> (rc \<times> 's) option" where
  "mpalgo_train add [] s = Some (0, s)"
| "mpalgo_train add (a # as) s =
     do { (err, s) \<leftarrow> add a s; if err \<noteq> 0 then Some (err, s) else mpalgo_train add as s }"

text \<open>The probability maps of all algorithms; their return codes are ignored.\<close>

definition prob_maps ::
  "('f::linorder, 'b) tops_scheme \<Rightarrow> (nat \<Rightarrow> nat \<Rightarrow> 'f) \<Rightarrow> 'f pobj list \<Rightarrow> ((int, 'f) smap list \<times> 'f pobj list) option" where
  "prob_maps fo rnd ps = collect (\<lambda>i p. pobj_get_acc_prob_map fo (rnd i) p) 0 ps"

subsection \<open>WMPAlgo\<close>

record 'f wmpalgo = "'f mpalgo" +
  wm_weight_v :: "'f list"

definition wmpalgo_new :: "(char \<times> int) list \<Rightarrow> 'f list \<Rightarrow> 'f wmpalgo" where
  "wmpalgo_new cfg ws = mpalgo.extend (mpalgo_new cfg) \<lparr>wm_weight_v = ws\<rparr>"

text \<open>A weight vector shorter than the vector of algorithms is read out of bounds.\<close>

definition wmpalgo_get_to_prefetch ::
  "('f::linorder, 'b) tops_scheme \<Rightarrow> (nat \<Rightarrow> nat \<Rightarrow> 'f) \<Rightarrow> int \<Rightarrow> int list \<Rightarrow> int list \<Rightarrow> int list \<Rightarrow> 'f wmpalgo \<Rightarrow>
     (rc \<times> int \<times> int list \<times> int list \<times> 'f wmpalgo) option" where
  "wmpalgo_get_to_prefetch fo rnd num_acc out cached eacc s =
     do { (ms, ps) \<leftarrow> prob_maps fo rnd (palgo_v s);
          let s = s\<lparr>palgo_v := ps\<rparr>;
          if length (wm_weight_v s) < length ms \<and> acc_s s \<noteq> [] then None
          else
            let prob = (\<lambda>a. foldl (\<lambda>x (m, w). f_add fo x (f_mul fo (smap_get (f_zero fo) a m) w)) (f_zero fo)
                              (zip ms (wm_weight_v s)));
                m = foldl (\<lambda>m a. smap_put a (prob a) m) [] (acc_s s);
                out = rank_keys num_acc m out
            in Some (0, int (length out), out, push_rest (acc_s s) cached out eacc, s) }"

subsection \<open>MMPAlgo\<close>

definition max_prob :: "'f::linorder \<Rightarrow> (int, 'f) smap list \<Rightarrow> int \<Rightarrow> 'f" where
  "max_prob zero ms a = foldl (\<lambda>x m. if x < smap_get zero a m then smap_get zero a m else x) zero ms"

definition mmpalgo_get_to_prefetch ::
  "('f::linorder, 'b) tops_scheme \<Rightarrow> (nat \<Rightarrow> nat \<Rightarrow> 'f) \<Rightarrow> int \<Rightarrow> int list \<Rightarrow> int list \<Rightarrow> int list \<Rightarrow> 'f mpalgo \<Rightarrow>
     (rc \<times> int \<times> int list \<times> int list \<times> 'f mpalgo) option" where
  "mmpalgo_get_to_prefetch fo rnd num_acc out cached eacc s =
     do { (ms, ps) \<leftarrow> prob_maps fo rnd (palgo_v s);
          let s = s\<lparr>palgo_v := ps\<rparr>;
          let m = foldl (\<lambda>m a. smap_put a (max_prob (f_zero fo) ms a) m) [] (acc_s s);
          let out = rank_keys num_acc m out;
          Some (0, int (length out), out, push_rest (acc_s s) cached out eacc, s) }"

subsection \<open>BMPAlgo\<close>

record 'f bmpalgo = "'f mpalgo" +
  score_queue_v :: "int queue list"
  last_predicted_v_v :: "int list list"

definition bmpalgo_new :: "(char \<times> int) list \<Rightarrow> int \<Rightarrow> 'f bmpalgo" where
  "bmpalgo_new cfg window_size = mpalgo.extend (mpalgo_new cfg)
     \<lparr>score_queue_v = map (\<lambda>_. q_new window_size) cfg, last_predicted_v_v = map (\<lambda>_. []) cfg\<rparr>"

definition bmpalgo_reset :: "'f bmpalgo \<Rightarrow> 'f bmpalgo option" where
  "bmpalgo_reset s = do { s \<leftarrow> mpalgo_reset s;
     Some (s\<lparr>score_queue_v := map q_clear (score_queue_v s), last_predicted_v_v := map (\<lambda>_. []) (last_predicted_v_v s)\<rparr>) }"

text \<open>Every algorithm scores 1 for an access it predicted last and 0 for any other.\<close>

fun push_scores :: "int \<Rightarrow> int queue list \<Rightarrow> int list list \<Rightarrow> int queue list option" where
  "push_scores acc [] ls = Some []"
| "push_scores acc (q # qs) [] = None"
| "push_scores acc (q # qs) (l # ls) =
     do { q \<leftarrow> q_push (if acc \<in> set l then 1 else 0) q; qs \<leftarrow> push_scores acc qs ls; Some (q # qs) }"

definition bmpalgo_add_access ::
  "('f::linorder, 'b) tops_scheme \<Rightarrow> timeval \<Rightarrow> 'f \<Rightarrow> int \<Rightarrow> 'f bmpalgo \<Rightarrow> (rc \<times> 'f bmpalgo) option" where
  "bmpalgo_add_access fo now t acc s =
     do { (err, s) \<leftarrow> mpalgo_add_access_t fo now t acc s;
          if err \<noteq> 0 then Some (err, s)
          else do { qs \<leftarrow> push_scores acc (score_queue_v s) (last_predicted_v_v s);
                    Some (0, s\<lparr>score_queue_v := qs\<rparr>) } }"

definition get_malgo_score :: "int queue \<Rightarrow> int" where
  "get_malgo_score q = foldl (+) 0 (q_deq q)"

text \<open>The first algorithm with the highest score, the first of all if no score is positive.\<close>

fun best_score :: "int \<Rightarrow> nat \<Rightarrow> nat \<Rightarrow> int queue list \<Rightarrow> nat" where
  "best_score max_score i_max i [] = i_max"
| "best_score max_score i_max i (q # qs) =
     (if max_score < get_malgo_score q then best_score (get_malgo_score q) i (Suc i) qs
      else best_score max_score i_max (Suc i) qs)"

text \<open>The loop that asks every algorithm: \<open>num_acc\<close> is passed by reference, so every algorithm is asked
  for as many as the one before returned (the copy \<open>t_num_acc\<close> is not used).\<close>

fun ask_all ::
  "('f::linorder, 'b) tops_scheme \<Rightarrow> (nat \<Rightarrow> nat \<Rightarrow> 'f) \<Rightarrow> 'f \<Rightarrow> nat \<Rightarrow> int \<Rightarrow> 'f pobj list \<Rightarrow>
     (rc \<times> int \<times> int list list \<times> 'f pobj list) option" where
  "ask_all fo rnd t i num_acc [] = Some (0, num_acc, [], [])"
| "ask_all fo rnd t i num_acc (p # ps) =
     do { (err, num_acc, out, p) \<leftarrow> pobj_get_to_prefetch fo (rnd i) t num_acc p;
          if err \<noteq> 0 then Some (err, num_acc, [out], p # ps)
          else do { (err, num_acc, outs, ps) \<leftarrow> ask_all fo rnd t (Suc i) num_acc ps;
                    Some (err, num_acc, out # outs, p # ps) } }"

definition bmpalgo_get_to_prefetch ::
  "('f::linorder, 'b) tops_scheme \<Rightarrow> (nat \<Rightarrow> nat \<Rightarrow> 'f) \<Rightarrow> 'f \<Rightarrow> int \<Rightarrow> int list \<Rightarrow> int list \<Rightarrow> int list \<Rightarrow> 'f bmpalgo \<Rightarrow>
     (rc \<times> int \<times> int list \<times> int list \<times> 'f bmpalgo) option" where
  "bmpalgo_get_to_prefetch fo rnd t num_acc out cached eacc s =
     do { (err, n, outs, ps) \<leftarrow> ask_all fo rnd t 0 num_acc (palgo_v s);
          let s = s\<lparr>palgo_v := ps, last_predicted_v_v := outs @ drop (length outs) (last_predicted_v_v s)\<rparr>;
          if err \<noteq> 0 then Some (err, n, out, eacc, s)
          else
            let i = best_score 0 0 0 (score_queue_v s);
                s = s\<lparr>palgo_id_used_v := palgo_id_used_v s @ [int i]\<rparr>
            in if length (last_predicted_v_v s) \<le> i then None
               else let out = last_predicted_v_v s ! i
                    in Some (0, int (length out), out, push_rest (acc_s s) cached out eacc, s) }"

end
