(* ===== verification/PAlgo_Majority.thy ===== *)
theory PAlgo_Majority
  imports PAlgo_Mixed
begin

text \<open>
  The weighted-majority algorithms \<open>MJMPAlgo\<close> and \<open>RMJMPAlgo\<close> of \<open>palgo.cpp\<close>, and the ranking every
  algorithm ends with. The weights are kept as logarithms; a wrong prediction adds \<open>log2f(beta)\<close>.
\<close>

subsection \<open>MJMPAlgo\<close>

record 'f mjmpalgo = "'f mpalgo" +
  mj_beta :: 'f
  mj_last_predicted :: "int list"
  mj_last_predicted_v_v :: "int list list"
  mj_weight_v :: "'f list"

definition INITIAL_MJ_WEIGHT :: "('f, 'b) tops_scheme \<Rightarrow> 'f" where
  "INITIAL_MJ_WEIGHT fo = f_log2 fo (f_exp2 fo (f_of_int fo 100))"

text \<open>With \<open>beta\<close> out of range the constructor returns early and leaves the vectors empty.\<close>

definition mjmpalgo_new :: "('f::linorder, 'b) tops_scheme \<Rightarrow> (char \<times> int) list \<Rightarrow> 'f \<Rightarrow> 'f mjmpalgo" where
  "mjmpalgo_new fo cfg beta =
     (if beta < f_zero fo \<or> f_of_int fo 1 < beta
      then mpalgo.extend (mpalgo_new cfg)
        \<lparr>mj_beta = beta, mj_last_predicted = [], mj_last_predicted_v_v = [], mj_weight_v = []\<rparr>
      else mpalgo.extend (mpalgo_new cfg)
        \<lparr>mj_beta = beta, mj_last_predicted = [], mj_last_predicted_v_v = map (\<lambda>_. []) cfg,
         mj_weight_v = map (\<lambda>_. INITIAL_MJ_WEIGHT fo) cfg\<rparr>)"

definition mjmpalgo_reset :: "('f, 'b) tops_scheme \<Rightarrow> 'f mjmpalgo \<Rightarrow> 'f mjmpalgo option" where
  "mjmpalgo_reset fo s =
     do { s \<leftarrow> mpalgo_reset s;
          let n = length (palgo_v s);
          if length (mj_weight_v s) < n \<or> length (mj_last_predicted_v_v s) < n then None
          else Some (s\<lparr>mj_last_predicted := [],
                 mj_weight_v := replicate n (INITIAL_MJ_WEIGHT fo) @ drop n (mj_weight_v s),
                 mj_last_predicted_v_v := replicate n [] @ drop n (mj_last_predicted_v_v s)\<rparr>) }"

text \<open>The loop that punishes the algorithms that missed \<open>acc\<close>: the new weights, and whether one fell
  below 10.\<close>

fun mj_punish ::
  "('f::linorder, 'b) tops_scheme \<Rightarrow> 'f \<Rightarrow> int \<Rightarrow> 'f list \<Rightarrow> int list list \<Rightarrow> ('f list \<times> bool) option" where
  "mj_punish fo beta acc [] ls = Some ([], False)"
| "mj_punish fo beta acc (w # ws) [] = None"
| "mj_punish fo beta acc (w # ws) (l # ls) =
     (let (w', low) = (if acc \<notin> set l
                       then let w' = f_add fo w (f_log2 fo beta) in (w', w' < f_of_int fo 10)
                       else (w, False))
      in do { (ws, low') \<leftarrow> mj_punish fo beta acc ws ls; Some (w' # ws, low \<or> low') })"

definition min_element :: "'f::linorder list \<Rightarrow> 'f" where
  "min_element xs = foldl (\<lambda>a x. if x < a then x else a) (hd xs) (tl xs)"

definition mj_replenish :: "('f::linorder, 'b) tops_scheme \<Rightarrow> 'f list \<Rightarrow> 'f list" where
  "mj_replenish fo ws =
     (let to_add_v = map (\<lambda>w. f_sub fo (INITIAL_MJ_WEIGHT fo) w) ws;
          to_add = min_element to_add_v
      in map (\<lambda>w. f_add fo w to_add) ws)"

definition mjmpalgo_add_access ::
  "('f::linorder, 'b) tops_scheme \<Rightarrow> timeval \<Rightarrow> 'f \<Rightarrow> int \<Rightarrow> 'f mjmpalgo \<Rightarrow> (rc \<times> 'f mjmpalgo) option" where
  "mjmpalgo_add_access fo now t acc s =
     do { (err, s) \<leftarrow> mpalgo_add_access_t fo now t acc s;
          if err \<noteq> 0 then Some (err, s)
          else if mj_last_predicted s = [] \<or> acc \<in> set (mj_last_predicted s) then Some (0, s)
          else do {
            (ws, low) \<leftarrow> mj_punish fo (mj_beta s) acc (mj_weight_v s) (mj_last_predicted_v_v s);
            Some (0, s\<lparr>mj_weight_v := (if low then mj_replenish fo ws else ws)\<rparr>) } }"

text \<open>\<open>std::distance(v.begin(), std::max_element(v.begin(), v.end()))\<close>: the first of the largest.\<close>

fun max_element :: "nat \<Rightarrow> 'f::linorder \<Rightarrow> nat \<Rightarrow> 'f list \<Rightarrow> nat" where
  "max_element i_max w_max i [] = i_max"
| "max_element i_max w_max i (w # ws) =
     (if w_max < w then max_element i w (Suc i) ws else max_element i_max w_max (Suc i) ws)"

definition heaviest :: "'f::linorder list \<Rightarrow> nat" where
  "heaviest ws = (case ws of [] \<Rightarrow> 0 | w # ws \<Rightarrow> max_element 0 w 1 ws)"

text \<open>What both variants do with the algorithm they picked.\<close>

definition mj_use ::
  "nat \<Rightarrow> int list \<Rightarrow> int list \<Rightarrow> 'f mjmpalgo \<Rightarrow> (rc \<times> int \<times> int list \<times> int list \<times> 'f mjmpalgo) option" where
  "mj_use i cached eacc s =
     (let s = s\<lparr>palgo_id_used_v := palgo_id_used_v s @ [int i]\<rparr> in
      if length (mj_last_predicted_v_v s) \<le> i then None
      else let out = mj_last_predicted_v_v s ! i;
               s = s\<lparr>mj_last_predicted := out\<rparr>
           in Some (0, int (length out), out, push_rest (acc_s s) cached out eacc, s))"

text \<open>The loop over the algorithms writes their predictions into a vector of as many elements: one that
  is too short is written out of bounds.\<close>

definition mj_ask ::
  "('f::linorder, 'b) tops_scheme \<Rightarrow> (nat \<Rightarrow> nat \<Rightarrow> 'f) \<Rightarrow> 'f \<Rightarrow> int \<Rightarrow> 'f mjmpalgo \<Rightarrow>
     (rc \<times> int \<times> 'f mjmpalgo) option" where
  "mj_ask fo rnd t num_acc s =
     do { (err, n, outs, ps) \<leftarrow> ask_all fo rnd t 0 num_acc (palgo_v s);
          if length (mj_last_predicted_v_v s) < length outs then None
          else Some (err, n, s\<lparr>palgo_v := ps,
                 mj_last_predicted_v_v := outs @ drop (length outs) (mj_last_predicted_v_v s)\<rparr>) }"

definition mjmpalgo_get_to_prefetch ::
  "('f::linorder, 'b) tops_scheme \<Rightarrow> (nat \<Rightarrow> nat \<Rightarrow> 'f) \<Rightarrow> 'f \<Rightarrow> int \<Rightarrow> int list \<Rightarrow> int list \<Rightarrow> int list \<Rightarrow>
     'f mjmpalgo \<Rightarrow> (rc \<times> int \<times> int list \<times> int list \<times> 'f mjmpalgo) option" where
  "mjmpalgo_get_to_prefetch fo rnd t num_acc out cached eacc s =
     do { (err, n, s) \<leftarrow> mj_ask fo rnd t num_acc s;
          if err \<noteq> 0 then Some (err, n, out, eacc, s)
          else mj_use (heaviest (mj_weight_v s)) cached eacc s }"

subsection \<open>RMJMPAlgo\<close>

text \<open>The roulette wheel: the first algorithm whose cumulated share exceeds the draw. If the shares add up
  to less, \<open>palgo_id\<close> is never assigned and its use is undefined.\<close>

fun spin :: "('f::linorder, 'b) tops_scheme \<Rightarrow> 'f \<Rightarrow> 'f \<Rightarrow> 'f \<Rightarrow> nat \<Rightarrow> 'f list \<Rightarrow> nat option" where
  "spin fo draw weight_sum prob_sum i [] = None"
| "spin fo draw weight_sum prob_sum i (w # ws) =
     (let prob_sum = f_add fo prob_sum (f_div fo (f_exp2 fo w) weight_sum) in
      if draw < prob_sum then Some i else spin fo draw weight_sum prob_sum (Suc i) ws)"

definition rmjmpalgo_get_to_prefetch ::
  "('f::linorder, 'b) tops_scheme \<Rightarrow> 'f \<Rightarrow> (nat \<Rightarrow> nat \<Rightarrow> 'f) \<Rightarrow> 'f \<Rightarrow> int \<Rightarrow> int list \<Rightarrow> int list \<Rightarrow> int list \<Rightarrow>
     'f mjmpalgo \<Rightarrow> (rc \<times> int \<times> int list \<times> int list \<times> 'f mjmpalgo) option" where
  "rmjmpalgo_get_to_prefetch fo draw rnd t num_acc out cached eacc s =
     do { (err, n, s) \<leftarrow> mj_ask fo rnd t num_acc s;
          if err \<noteq> 0 then Some (err, n, out, eacc, s)
          else do {
            let weight_sum = foldl (\<lambda>a w. f_add fo a (f_exp2 fo w)) (f_zero fo) (mj_weight_v s);
            i \<leftarrow> spin fo draw weight_sum (f_zero fo) 0 (mj_weight_v s);
            mj_use i cached eacc s } }"

subsection \<open>The ranking\<close>

lemma push_ranked_take:
  "int (length out) < n \<Longrightarrow> push_ranked n ks out = out @ take (nat n - length out) ks"
proof (induction ks arbitrary: out)
  case (Cons k ks)
  then have "nat n - length out = Suc (nat n - length (out @ [k]))" by auto
  with Cons show ?case by (cases "int (length (out @ [k])) = n") (auto simp: Let_def)
qed simp

lemma smap_ok_invert_aux: "smap_ok p \<Longrightarrow> smap_ok (foldl (\<lambda>p e. smap_put (snd e) (fst e) p) p m)"
  by (induction m arbitrary: p) (auto simp: smap_ok_put)

lemma invert_map_ok: "smap_ok (invert_map m)"
  by (simp add: invert_map_def smap_ok_invert_aux)

lemma map_of_invert_aux:
  assumes "smap_ok m"
  shows "map_of (foldl (\<lambda>p e. smap_put (snd e) (fst e) p) p0 m) p = Some k \<longleftrightarrow>
     (if \<exists>k'. (k', p) \<in> set m then (k, p) \<in> set m \<and> (\<forall>k'. (k', p) \<in> set m \<longrightarrow> k' \<le> k)
      else map_of p0 p = Some k)"
  using assms
proof (induction m arbitrary: p0)
  case (Cons e m)
  obtain k0 q where e: "e = (k0, q)" by force
  have m: "smap_ok m" and lt: "\<And>k' p. (k', p) \<in> set m \<Longrightarrow> k0 < k'"
    using Cons.prems by (auto simp: e smap_ok_def)
  show ?case
  proof (cases "\<exists>k'. (k', p) \<in> set m")
    case True
    then obtain k' where k': "(k', p) \<in> set m" by blast
    with lt have "k0 < k'" by blast
    with Cons.IH [OF m, of "smap_put q k0 p0"] True k' lt show ?thesis
      by (auto simp: e) (metis leD less_le_trans order_less_imp_le)+
  next
    case False
    with Cons.IH [OF m, of "smap_put q k0 p0"] show ?thesis by (auto simp: e)
  qed
qed simp

lemma map_of_invert:
  "smap_ok m \<Longrightarrow> map_of (invert_map m) p = Some k \<longleftrightarrow> map_of m k = Some p \<and> (\<forall>k'. map_of m k' = Some p \<longrightarrow> k' \<le> k)"
  unfolding invert_map_def by (subst map_of_invert_aux) (auto simp: sm.items_iff)

lemma invert_map_iff:
  assumes "smap_ok m"
  shows "(p, k) \<in> set (invert_map m) \<longleftrightarrow> map_of m k = Some p \<and> (\<forall>k'. map_of m k' = Some p \<longrightarrow> k' \<le> k)"
  using sm.items_iff [OF invert_map_ok, of p k m] map_of_invert [OF assms, of p k] by simp

lemma invert_map_probs:
  fixes m :: "('k::linorder, 'f::linorder) smap"
  assumes "smap_ok m"
  shows "fst ` set (invert_map m) = ran (map_of m)"
proof
  note iff = invert_map_iff [OF assms]
  show "fst ` set (invert_map m) \<subseteq> ran (map_of m)" using iff by (auto simp: ran_def)
  show "ran (map_of m) \<subseteq> fst ` set (invert_map m)"
  proof
    fix p assume "p \<in> ran (map_of m)"
    then have ne: "{k. map_of m k = Some p} \<noteq> {}" by (auto simp: ran_def)
    have fin: "finite {k. map_of m k = Some p}"
      by (rule finite_subset [OF _ finite_dom_map_of [of m]]) auto
    have "(p, Max {k. map_of m k = Some p}) \<in> set (invert_map m)"
      using Max_in [OF fin ne] Max_ge [OF fin] by (auto simp: iff)
    then show "p \<in> fst ` set (invert_map m)" by force
  qed
qed

lemma length_invert_map: "smap_ok m \<Longrightarrow> length (invert_map m) = card (ran (map_of m))"
  using sm.distinct_keys [OF invert_map_ok, of m] invert_map_probs [of m]
  by (metis distinct_card length_map list.set_map)

text \<open>The candidates from the most probable on.\<close>

definition ranked :: "('k, 'f::linorder) smap \<Rightarrow> ('f \<times> 'k) list" where
  "ranked m = rev (invert_map m)"

lemma ranked_sorted: "sorted_wrt (\<lambda>a b. fst b < fst a) (ranked m)"
  using invert_map_ok [of m] by (simp add: ranked_def sorted_wrt_rev smap_ok_def sorted_wrt_map)

lemma ranked_prob: "smap_ok m \<Longrightarrow> e \<in> set (ranked m) \<Longrightarrow> map_of m (snd e) = Some (fst e)"
  using invert_map_iff [of m "fst e" "snd e"] by (simp add: ranked_def)

lemma rank_keys_take: "0 < n \<Longrightarrow> rank_keys n m [] = map snd (take (nat n) (ranked m))"
  by (simp add: rank_keys_def push_ranked_take take_map ranked_def)

lemma ranked_take_prob:
  assumes "smap_ok m" "k \<in> snd ` set (take n (ranked m))"
  shows "(the (map_of m k), k) \<in> set (take n (ranked m)) \<and> (\<forall>k'. map_of m k' = map_of m k \<longrightarrow> k' \<le> k)"
proof -
  from assms(2) obtain p where p: "(p, k) \<in> set (take n (ranked m))" by auto
  then have "(p, k) \<in> set (invert_map m)" by (auto simp: ranked_def dest: in_set_takeD)
  with p show ?thesis unfolding invert_map_iff [OF assms(1)] by simp
qed

lemma ranked_take_best:
  assumes ok: "smap_ok m" and k': "k' \<in> dom (map_of m)"
  shows "(\<exists>k\<in>snd ` set (take n (ranked m)). the (map_of m k) = the (map_of m k')) \<or>
    (\<forall>k\<in>snd ` set (take n (ranked m)). the (map_of m k') < the (map_of m k))"
proof -
  let ?p = "the (map_of m k')"
  have "?p \<in> fst ` set (invert_map m)" using k' by (auto simp: invert_map_probs [OF ok] ran_def)
  then obtain k where k: "(?p, k) \<in> set (ranked m)" by (metis imageE prod.collapse ranked_def set_rev)
  show ?thesis
  proof (cases "(?p, k) \<in> set (take n (ranked m))")
    case True
    then show ?thesis using ranked_prob [OF ok k] by (intro disjI1 bexI [of _ k]) (auto simp: rev_image_eqI)
  next
    case False
    then have "(?p, k) \<in> set (drop n (ranked m))"
      using k append_take_drop_id [of n "ranked m"] by (metis Un_iff set_append)
    moreover have "sorted_wrt (\<lambda>a b. fst b < fst a) (take n (ranked m) @ drop n (ranked m))"
      by (simp add: ranked_sorted)
    ultimately have lt: "?p < fst e" if "e \<in> set (take n (ranked m))" for e
      using that unfolding sorted_wrt_append by fastforce
    show ?thesis using lt ranked_take_prob [OF ok] by fastforce
  qed
qed

text \<open>C36: asking for \<open>n > 0\<close> keys of a probability map gives them in strictly decreasing probability; of
  the keys with one probability only the largest is a candidate, there are as many results as candidates
  up to \<open>n\<close>, and a key that is left out is no more probable than any result.\<close>

theorem rank_keys_best:
  assumes ok: "smap_ok m" and n: "0 < n"
  shows "(let r = rank_keys n m []; P = (\<lambda>k. the (map_of m k)) in
     set r \<subseteq> dom (map_of m) \<and> sorted_wrt (\<lambda>a b. P b < P a) r \<and>
     length r = min (nat n) (card (ran (map_of m))) \<and>
     (\<forall>k\<in>set r. \<forall>k'. map_of m k' = map_of m k \<longrightarrow> k' \<le> k) \<and>
     (\<forall>k'\<in>dom (map_of m). (\<exists>k\<in>set r. P k = P k') \<or> (\<forall>k\<in>set r. P k' < P k)))"
proof -
  let ?P = "\<lambda>k. the (map_of m k)" and ?r = "rank_keys n m []"
  note r = rank_keys_take [OF n, of m]
  have 1: "set ?r \<subseteq> dom (map_of m)"
    using ranked_prob [OF ok] by (fastforce simp: r dest: in_set_takeD)
  have "sorted_wrt (\<lambda>a b. ?P (snd b) < ?P (snd a)) (take (nat n) (ranked m))"
  proof (rule sorted_wrt_mono_rel [OF _ sorted_wrt_take [OF ranked_sorted]])
    fix a b assume ab: "a \<in> set (take (nat n) (ranked m))" "b \<in> set (take (nat n) (ranked m))" "fst b < fst a"
    show "?P (snd b) < ?P (snd a)"
      using ab(3) ranked_prob [OF ok in_set_takeD [OF ab(1)]] ranked_prob [OF ok in_set_takeD [OF ab(2)]] by simp
  qed
  then have 2: "sorted_wrt (\<lambda>a b. ?P b < ?P a) ?r" by (simp add: r sorted_wrt_map)
  have 3: "length ?r = min (nat n) (card (ran (map_of m)))"
    by (simp add: r ranked_def length_invert_map [OF ok] min.commute)
  have 4: "\<forall>k\<in>set ?r. \<forall>k'. map_of m k' = map_of m k \<longrightarrow> k' \<le> k"
    using ranked_take_prob [OF ok] by (simp add: r)
  have 5: "\<forall>k'\<in>dom (map_of m). (\<exists>k\<in>set ?r. ?P k = ?P k') \<or> (\<forall>k\<in>set ?r. ?P k' < ?P k)"
    using ranked_take_best [OF ok] unfolding r set_map by blast
  show ?thesis unfolding Let_def using 1 2 3 4 5 by blast
qed

lemma rank_sample: "rank_keys 2 [(1 :: int, 5 :: int), (2, 9), (3, 5), (4, 1)] [] = [2, 3]"
  by (simp add: rank_keys_def invert_map_def)

theorem rank_keys_best_witness:
  "set (rank_keys 2 [(1 :: int, 5 :: int), (2, 9), (3, 5), (4, 1)] []) \<subseteq> {1, 2, 3, 4} \<and>
   length (rank_keys 2 [(1 :: int, 5 :: int), (2, 9), (3, 5), (4, 1)] []) = 2"
  using rank_keys_best [of "[(1 :: int, 5 :: int), (2, 9), (3, 5), (4, 1)]" 2]
  unfolding rank_sample Let_def by (simp add: smap_ok_def)

end
