(* ===== verification/PAlgo_Safe.thy ===== *)
theory PAlgo_Safe
  imports PAlgo_Mixed
begin

text \<open>
  The Markov algorithms and the mixtures of them are never undefined: the well-formedness of the parse
  trees (\<open>Parse_Tree_LZ\<close>, \<open>Parse_Tree_PPM\<close>) carried up through \<open>MAlgo\<close> and \<open>MPAlgo\<close>.
\<close>

definition markov_ok :: "'f parse_tree \<Rightarrow> bool" where
  "markov_ok pt \<longleftrightarrow> malgo_t pt \<in> {MALGO_W_LZ, MALGO_W_ALZ, MALGO_W_PO} \<or> (\<exists>n>0. ppm_ok n pt)"

lemma access_lz_malgo: "malgo_t (snd (add_access_w_lz k pt)) = malgo_t pt"
  by simp

lemma markov_ok_access:
  assumes "markov_ok pt"
  shows "\<exists>r pt'. pt_add_access fo now k pt = Some (r, pt') \<and> markov_ok pt'"
proof (cases "\<exists>n>0. ppm_ok n pt")
  case True
  then obtain n where n: "0 < n" "ppm_ok n pt" by blast
  from ppm_ok_step [OF n, of fo "PAccess now k"] n(1) show ?thesis
    by (auto simp: pt_step_def markov_ok_def)
next
  case False
  then have m: "malgo_t pt = MALGO_W_LZ \<or> malgo_t pt = MALGO_W_ALZ \<or> malgo_t pt = MALGO_W_PO"
    using assms by (auto simp: markov_ok_def)
  have "malgo_t (snd (add_access_w_po fo now k pt)) = malgo_t pt"
    by (simp add: add_access_w_po_def Let_def)
  then have "malgo_t (snd (the (pt_add_access fo now k pt))) = malgo_t pt" "pt_add_access fo now k pt \<noteq> None"
    using m unfolding pt_add_access_def
    by (elim disjE; simp add: access_lz_malgo access_alz_malgo malgo_defs)+
  then have "\<exists>a. pt_add_access fo now k pt = Some a \<and> malgo_t (snd a) = malgo_t pt" by auto
  with m show ?thesis by (auto simp: markov_ok_def)
qed

lemma markov_ok_predict:
  assumes "markov_ok pt"
  shows "markov_ok (snd (snd (pt_get_key_prob_map fo rnd pt m)))"
proof (cases "\<exists>n>0. ppm_ok n pt")
  case True
  then show ?thesis using ppm_ok_predict unfolding markov_ok_def by blast
next
  case False
  then have m: "malgo_t pt = MALGO_W_LZ \<or> malgo_t pt = MALGO_W_ALZ \<or> malgo_t pt = MALGO_W_PO"
    using assms by (auto simp: markov_ok_def)
  then have "malgo_t (snd (snd (pt_get_key_prob_map fo rnd pt m))) = malgo_t pt"
    unfolding pt_get_key_prob_map_def
    by (elim disjE) (simp_all add: get_key_prob_map_w_poisson_def malgo_defs Let_def)
  with m show ?thesis by (auto simp: markov_ok_def)
qed

lemma markov_ok_new:
  "t \<in> {MALGO_W_LZ, MALGO_W_ALZ, MALGO_W_PO} \<or> t = MALGO_W_PPM \<and> 0 < n \<Longrightarrow> markov_ok (parse_tree_new2 t n)"
  using ppm_ok_new [of n] by (auto simp: markov_ok_def) (auto simp: parse_tree_new2_def)

subsection \<open>MAlgo\<close>

definition malgo_ok :: "'f malgo \<Rightarrow> bool" where
  "malgo_ok s \<longleftrightarrow> markov_ok (parse_tree s)"

lemma malgo_ok_access:
  "malgo_ok s \<Longrightarrow> \<exists>r s'. malgo_add_access fo now k s = Some (r, s') \<and> malgo_ok s'"
  using markov_ok_access [of "parse_tree s" "fops.truncate fo" now k]
  by (auto simp: malgo_ok_def malgo_add_access_def palgo_add_access_def)

lemma malgo_ok_prob_map:
  "malgo_ok s \<Longrightarrow> malgo_ok (snd (snd (malgo_get_acc_prob_map fo rnd m s)))"
  using markov_ok_predict [of "parse_tree s" "fops.truncate fo" rnd m]
  by (auto simp: malgo_ok_def malgo_get_acc_prob_map_def split: prod.splits)

lemma malgo_ok_get:
  assumes "malgo_ok s" "malgo_get_to_prefetch fo rnd n out cached eacc s = (err, n', out', eacc', s')"
  shows "malgo_ok s'"
  using assms markov_ok_predict [of "parse_tree s" "fops.truncate fo" rnd "[]"]
  by (auto simp: malgo_ok_def malgo_get_to_prefetch_def pt_get_to_prefetch_def Let_def split: prod.splits)

subsection \<open>MPAlgo\<close>

definition pobj_ok :: "'f pobj \<Rightarrow> bool" where
  "pobj_ok p \<longleftrightarrow> (\<exists>s. p = MObj s \<and> malgo_ok s)"

lemma pobj_ok_access:
  assumes "pobj_ok p"
  shows "\<exists>r p'. pobj_add_access fo now k p = Some (r, p') \<and> pobj_ok p'"
proof -
  obtain s where s: "p = MObj s" "malgo_ok s" using assms by (auto simp: pobj_ok_def)
  from malgo_ok_access [OF s(2), of "fops.truncate fo" now k] s(1) show ?thesis
    by (auto simp: pobj_add_access_def pobj_ok_def)
qed

lemma pobj_ok_prob_map:
  assumes "pobj_ok p"
  shows "\<exists>m p'. pobj_get_acc_prob_map fo rnd p = Some (m, p') \<and> pobj_ok p'"
proof -
  obtain s where s: "p = MObj s" "malgo_ok s" using assms by (auto simp: pobj_ok_def)
  from malgo_ok_prob_map [OF s(2), of "fops.truncate fo" rnd "[]"] s(1) show ?thesis
    by (auto simp: pobj_get_acc_prob_map_def pobj_ok_def split: prod.splits)
qed

lemma each_until_err_ok:
  assumes "\<And>p. ok p \<Longrightarrow> \<exists>r p'. f p = Some (r, p') \<and> ok p'" and "\<forall>p\<in>set ps. ok p"
  shows "\<exists>r ps'. each_until_err f ps = Some (r, ps') \<and> (\<forall>p\<in>set ps'. ok p)"
  using assms(2)
proof (induction ps)
  case (Cons p ps)
  obtain r p' where p: "f p = Some (r, p')" "ok p'" using assms(1) Cons(2) by force
  obtain q ps' where "each_until_err f ps = Some (q, ps')" "\<forall>p\<in>set ps'. ok p" using Cons by auto
  with p Cons(2) show ?case by auto
qed simp

lemma collect_ok:
  assumes "\<And>i p. ok p \<Longrightarrow> \<exists>r p'. f i p = Some (r, p') \<and> ok p'" and "\<forall>p\<in>set ps. ok p"
  shows "\<exists>rs ps'. collect f i ps = Some (rs, ps') \<and> (\<forall>p\<in>set ps'. ok p)"
  using assms(2)
proof (induction ps arbitrary: i)
  case (Cons p ps)
  obtain r p' where p: "f i p = Some (r, p')" "ok p'" using assms(1) Cons(2) by force
  obtain rs ps' where "collect f (Suc i) ps = Some (rs, ps')" "\<forall>p\<in>set ps'. ok p"
    using Cons(1) [of "Suc i"] Cons(2) by auto
  with p show ?case by auto
qed simp

definition mpalgo_ok :: "('f, 'a) mpalgo_scheme \<Rightarrow> bool" where
  "mpalgo_ok s \<longleftrightarrow> (\<forall>p\<in>set (palgo_v s). pobj_ok p)"

lemma mpalgo_ok_access:
  assumes "mpalgo_ok s"
  shows "\<exists>r s'. mpalgo_add_access fo now k s = Some (r, s') \<and> mpalgo_ok s'"
proof -
  have "\<exists>r ps. each_until_err (pobj_add_access fo now k) (palgo_v s) = Some (r, ps) \<and> (\<forall>p\<in>set ps. pobj_ok p)"
    by (rule each_until_err_ok [OF pobj_ok_access]) (use assms in \<open>auto simp: mpalgo_ok_def\<close>)
  then show ?thesis by (auto simp: mpalgo_add_access_def palgo_add_access_def mpalgo_ok_def)
qed

lemma mmpalgo_ok_get:
  assumes "mpalgo_ok s"
  shows "\<exists>n' out' eacc' s'. mmpalgo_get_to_prefetch fo rnd n out cached eacc s = Some (0, n', out', eacc', s') \<and> mpalgo_ok s'"
proof -
  have "\<exists>ms ps. prob_maps fo rnd (palgo_v s) = Some (ms, ps) \<and> (\<forall>p\<in>set ps. pobj_ok p)"
    unfolding prob_maps_def
    by (rule collect_ok [OF pobj_ok_prob_map]) (use assms in \<open>auto simp: mpalgo_ok_def\<close>)
  then show ?thesis by (auto simp: mmpalgo_get_to_prefetch_def mpalgo_ok_def Let_def)
qed

end
