(* ===== verification/Cache.thy ===== *)
theory Cache
  imports Patch
begin

text \<open>
  \<open>Cache<ACC_T, T>\<close> of \<open>sdm_control/prefetch/include/prefetch.h\<close>: a bounded FIFO of data items, each
  put there on behalf of an accessor (a producer id), with the number of items every accessor has in
  the cache. The deletion callback is modelled by the list of items it is called with, in order.
\<close>

subsection \<open>State and operations\<close>

record ('a, 'e) cache =
  cache_max_size :: int
  cache_cb :: bool
  cache_deq :: "'e list"
  e_acc_map :: "('e, 'a) smap"
  acc_num_map :: "('a, int) smap"

definition cache_new :: "int \<Rightarrow> bool \<Rightarrow> ('a, 'e) cache" where
  "cache_new n cb = \<lparr>cache_max_size = n, cache_cb = cb, cache_deq = [], e_acc_map = [], acc_num_map = []\<rparr>"

definition cache_reset :: "('a, 'e) cache \<Rightarrow> rc \<times> ('a, 'e) cache" where
  "cache_reset s = (0, s\<lparr>cache_deq := [], e_acc_map := [], acc_num_map := []\<rparr>)"

definition cache_contains :: "'e \<Rightarrow> ('a, 'e) cache \<Rightarrow> bool" where
  "cache_contains e s = (e \<in> set (cache_deq s))"

text \<open>\<open>acc_num_map[acc] += k\<close>: a missing counter starts at 0.\<close>

definition acc_num_add :: "'a::linorder \<Rightarrow> int \<Rightarrow> ('a, 'e) cache \<Rightarrow> ('a, 'e) cache" where
  "acc_num_add acc k s =
     s\<lparr>acc_num_map := smap_put acc (smap_get 0 acc (acc_num_map s) + k) (acc_num_map s)\<rparr>"

definition cache_del ::
  "'a::linorder \<Rightarrow> 'e \<Rightarrow> ('a, 'e) cache \<Rightarrow> (rc \<times> 'e list \<times> ('a, 'e) cache) option" where
  "cache_del acc e s =
     (if \<not> cache_contains e s then Some (1, [], s)
      else do {
        let calls = (if cache_cb s then [e] else []);
        let s = acc_num_add acc (- 1) s;
        m \<leftarrow> tsmap_del e (e_acc_map s);
        let s = s\<lparr>e_acc_map := m\<rparr>;
        q \<leftarrow> erase_find e (cache_deq s);
        Some (0, calls, s\<lparr>cache_deq := q\<rparr>) })"

text \<open>\<open>front\<close> of an empty deque is undefined. \<open>return_if_err\<close> passes on the code of \<open>del\<close>. The value
  \<open>d\<close> is what \<open>operator[]\<close> inserts for a missing key, \<open>ACC_T()\<close>.\<close>

definition cache_pop ::
  "'a::linorder \<Rightarrow> ('a, 'e::linorder) cache \<Rightarrow> (rc \<times> 'e list \<times> ('a, 'e) cache) option" where
  "cache_pop d s =
     (case cache_deq s of
        [] \<Rightarrow> None
      | e # _ \<Rightarrow>
          let (acc, m) = tsmap_at d e (e_acc_map s)
          in cache_del acc e (s\<lparr>e_acc_map := m\<rparr>))"

text \<open>The return code of \<open>pop\<close> is ignored.\<close>

definition cache_push ::
  "'a::linorder \<Rightarrow> 'a \<Rightarrow> 'e::linorder \<Rightarrow> ('a, 'e) cache \<Rightarrow> (rc \<times> 'e list \<times> ('a, 'e) cache) option" where
  "cache_push d acc e s =
     (if cache_contains e s then Some (1, [], s)
      else do {
        (calls, s) \<leftarrow> (if int (length (cache_deq s)) = cache_max_size s
                      then map_option snd (cache_pop d s) else Some ([], s));
        let s = acc_num_add acc 1 s;
        let s = s\<lparr>e_acc_map := smap_put e acc (e_acc_map s)\<rparr>;
        Some (0, calls, s\<lparr>cache_deq := cache_deq s @ [e]\<rparr>) })"

definition get_available_size :: "('a, 'e) cache \<Rightarrow> int" where
  "get_available_size s = cache_max_size s - int (length (cache_deq s))"

definition get_content_v :: "('a, 'e) cache \<Rightarrow> 'e list" where
  "get_content_v s = cache_deq s"

definition get_cached_acc_v :: "('a, 'e) cache \<Rightarrow> 'a list" where
  "get_cached_acc_v s = map fst (filter (\<lambda>p. 0 < snd p) (acc_num_map s))"

subsection \<open>The invariant\<close>

text \<open>Every item in the deque is there once and has an accessor, every counter is the number of items
  of its accessor, and the deque does not outgrow \<open>max_size\<close>.\<close>

definition acc_of :: "('a, 'e) cache \<Rightarrow> 'e \<Rightarrow> 'a option" where
  "acc_of s e = map_of (e_acc_map s) e"

definition cache_ok :: "('a::linorder, 'e::linorder) cache \<Rightarrow> bool" where
  "cache_ok s \<longleftrightarrow>
     distinct (cache_deq s) \<and> smap_ok (e_acc_map s) \<and> smap_ok (acc_num_map s) \<and>
     (\<forall>e. smap_contains e (e_acc_map s) \<longleftrightarrow> e \<in> set (cache_deq s)) \<and>
     (\<forall>a. smap_get 0 a (acc_num_map s) = int (length (filter (\<lambda>e. acc_of s e = Some a) (cache_deq s)))) \<and>
     int (length (cache_deq s)) \<le> cache_max_size s"

lemma cache_ok_new: "0 \<le> n \<Longrightarrow> cache_ok (cache_new n cb)"
  by (simp add: cache_ok_def cache_new_def)

lemma cache_ok_reset: "cache_ok s \<Longrightarrow> cache_ok (snd (cache_reset s))"
  by (auto simp: cache_ok_def cache_reset_def)

lemma cache_okD:
  assumes "cache_ok s"
  shows "distinct (cache_deq s)" "smap_ok (e_acc_map s)" "smap_ok (acc_num_map s)"
    "smap_contains e (e_acc_map s) \<longleftrightarrow> e \<in> set (cache_deq s)"
    "smap_get 0 a (acc_num_map s) = int (length (filter (\<lambda>e. acc_of s e = Some a) (cache_deq s)))"
    "int (length (cache_deq s)) \<le> cache_max_size s"
  using assms by (simp_all add: cache_ok_def)

lemma acc_of_in: "cache_ok s \<Longrightarrow> e \<in> set (cache_deq s) \<Longrightarrow> \<exists>a. acc_of s e = Some a"
  using cache_okD(4) [of s e] by (auto simp: acc_of_def smap_contains_def)

lemma filter_remove1_other: "e \<notin> set xs \<or> \<not> P e \<Longrightarrow> filter P (remove1 e xs) = filter P xs"
  by (induction xs) auto

lemma filter_acc_upd:
  "distinct xs \<Longrightarrow> filter (\<lambda>x. (f(e := None)) x = Some a) (remove1 e xs) = filter (\<lambda>x. f x = Some a) (remove1 e xs)"
  by (rule filter_cong [OF refl]) auto

text \<open>Deleting an item on behalf of its own accessor: the one way the buffer above calls \<open>del\<close>.\<close>

lemma cache_del_spec:
  assumes "cache_ok s" "e \<in> set (cache_deq s)"
  shows "cache_del acc e s = Some (0, if cache_cb s then [e] else [],
     s\<lparr>cache_deq := remove1 e (cache_deq s), e_acc_map := smap_erase e (e_acc_map s),
       acc_num_map := smap_put acc (smap_get 0 acc (acc_num_map s) - 1) (acc_num_map s)\<rparr>)"
  using assms cache_okD(4) [OF assms(1), of e] by (simp add: cache_del_def cache_contains_def acc_num_add_def)

lemma cache_ok_del:
  assumes ok: "cache_ok s" and e: "acc_of s e = Some acc" "cache_del acc e s = Some (r, calls, s')"
  shows "cache_ok s'"
proof (cases "e \<in> set (cache_deq s)")
  case False
  with e ok show ?thesis by (simp add: cache_del_def cache_contains_def)
next
  case True
  note D = cache_okD [OF ok]
  have s': "s' = s\<lparr>cache_deq := remove1 e (cache_deq s), e_acc_map := smap_erase e (e_acc_map s),
       acc_num_map := smap_put acc (smap_get 0 acc (acc_num_map s) - 1) (acc_num_map s)\<rparr>"
    using cache_del_spec [OF ok True, of acc] e(2) by simp
  have acc': "acc_of s' = (acc_of s)(e := None)" by (auto simp: s' acc_of_def)
  have num: "smap_get 0 a (acc_num_map s') = int (length (filter (\<lambda>e. acc_of s' e = Some a) (cache_deq s')))" for a
  proof -
    have "length (filter (\<lambda>x. acc_of s x = Some a) (remove1 e (cache_deq s))) =
        length (filter (\<lambda>x. acc_of s x = Some a) (cache_deq s)) - (if a = acc then 1 else 0)"
      using length_filter_remove1 [OF True, of "\<lambda>x. acc_of s x = Some a"] e(1) by simp
    moreover have "filter (\<lambda>x. acc_of s x = Some acc) (cache_deq s) \<noteq> []"
      using True e(1) by (auto simp: filter_empty_conv)
    then have "Suc 0 \<le> length (filter (\<lambda>x. acc_of s x = Some acc) (cache_deq s))"
      by (simp add: Suc_le_eq)
    ultimately show ?thesis
      unfolding acc' using D(1,5) by (simp add: s' filter_acc_upd del: fun_upd_apply)
  qed
  have len: "int (length (cache_deq s')) \<le> cache_max_size s'"
    using D(6) True by (simp add: s' length_remove1)
  have dis: "distinct (cache_deq s')" and ok': "smap_ok (e_acc_map s')" "smap_ok (acc_num_map s')"
    using D(1-3) by (simp_all add: s' smap_ok_intros)
  have dom: "smap_contains x (e_acc_map s') \<longleftrightarrow> x \<in> set (cache_deq s')" for x
    using D(1) D(4) [of x] by (auto simp: s')
  show ?thesis unfolding cache_ok_def using dis ok' dom num len by blast
qed

lemma cache_pop_spec:
  assumes ok: "cache_ok s" and q: "cache_deq s = e # q"
  shows "\<exists>acc. acc_of s e = Some acc \<and> cache_pop d s = cache_del acc e s"
proof -
  obtain acc where a: "acc_of s e = Some acc" using acc_of_in [OF ok, of e] q by auto
  then have "smap_contains e (e_acc_map s)" "smap_get d e (e_acc_map s) = acc"
    by (auto simp: acc_of_def smap_contains_def smap_get_def)
  with a q show ?thesis by (simp add: cache_pop_def tsmap_at_def smap_touch_def)
qed

lemma cache_ok_add:
  assumes ok: "cache_ok s" and e: "e \<notin> set (cache_deq s)" and room: "int (length (cache_deq s)) < cache_max_size s"
  shows "cache_ok (s\<lparr>cache_deq := cache_deq s @ [e], e_acc_map := smap_put e acc (e_acc_map s),
       acc_num_map := smap_put acc (smap_get 0 acc (acc_num_map s) + 1) (acc_num_map s)\<rparr>)" (is "cache_ok ?t")
proof -
  note D = cache_okD [OF ok]
  have acc': "acc_of ?t = (acc_of s)(e \<mapsto> acc)" by (auto simp: acc_of_def)
  have "filter (\<lambda>x. acc_of ?t x = Some a) (cache_deq s) = filter (\<lambda>x. acc_of s x = Some a) (cache_deq s)" for a
    using e unfolding acc' by (intro filter_cong) auto
  moreover have "acc_of ?t e = Some acc" by (simp add: acc')
  ultimately have num: "smap_get 0 a (acc_num_map ?t) = int (length (filter (\<lambda>e. acc_of ?t e = Some a) (cache_deq ?t)))" for a
    using D(5) [of a] D(5) [of acc] by (simp add: acc_of_def)
  show ?thesis unfolding cache_ok_def
    using D(1-4,6) e room num by (auto simp: smap_ok_intros)
qed

text \<open>\<open>push\<close> of an item that is already there changes nothing; otherwise the oldest item makes room if
  the deque is full.\<close>

definition fifo_push :: "nat \<Rightarrow> 'e \<Rightarrow> 'e list \<Rightarrow> 'e list" where
  "fifo_push n e q = (if e \<in> set q then q else (if length q = n then tl q else q) @ [e])"

lemma cache_push_room:
  assumes "cache_ok s" "e \<notin> set (cache_deq s)" "int (length (cache_deq s)) \<noteq> cache_max_size s"
  shows "cache_push d acc e s = Some (0, [], s\<lparr>cache_deq := cache_deq s @ [e], e_acc_map := smap_put e acc (e_acc_map s),
       acc_num_map := smap_put acc (smap_get 0 acc (acc_num_map s) + 1) (acc_num_map s)\<rparr>)"
  using assms by (simp add: cache_push_def cache_contains_def acc_num_add_def)

lemma cache_push_spec:
  assumes ok: "cache_ok s" and n: "cache_max_size s = int n" "0 < n"
  shows "\<exists>r calls s'. cache_push d acc e s = Some (r, calls, s') \<and> cache_ok s' \<and>
     cache_deq s' = fifo_push n e (cache_deq s) \<and> cache_max_size s' = cache_max_size s \<and>
     acc_of s' = (if e \<in> set (cache_deq s) then acc_of s
       else (if length (cache_deq s) = n then (acc_of s)(hd (cache_deq s) := None) else acc_of s)(e \<mapsto> acc))"
proof (cases "e \<in> set (cache_deq s)")
  case True
  with ok show ?thesis by (auto simp: cache_push_def cache_contains_def fifo_push_def)
next
  case new: False
  show ?thesis
  proof (cases "length (cache_deq s) = n")
    case False
    then have "int (length (cache_deq s)) < cache_max_size s" using cache_okD(6) [OF ok] n by simp
    with cache_push_room [OF ok new] cache_ok_add [OF ok new] new False show ?thesis
      by (auto simp: fifo_push_def acc_of_def)
  next
    case True
    then obtain x q where q: "cache_deq s = x # q" using n by (cases "cache_deq s") auto
    from cache_pop_spec [OF ok q] obtain a where a: "acc_of s x = Some a" "cache_pop d s = cache_del a x s" by blast
    have x: "x \<in> set (cache_deq s)" using q by simp
    note del = cache_del_spec [OF ok x, of a]
    define t where "t = s\<lparr>cache_deq := remove1 x (cache_deq s), e_acc_map := smap_erase x (e_acc_map s),
       acc_num_map := smap_put a (smap_get 0 a (acc_num_map s) - 1) (acc_num_map s)\<rparr>"
    have t: "cache_ok t" using cache_ok_del [OF ok a(1) del] by (simp add: t_def)
    have tq: "cache_deq t = q" "cache_max_size t = int n" by (simp_all add: t_def q n)
    have et: "e \<notin> set (cache_deq t)" using new q tq by simp
    have room: "int (length (cache_deq t)) < cache_max_size t" using True q tq by simp
    have "cache_push d acc e s = Some (0, if cache_cb s then [x] else [],
        t\<lparr>cache_deq := cache_deq t @ [e], e_acc_map := smap_put e acc (e_acc_map t),
       acc_num_map := smap_put acc (smap_get 0 acc (acc_num_map t) + 1) (acc_num_map t)\<rparr>)"
      using new True n a(2) del by (simp add: cache_push_def cache_contains_def acc_num_add_def flip: t_def)
    with cache_ok_add [OF t et room] new True q tq show ?thesis
      by (auto simp: fifo_push_def acc_of_def t_def)
  qed
qed

subsection \<open>The contract of a bounded buffer\<close>

text \<open>What a client relies on: pushing and deleting are always defined, keep the provider's invariant
  and act on the content as on an abstract bounded first-in-first-out list.\<close>

datatype 'e cache_op = Push 'e | Del 'e | Reset

fun fifo_op :: "nat \<Rightarrow> 'e cache_op \<Rightarrow> 'e list \<Rightarrow> 'e list" where
  "fifo_op n (Push e) q = fifo_push n e q"
| "fifo_op n (Del e) q = remove1 e q"
| "fifo_op n Reset q = []"

locale bounded_buffer =
  fixes ok :: "'s \<Rightarrow> bool"
    and content :: "'s \<Rightarrow> 'e list"
    and limit :: "'s \<Rightarrow> nat"
    and step :: "'e cache_op \<Rightarrow> 's \<Rightarrow> 's option"
  assumes step_spec: "ok s \<Longrightarrow> \<exists>s'. step op s = Some s' \<and> ok s' \<and> limit s' = limit s \<and>
      content s' = fifo_op (limit s) op (content s)"
    and bounded: "ok s \<Longrightarrow> length (content s) \<le> limit s \<and> distinct (content s)"
begin

lemma run_spec:
  "ok s \<Longrightarrow> \<exists>s'. ops_run step ops s = Some s' \<and> ok s' \<and> limit s' = limit s \<and>
     content s' = fold (fifo_op (limit s)) ops (content s)"
proof (induction ops arbitrary: s)
  case (Cons op ops)
  obtain t where t: "step op s = Some t" "ok t" "limit t = limit s" "content t = fifo_op (limit s) op (content s)"
    using step_spec [OF Cons(2)] by blast
  with Cons(1) [OF t(2)] show ?case by auto
qed simp

lemma run_bounded: "ok s \<Longrightarrow> ops_run step ops s = Some s' \<Longrightarrow> length (content s') \<le> limit s \<and> distinct (content s')"
  using run_spec [of s ops] bounded [of s'] by auto

text \<open>The last item pushed is there.\<close>

lemma run_push_last: "ok s \<Longrightarrow> \<exists>s'. ops_run step (ops @ [Push e]) s = Some s' \<and> e \<in> set (content s')"
  using run_spec [of s "ops @ [Push e]"] by (auto simp: fifo_push_def)

end

text \<open>The model's cache, every item on behalf of the one accessor \<open>reg e\<close> it is registered for, as
  \<open>MPBuffer\<close> does.\<close>

definition cache_step ::
  "'a::linorder \<Rightarrow> ('e::linorder \<Rightarrow> 'a) \<Rightarrow> 'e cache_op \<Rightarrow> ('a, 'e) cache \<Rightarrow> ('a, 'e) cache option" where
  "cache_step d reg op s =
     (case op of
        Push e \<Rightarrow> map_option (\<lambda>(_, _, s). s) (cache_push d (reg e) e s)
      | Del e \<Rightarrow> map_option (\<lambda>(_, _, s). s) (cache_del (reg e) e s)
      | Reset \<Rightarrow> Some (snd (cache_reset s)))"

definition cache_reg_ok :: "('e::linorder \<Rightarrow> 'a::linorder) \<Rightarrow> ('a, 'e) cache \<Rightarrow> bool" where
  "cache_reg_ok reg s \<longleftrightarrow> cache_ok s \<and> 0 < cache_max_size s \<and>
     (\<forall>e\<in>set (cache_deq s). acc_of s e = Some (reg e))"

definition cache_limit :: "('a, 'e) cache \<Rightarrow> nat" where
  "cache_limit s = nat (cache_max_size s)"

lemma cache_step_spec:
  assumes "cache_reg_ok reg s"
  shows "\<exists>s'. cache_step d reg op s = Some s' \<and> cache_reg_ok reg s' \<and> cache_limit s' = cache_limit s \<and>
      cache_deq s' = fifo_op (cache_limit s) op (cache_deq s)"
proof -
  have ok: "cache_ok s" and pos: "0 < cache_max_size s"
    and reg: "\<And>e. e \<in> set (cache_deq s) \<Longrightarrow> acc_of s e = Some (reg e)"
    using assms by (auto simp: cache_reg_ok_def)
  show ?thesis
  proof (cases op)
    case (Push e)
    have n: "cache_max_size s = int (cache_limit s)" "0 < cache_limit s" using pos by (auto simp: cache_limit_def)
    obtain r calls s' where s': "cache_push d (reg e) e s = Some (r, calls, s')" "cache_ok s'"
      "cache_deq s' = fifo_push (cache_limit s) e (cache_deq s)" "cache_max_size s' = cache_max_size s"
      "acc_of s' = (if e \<in> set (cache_deq s) then acc_of s
       else (if length (cache_deq s) = cache_limit s then (acc_of s)(hd (cache_deq s) := None) else acc_of s)(e \<mapsto> reg e))"
      using cache_push_spec [OF ok n, of d "reg e" e] by blast
    have "\<forall>x\<in>set (cache_deq s'). acc_of s' x = Some (reg x)"
      using reg cache_okD(1) [OF ok] n(2) unfolding s'(3,5) fifo_push_def
      by (cases "cache_deq s") (auto dest: list.set_sel)
    with s' pos show ?thesis by (auto simp: cache_step_def Push cache_reg_ok_def cache_limit_def)
  next
    case (Del e)
    show ?thesis
    proof (cases "e \<in> set (cache_deq s)")
      case True
      note sp = cache_del_spec [OF ok True, of "reg e"]
      have "cache_ok (s\<lparr>cache_deq := remove1 e (cache_deq s), e_acc_map := smap_erase e (e_acc_map s),
          acc_num_map := smap_put (reg e) (smap_get 0 (reg e) (acc_num_map s) - 1) (acc_num_map s)\<rparr>)"
        by (rule cache_ok_del [OF ok reg [OF True] sp])
      moreover have "x \<noteq> e" if "x \<in> set (remove1 e (cache_deq s))" for x
        using that cache_okD(1) [OF ok] by auto
      ultimately show ?thesis
        using reg pos by (auto simp: cache_step_def Del sp cache_reg_ok_def acc_of_def cache_limit_def dest: notin_set_remove1)
    next
      case False
      then show ?thesis
        using assms by (simp add: cache_step_def Del cache_del_def cache_contains_def remove1_idem)
    qed
  next
    case Reset
    then show ?thesis using cache_ok_reset [OF ok] pos
      by (auto simp: cache_step_def cache_reg_ok_def cache_reset_def cache_limit_def)
  qed
qed

interpretation mc: bounded_buffer "cache_reg_ok reg" cache_deq cache_limit "cache_step d reg"
  for reg :: "'e::linorder \<Rightarrow> 'a::linorder" and d :: 'a
proof
  show "cache_reg_ok reg s \<Longrightarrow> \<exists>s'. cache_step d reg op s = Some s' \<and> cache_reg_ok reg s' \<and>
      cache_limit s' = cache_limit s \<and> cache_deq s' = fifo_op (cache_limit s) op (cache_deq s)" for s op
    by (rule cache_step_spec)
  show "cache_reg_ok reg s \<Longrightarrow> length (cache_deq s) \<le> cache_limit s \<and> distinct (cache_deq s)"
    for s :: "('a, 'e) cache"
    by (auto simp: cache_reg_ok_def cache_limit_def cache_ok_def)
qed

lemma cache_new_simps [simp]:
  "cache_limit (cache_new (int n) cb) = n" "cache_deq (cache_new i cb) = []"
  by (simp_all add: cache_limit_def cache_new_def)

lemma cache_reg_ok_new: "0 < n \<Longrightarrow> cache_reg_ok reg (cache_new (int n) cb)"
  by (simp add: cache_reg_ok_def cache_ok_new) (simp add: cache_new_def)

subsection \<open>Properties\<close>

text \<open>C15: a cache of positive size run through any pushes, deletions and resets is never undefined and
  refines the abstract bounded first-in-first-out list; its counters stay exact.\<close>

theorem cache_refines_fifo:
  assumes "0 < n"
  shows "\<exists>s. ops_run (cache_step d reg) ops (cache_new (int n) cb) = Some s \<and> cache_ok s \<and>
     cache_deq s = fold (fifo_op n) ops [] \<and> length (cache_deq s) \<le> n"
proof -
  from mc.run_spec [where d = d and ops = ops and reg = reg, OF cache_reg_ok_new [OF assms, of reg cb]]
    mc.run_bounded [where d = d and ops = ops and reg = reg, OF cache_reg_ok_new [OF assms, of reg cb]]
  show ?thesis by (auto simp: cache_reg_ok_def)
qed

theorem cache_refines_fifo_witness:
  "\<exists>s. ops_run (cache_step (0 :: int) (\<lambda>e. e mod 2)) [Push (1 :: int), Push 2, Push 3, Del 2] (cache_new (int 2) True) = Some s
     \<and> cache_ok s \<and> cache_deq s = [3] \<and> length (cache_deq s) \<le> 2"
  using cache_refines_fifo [of 2 "0 :: int" "\<lambda>e. e mod 2" "[Push (1 :: int), Push 2, Push 3, Del 2]" True]
  by (simp add: fifo_push_def)

text \<open>C35: \<open>get_cached_acc_v\<close> returns, in increasing order and once each, exactly the accessors that have
  an item in the cache.\<close>

theorem cached_acc_exact:
  assumes "cache_ok s"
  shows "set (get_cached_acc_v s) = {a. \<exists>e\<in>set (cache_deq s). acc_of s e = Some a} \<and>
    sorted_wrt (<) (get_cached_acc_v s)"
proof -
  note D = cache_okD [OF assms]
  have "a \<in> set (get_cached_acc_v s) \<longleftrightarrow> (\<exists>e\<in>set (cache_deq s). acc_of s e = Some a)" for a
  proof -
    have "a \<in> set (get_cached_acc_v s) \<longleftrightarrow> 0 < smap_get 0 a (acc_num_map s)"
      using sm.items_iff [OF D(3), of a]
      by (force simp: get_cached_acc_v_def smap_get_def split: option.splits)
    also have "\<dots> \<longleftrightarrow> (\<exists>e\<in>set (cache_deq s). acc_of s e = Some a)"
      unfolding D(5) by (auto simp: filter_empty_conv)
    finally show ?thesis .
  qed
  then have 1: "set (get_cached_acc_v s) = {a. \<exists>e\<in>set (cache_deq s). acc_of s e = Some a}" by blast
  have "sorted_wrt (<) (map fst (filter P m))" if "sorted_wrt (<) (map fst m)" for P and m :: "('a, int) smap"
    using that by (induction m) auto
  with D(3) have "sorted_wrt (<) (get_cached_acc_v s)"
    unfolding get_cached_acc_v_def smap_ok_def by blast
  with 1 show ?thesis by blast
qed

definition sample_cache :: "(int, int) cache" where
  "sample_cache = \<lparr>cache_max_size = 2, cache_cb = True, cache_deq = [8, 7], e_acc_map = [(7, 3), (8, 5)],
     acc_num_map = [(1, 0), (3, 1), (5, 1)]\<rparr>"

lemma sample_cache_ok: "cache_ok sample_cache"
  by (auto simp: cache_ok_def sample_cache_def smap_ok_def smap_contains_def smap_get_def acc_of_def)

theorem cached_acc_exact_witness:
  "get_cached_acc_v sample_cache = [3, 5] \<and>
   set (get_cached_acc_v sample_cache) = {a. \<exists>e\<in>set (cache_deq sample_cache). acc_of sample_cache e = Some a}"
  using cached_acc_exact [OF sample_cache_ok] by (simp add: get_cached_acc_v_def sample_cache_def)

end
