(* ===== verification/MPBuffer.thy ===== *)
theory MPBuffer
  imports PAlgo_Safe Cache "HOL-Library.Char_ord" "HOL-Library.List_Lexorder" "HOL-Library.Product_Lexorder"
begin

text \<open>
  \<open>MPBuffer\<close> of \<open>sdm_control/prefetch/prefetch.cpp\<close>: the prefetch buffer a data space keeps for the items
  other data spaces hold. Producers register their items in order; an access to one feeds the producer to
  the prediction algorithm, which names the producers to serve next, and for each of them the item after
  its last accessed one is prefetched into the \<open>Cache\<close>. The calls of
  \<open>handle_mpbuffer_data_act_cb\<close> are returned as a list of actions, in order. The functions declared
  \<open>int\<close> that end without a \<open>return\<close> have no caller that reads the value; it is left out here.
\<close>

type_synonym key_ver = "string \<times> u32"

subsection \<open>The algorithm behind palgo_to_pick_app_\<close>

datatype 'f app_algo = AppM "'f malgo" | AppMM "'f mpalgo"

definition MPALGO_W_MC :: char where "MPALGO_W_MC = CHR ''m''"

text \<open>An unknown type exits the process.\<close>

definition app_algo_new :: "char \<Rightarrow> 'f app_algo option" where
  "app_algo_new t =
     (if t = MALGO_W_LZ then Some (AppM (malgo_new MALGO_W_LZ 0))
      else if t = MALGO_W_ALZ then Some (AppM (malgo_new MALGO_W_ALZ 0))
      else if t = MALGO_W_PPM then Some (AppM (malgo_new MALGO_W_PPM 4))
      else if t = MALGO_W_PO then Some (AppM (malgo_new MALGO_W_PO 0))
      else if t = MPALGO_W_MC then Some (AppMM (mpalgo_new [(MALGO_W_PPM, 3), (MALGO_W_PPM, 4)]))
      else None)"

definition app_add_access ::
  "('f::linorder, 'b) tops_scheme \<Rightarrow> timeval \<Rightarrow> int \<Rightarrow> 'f app_algo \<Rightarrow> (rc \<times> 'f app_algo) option" where
  "app_add_access fo now acc a =
     (case a of
        AppM s \<Rightarrow> map_option (map_prod id AppM) (malgo_add_access (fops.truncate fo) now acc s)
      | AppMM s \<Rightarrow> map_option (map_prod id AppMM) (mpalgo_add_access fo now acc s))"

definition app_get_to_prefetch ::
  "('f::linorder, 'b) tops_scheme \<Rightarrow> (nat \<Rightarrow> nat \<Rightarrow> 'f) \<Rightarrow> int \<Rightarrow> int list \<Rightarrow> 'f app_algo \<Rightarrow>
     (int \<times> int list \<times> int list \<times> 'f app_algo) option" where
  "app_get_to_prefetch fo rnd num_app cached a =
     (case a of
        AppM s \<Rightarrow> (let (_, n, out, eacc, s) = malgo_get_to_prefetch (fops.truncate fo) (rnd 0) num_app [] cached [] s
                   in Some (n, out, eacc, AppM s))
      | AppMM s \<Rightarrow> do { (_, n, out, eacc, s) \<leftarrow> mmpalgo_get_to_prefetch fo rnd num_app [] cached [] s;
                        Some (n, out, eacc, AppMM s) })"

subsection \<open>State\<close>

record 'f mpbuffer =
  mb_ds_id :: int
  max_num_key_ver :: int
  w_prefetch :: bool
  has_act_cb :: bool
  p_id__reged_kv_deq_map :: "(int, key_ver list) smap"
  p_id__front_step_in_deq_map :: "(int, int) smap"
  kv__p_id_map :: "(key_ver, int) smap"
  p_id__last_acced_step_map :: "(int, int) smap"
  p_id__last_cached_step_map :: "(int, int) smap"
  mb_cache :: "(int, key_ver) cache"
  palgo_to_pick_app :: "'f app_algo"

datatype act = ActPrefetch | ActDel

type_synonym mb_act = "act \<times> int \<times> key_ver"

definition mpbuffer_new :: "int \<Rightarrow> int \<Rightarrow> char \<Rightarrow> bool \<Rightarrow> bool \<Rightarrow> 'f mpbuffer option" where
  "mpbuffer_new ds_id n t w cb =
     map_option (\<lambda>a. \<lparr>mb_ds_id = ds_id, max_num_key_ver = n, w_prefetch = w, has_act_cb = cb,
       p_id__reged_kv_deq_map = [], p_id__front_step_in_deq_map = [], kv__p_id_map = [],
       p_id__last_acced_step_map = [], p_id__last_cached_step_map = [],
       mb_cache = cache_new n True, palgo_to_pick_app = a\<rparr>) (app_algo_new t)"

subsection \<open>Operations\<close>

definition reg_key_ver :: "int \<Rightarrow> key_ver \<Rightarrow> 'f mpbuffer \<Rightarrow> rc \<times> 'f mpbuffer" where
  "reg_key_ver p_id kv s =
     (if smap_contains kv (kv__p_id_map s) then (1, s)
      else
        let s = s\<lparr>kv__p_id_map := smap_put kv p_id (kv__p_id_map s)\<rparr>
        in (0, if smap_contains p_id (p_id__reged_kv_deq_map s)
               then s\<lparr>p_id__reged_kv_deq_map :=
                      smap_put p_id (smap_get [] p_id (p_id__reged_kv_deq_map s) @ [kv]) (p_id__reged_kv_deq_map s)\<rparr>
               else s\<lparr>p_id__reged_kv_deq_map := smap_put p_id [kv] (p_id__reged_kv_deq_map s),
                      p_id__front_step_in_deq_map := smap_put p_id 0 (p_id__front_step_in_deq_map s)\<rparr>))"

definition handle_data_del :: "'f mpbuffer \<Rightarrow> key_ver \<Rightarrow> mb_act list" where
  "handle_data_del s kv =
     (if \<not> smap_contains kv (kv__p_id_map s) then []
      else if has_act_cb s then [(ActDel, mb_ds_id s, kv)] else [])"

definition mb_del :: "key_ver \<Rightarrow> 'f mpbuffer \<Rightarrow> (rc \<times> mb_act list \<times> 'f mpbuffer) option" where
  "mb_del kv s =
     (if \<not> smap_contains kv (kv__p_id_map s) then Some (1, [], s)
      else
        let p_id = smap_get 0 kv (kv__p_id_map s) in
        do { (err, deled, c) \<leftarrow> cache_del p_id kv (mb_cache s);
             Some (if err \<noteq> 0 then 1 else 0, concat (map (handle_data_del s) deled), s\<lparr>mb_cache := c\<rparr>) })"

definition mb_contains :: "key_ver \<Rightarrow> 'f mpbuffer \<Rightarrow> bool" where
  "mb_contains kv s = cache_contains kv (mb_cache s)"

definition get_kv_v :: "'f mpbuffer \<Rightarrow> key_ver list" where
  "get_kv_v s = get_content_v (mb_cache s)"

text \<open>The loop that drops the items before \<open>step_to_prefetch\<close>.\<close>

fun pop_to :: "int \<Rightarrow> key_ver list \<Rightarrow> int \<Rightarrow> key_ver list \<times> int" where
  "pop_to step [] front = ([], front)"
| "pop_to step (kv # q) front = (if front < step then pop_to step q (front + 1) else (kv # q, front))"

text \<open>One round of the loop over the producers: what it appends to \<open>kv_v\<close>. The reads with \<open>operator[]\<close>
  insert what they miss.\<close>

definition fetch_one :: "int \<Rightarrow> 'f mpbuffer \<Rightarrow> key_ver list \<times> 'f mpbuffer" where
  "fetch_one p s =
     (let s = s\<lparr>p_id__last_cached_step_map := smap_touch (- 1) p (p_id__last_cached_step_map s),
                p_id__last_acced_step_map := smap_touch 0 p (p_id__last_acced_step_map s)\<rparr>;
          cached = smap_get 0 p (p_id__last_cached_step_map s);
          acced = smap_get 0 p (p_id__last_acced_step_map s)
      in if acced < cached then ([], s)
      else
        let s = (if cached < acced
                 then s\<lparr>p_id__last_cached_step_map := smap_put p acced (p_id__last_cached_step_map s)\<rparr> else s);
            step_to_prefetch = smap_get 0 p (p_id__last_cached_step_map s) + 1;
            (q, front) = pop_to step_to_prefetch (smap_get [] p (p_id__reged_kv_deq_map s))
                           (smap_get 0 p (p_id__front_step_in_deq_map s));
            s = s\<lparr>p_id__reged_kv_deq_map := smap_put p q (p_id__reged_kv_deq_map s),
                  p_id__front_step_in_deq_map := smap_put p front (p_id__front_step_in_deq_map s)\<rparr>
        in (case q of
              [] \<Rightarrow> ([], s)
            | kv # q \<Rightarrow>
                ([kv], s\<lparr>p_id__reged_kv_deq_map := smap_put p q (p_id__reged_kv_deq_map s),
                         p_id__front_step_in_deq_map := smap_put p (front + 1) (p_id__front_step_in_deq_map s),
                         p_id__last_cached_step_map := smap_put p step_to_prefetch (p_id__last_cached_step_map s)\<rparr>)))"

fun fetch_all :: "int list \<Rightarrow> 'f mpbuffer \<Rightarrow> key_ver list \<times> 'f mpbuffer" where
  "fetch_all [] s = ([], s)"
| "fetch_all (p # ps) s =
     (let (kvs, s) = fetch_one p s; (kvs', s) = fetch_all ps s in (kvs @ kvs', s))"

definition mb_get_to_prefetch ::
  "('f::linorder, 'b) tops_scheme \<Rightarrow> (nat \<Rightarrow> nat \<Rightarrow> 'f) \<Rightarrow> int \<Rightarrow> 'f mpbuffer \<Rightarrow>
     (int \<times> key_ver list \<times> 'f mpbuffer) option" where
  "mb_get_to_prefetch fo rnd num_app s =
     do { (n, p_ids, ep_ids, a) \<leftarrow> app_get_to_prefetch fo rnd num_app (get_cached_acc_v (mb_cache s)) (palgo_to_pick_app s);
          let (kvs, s) = fetch_all (p_ids @ ep_ids) (s\<lparr>palgo_to_pick_app := a\<rparr>);
          Some (n, kvs, s) }"

text \<open>The prefetching loop: the action comes first, and the loop ends when the cache is full.\<close>

fun push_all :: "key_ver list \<Rightarrow> 'f mpbuffer \<Rightarrow> (mb_act list \<times> 'f mpbuffer) option" where
  "push_all [] s = Some ([], s)"
| "push_all (kv # kvs) s =
     (if \<not> has_act_cb s then push_all kvs s
      else if int (length (cache_deq (mb_cache s))) < max_num_key_ver s
      then do {
        let s = s\<lparr>kv__p_id_map := smap_touch 0 kv (kv__p_id_map s)\<rparr>;
        (_, deled, c) \<leftarrow> cache_push 0 (smap_get 0 kv (kv__p_id_map s)) kv (mb_cache s);
        let acts = concat (map (handle_data_del s) deled);
        (acts', s) \<leftarrow> push_all kvs (s\<lparr>mb_cache := c\<rparr>);
        Some ((ActPrefetch, mb_ds_id s, kv) # acts @ acts', s) }
      else Some ([(ActPrefetch, mb_ds_id s, kv)], s))"

definition mb_add_access ::
  "('f::linorder, 'b) tops_scheme \<Rightarrow> timeval \<Rightarrow> (nat \<Rightarrow> nat \<Rightarrow> 'f) \<Rightarrow> key_ver \<Rightarrow> 'f mpbuffer \<Rightarrow>
     (rc \<times> mb_act list \<times> 'f mpbuffer) option" where
  "mb_add_access fo now rnd kv s =
     (if \<not> smap_contains kv (kv__p_id_map s) then Some (1, [], s)
      else do {
        (_, acts, s) \<leftarrow> mb_del kv s;
        let p_id = smap_get 0 kv (kv__p_id_map s);
        let s = s\<lparr>p_id__last_acced_step_map := smap_touch (- 1) p_id (p_id__last_acced_step_map s)\<rparr>;
        let s = s\<lparr>p_id__last_acced_step_map :=
                  smap_put p_id (smap_get 0 p_id (p_id__last_acced_step_map s) + 1) (p_id__last_acced_step_map s)\<rparr>;
        (_, a) \<leftarrow> app_add_access fo now p_id (palgo_to_pick_app s);
        (_, kvs, s) \<leftarrow> mb_get_to_prefetch fo rnd 1 (s\<lparr>palgo_to_pick_app := a\<rparr>);
        (acts', s) \<leftarrow> (if w_prefetch s then push_all kvs s else Some ([], s));
        Some (0, acts @ acts', s) })"

text \<open>\<open>sim_prefetch_accuracy\<close> on two vectors of the same length, given as one list of pairs: the number of
  misses (the hit rate is one minus their share) and the accuracy string.\<close>

fun sim_accesses ::
  "('f::linorder, 'b) tops_scheme \<Rightarrow> (nat \<Rightarrow> timeval) \<Rightarrow> (nat \<Rightarrow> nat \<Rightarrow> nat \<Rightarrow> 'f) \<Rightarrow> nat \<Rightarrow> key_ver list \<Rightarrow> 'f mpbuffer \<Rightarrow>
     (nat \<times> char list \<times> 'f mpbuffer) option" where
  "sim_accesses fo now rnd i [] s = Some (0, [], s)"
| "sim_accesses fo now rnd i (kv # kvs) s =
     (let miss = \<not> mb_contains kv s in
      do { (_, _, s) \<leftarrow> mb_add_access fo (now i) (rnd i) kv s;
           (n, cs, s) \<leftarrow> sim_accesses fo now rnd (Suc i) kvs s;
           Some (if miss then Suc n else n, (if miss then CHR ''f'' else CHR ''-'') # cs, s) })"

definition sim_prefetch_accuracy ::
  "('f::linorder, 'b) tops_scheme \<Rightarrow> (nat \<Rightarrow> timeval) \<Rightarrow> (nat \<Rightarrow> nat \<Rightarrow> nat \<Rightarrow> 'f) \<Rightarrow> (int \<times> key_ver) list \<Rightarrow>
     'f mpbuffer \<Rightarrow> (nat \<times> char list \<times> 'f mpbuffer) option" where
  "sim_prefetch_accuracy fo now rnd trace s =
     (let s = fold (\<lambda>(p, kv) s. snd (reg_key_ver p kv s)) trace s
      in sim_accesses fo now rnd 0 (map snd trace) s)"

subsection \<open>The bookkeeping of steps\<close>

text \<open>\<open>R p\<close> is what producer \<open>p\<close> registered, in order. The deque is what is left of it from
  \<open>front_step_in_deq\<close> on; no item before that step is prefetched any more.\<close>

definition reged_of :: "'f mpbuffer \<Rightarrow> int \<Rightarrow> key_ver list" where
  "reged_of s p = smap_get [] p (p_id__reged_kv_deq_map s)"

definition front_of :: "'f mpbuffer \<Rightarrow> int \<Rightarrow> int" where
  "front_of s p = smap_get 0 p (p_id__front_step_in_deq_map s)"

definition acced_of :: "'f mpbuffer \<Rightarrow> int \<Rightarrow> int" where
  "acced_of s p = smap_get 0 p (p_id__last_acced_step_map s)"

definition cached_of :: "'f mpbuffer \<Rightarrow> int \<Rightarrow> int" where
  "cached_of s p = smap_get (- 1) p (p_id__last_cached_step_map s)"

lemmas step_projs = reged_of_def front_of_def acced_of_def cached_of_def

definition step_ok :: "key_ver list \<Rightarrow> key_ver list \<Rightarrow> int \<Rightarrow> int \<Rightarrow> int \<Rightarrow> bool" where
  "step_ok xs q f c a \<longleftrightarrow> 0 \<le> f \<and> nat f \<le> length xs \<and> q = drop (nat f) xs \<and> - 1 \<le> c \<and> 0 \<le> a \<and> f \<le> c + 1"

definition steps_ok :: "(int \<Rightarrow> key_ver list) \<Rightarrow> 'f mpbuffer \<Rightarrow> bool" where
  "steps_ok R s \<longleftrightarrow>
     (\<forall>p. step_ok (R p) (reged_of s p) (front_of s p) (cached_of s p) (acced_of s p) \<and>
        (R p \<noteq> [] \<longrightarrow> smap_contains p (p_id__reged_kv_deq_map s)))"

definition fetched :: "(int \<Rightarrow> key_ver list) \<Rightarrow> 'f mpbuffer \<Rightarrow> key_ver set" where
  "fetched R s = (\<Union>p. set (take (nat (front_of s p)) (R p)))"

lemma pop_to_spec:
  "front \<le> step \<Longrightarrow> pop_to step q front =
     (drop (nat (step - front)) q, front + int (min (length q) (nat (step - front))))"
proof (induction q arbitrary: front)
  case (Cons kv q)
  show ?case
  proof (cases "front < step")
    case True
    then have "nat (step - front) = Suc (nat (step - (front + 1)))" by arith
    then show ?thesis using Cons.IH [of "front + 1"] True by simp
  qed (use Cons in auto)
qed simp

lemma smap_get_other: "smap_contains k m \<Longrightarrow> smap_get d k m = smap_get d' k m"
  by (auto simp: smap_get_def smap_contains_def split: option.splits)

lemma smap_get_touched: "smap_get d k (smap_touch d' k m) = smap_get d' k m"
  using smap_get_other [of k "smap_touch d' k m" d d'] by simp

text \<open>One round on the bookkeeping of its producer alone.\<close>

definition step_fetch :: "key_ver list \<Rightarrow> int \<Rightarrow> int \<Rightarrow> int \<Rightarrow> key_ver list \<times> key_ver list \<times> int \<times> int" where
  "step_fetch q f c a =
     (if a < c then ([], q, f, c)
      else let (q, f) = pop_to (a + 1) q f
           in (case q of [] \<Rightarrow> ([], [], f, a) | kv # q \<Rightarrow> ([kv], q, f + 1, a + 1)))"

definition same_rest :: "'f mpbuffer \<Rightarrow> 'f mpbuffer \<Rightarrow> bool" where
  "same_rest s' s \<longleftrightarrow> kv__p_id_map s' = kv__p_id_map s \<and> mb_cache s' = mb_cache s \<and> max_num_key_ver s' = max_num_key_ver s \<and>
     has_act_cb s' = has_act_cb s \<and> w_prefetch s' = w_prefetch s \<and> mb_ds_id s' = mb_ds_id s \<and>
     palgo_to_pick_app s' = palgo_to_pick_app s \<and> acced_of s' = acced_of s \<and>
     (\<forall>p. smap_contains p (p_id__reged_kv_deq_map s) \<longrightarrow> smap_contains p (p_id__reged_kv_deq_map s'))"

lemma fetch_one_step:
  assumes "step_fetch (reged_of s p) (front_of s p) (cached_of s p) (acced_of s p) = (kvs, q, f, c)"
  shows "\<exists>s'. fetch_one p s = (kvs, s') \<and> reged_of s' = (reged_of s)(p := q) \<and> front_of s' = (front_of s)(p := f) \<and>
     cached_of s' = (cached_of s)(p := c) \<and> same_rest s' s"
proof (cases "acced_of s p < cached_of s p")
  case True
  then show ?thesis using assms
    by (auto simp: step_fetch_def fetch_one_def smap_get_touched step_projs same_rest_def fun_eq_iff)
next
  case False
  obtain q' f' where pop: "pop_to (acced_of s p + 1) (reged_of s p) (front_of s p) = (q', f')" by force
  show ?thesis
  proof (cases q')
    case Nil
    then show ?thesis using assms False pop
      by (auto simp: step_fetch_def fetch_one_def smap_get_touched step_projs same_rest_def fun_eq_iff Let_def)
  next
    case (Cons kv q'')
    then show ?thesis using assms False pop
      by (auto simp: step_fetch_def fetch_one_def smap_get_touched step_projs same_rest_def fun_eq_iff Let_def)
  qed
qed

lemma step_fetch_spec:
  assumes ok: "step_ok xs q f c a" and s: "step_fetch q f c a = (kvs, q', f', c')"
  shows "step_ok xs q' f' c' a \<and> f \<le> f' \<and>
     kvs = (if a < c \<or> length xs \<le> nat (a + 1) then [] else [xs ! nat (a + 1)]) \<and>
     (kvs \<noteq> [] \<longrightarrow> f \<le> a + 1 \<and> a + 1 < f')"
proof (cases "a < c")
  case True
  then show ?thesis using assms by (auto simp: step_fetch_def)
next
  case False
  have D: "0 \<le> f" "nat f \<le> length xs" "q = drop (nat f) xs" "0 \<le> a" "f \<le> a + 1"
    using ok False by (auto simp: step_ok_def)
  have d: "drop (nat (a + 1 - f)) q = drop (nat (a + 1)) xs"
    using D by (simp add: nat_diff_distrib)
  have l: "f + int (min (length q) (nat (a + 1 - f))) = int (min (length xs) (nat (a + 1)))"
    using D by (auto simp: min_def)
  have pop: "pop_to (a + 1) q f = (drop (nat (a + 1)) xs, int (min (length xs) (nat (a + 1))))"
    using pop_to_spec [OF D(5), of q] by (simp add: d l)
  show ?thesis
  proof (cases "length xs \<le> nat (a + 1)")
    case True
    then have "(kvs, q', f', c') = ([], [], int (length xs), a)"
      using s False pop by (simp add: step_fetch_def)
    then show ?thesis using D True by (auto simp: step_ok_def)
  next
    case nle: False
    then have "drop (nat (a + 1)) xs = xs ! nat (a + 1) # drop (Suc (nat (a + 1))) xs"
      by (simp add: Cons_nth_drop_Suc)
    then have "kvs = [xs ! nat (a + 1)] \<and> q' = drop (Suc (nat (a + 1))) xs \<and> f' = a + 2 \<and> c' = a + 1"
      using s False pop nle D(4) by (auto simp: step_fetch_def)
    then have eqs: "kvs = [xs ! nat (a + 1)]" "q' = drop (Suc (nat (a + 1))) xs" "f' = a + 2" "c' = a + 1" by blast+
    have n: "nat (a + 2) = Suc (nat (a + 1))" using D(4) by arith
    have "nat (a + 2) \<le> length xs" using nle unfolding n by arith
    then have "step_ok xs q' f' c' a" using D(4) unfolding eqs step_ok_def n by simp
    then show ?thesis using D(5) False nle unfolding eqs by simp
  qed
qed

lemma fetch_one_spec:
  assumes ok: "steps_ok R s"
  shows "\<exists>s' kvs. fetch_one p s = (kvs, s') \<and> steps_ok R s' \<and> same_rest s' s \<and> (\<forall>q. front_of s q \<le> front_of s' q) \<and>
     kvs = (if acced_of s p < cached_of s p \<or> length (R p) \<le> nat (acced_of s p + 1) then []
            else [R p ! nat (acced_of s p + 1)]) \<and>
     (kvs \<noteq> [] \<longrightarrow> front_of s p \<le> acced_of s p + 1 \<and> acced_of s p + 1 < front_of s' p)"
proof -
  obtain kvs q f c where st: "step_fetch (reged_of s p) (front_of s p) (cached_of s p) (acced_of s p) = (kvs, q, f, c)"
    by (metis prod_cases4)
  obtain s' where s': "fetch_one p s = (kvs, s')" "reged_of s' = (reged_of s)(p := q)" "front_of s' = (front_of s)(p := f)"
     "cached_of s' = (cached_of s)(p := c)" "same_rest s' s"
    using fetch_one_step [OF st] by blast
  have p: "step_ok (R p) (reged_of s p) (front_of s p) (cached_of s p) (acced_of s p)" using ok by (simp add: steps_ok_def)
  note sp = step_fetch_spec [OF p st]
  have "acced_of s' = acced_of s" using s'(5) by (simp add: same_rest_def)
  then have "steps_ok R s'"
    using ok sp s'(5) unfolding steps_ok_def s'(2-4) by (auto simp: same_rest_def)
  with s' sp show ?thesis by auto
qed

end
