(* ===== verification/MPBuffer_Steps.thy ===== *)
theory MPBuffer_Steps
  imports MPBuffer
begin

text \<open>
  What \<open>MPBuffer\<close> promises: its operations are never undefined, it keeps the cache within its bound and
  filled with registered items only, it prefetches no item twice, and always the item after the last
  accessed one of its producer.
\<close>

subsection \<open>Prefetching for several producers\<close>

text \<open>Every item has one owner, who registered it once.\<close>

definition owners_ok :: "(int \<Rightarrow> key_ver list) \<Rightarrow> 'f mpbuffer \<Rightarrow> bool" where
  "owners_ok R s \<longleftrightarrow> (\<forall>p. distinct (R p)) \<and> (\<forall>p kv. kv \<in> set (R p) \<longleftrightarrow> map_of (kv__p_id_map s) kv = Some p)"

lemma fetched_mono: "(\<And>p. front_of s p \<le> front_of s' p) \<Longrightarrow> fetched R s \<subseteq> fetched R s'"
  unfolding fetched_def by (intro UN_mono subset_refl) (simp add: nat_mono set_take_subset_set_take)

lemma not_yet_fetched:
  assumes "owners_ok R s" "i < length (R p)" "front_of t p \<le> int i"
  shows "R p ! i \<notin> fetched R t"
proof
  assume "R p ! i \<in> fetched R t"
  then obtain q where q: "R p ! i \<in> set (take (nat (front_of t q)) (R q))" by (auto simp: fetched_def)
  then have "R p ! i \<in> set (R q)" "R p ! i \<in> set (R p)" using assms(2) by (auto dest: in_set_takeD)
  then have "q = p" using assms(1) unfolding owners_ok_def by (metis option.inject)
  then obtain j where "j < nat (front_of t p)" "j < length (R p)" "R p ! j = R p ! i"
    using q by (auto simp: in_set_conv_nth)
  then show False
    using assms nth_eq_iff_index_eq [of "R p" j i] by (simp add: owners_ok_def)
qed

lemma now_fetched: "i < length (R p) \<Longrightarrow> int i < front_of t p \<Longrightarrow> R p ! i \<in> fetched R t"
  unfolding fetched_def by (rule UN_I [of p]) (auto simp: in_set_conv_nth intro!: exI [of _ i])

lemma same_rest_trans: "same_rest s2 s1 \<Longrightarrow> same_rest s1 s \<Longrightarrow> same_rest s2 s"
  by (auto simp: same_rest_def)

lemma owners_same: "same_rest s' s \<Longrightarrow> owners_ok R s' = owners_ok R s"
  by (simp add: same_rest_def owners_ok_def)

text \<open>The item after the last accessed one.\<close>

definition next_item :: "(int \<Rightarrow> key_ver list) \<Rightarrow> (int \<Rightarrow> int) \<Rightarrow> int \<Rightarrow> key_ver \<Rightarrow> bool" where
  "next_item R acced p kv \<longleftrightarrow> nat (acced p + 1) < length (R p) \<and> kv = R p ! nat (acced p + 1)"

lemma fetch_all_spec:
  assumes "steps_ok R s" "owners_ok R s"
  shows "\<exists>kvs s'. fetch_all ps s = (kvs, s') \<and> steps_ok R s' \<and> same_rest s' s \<and> distinct kvs \<and>
     set kvs \<inter> fetched R s = {} \<and> fetched R s \<union> set kvs \<subseteq> fetched R s' \<and>
     (\<forall>kv\<in>set kvs. \<exists>p\<in>set ps. next_item R (acced_of s) p kv)"
  using assms
proof (induction ps arbitrary: s)
  case Nil
  then show ?case by (simp add: same_rest_def)
next
  case (Cons p ps)
  obtain t kvs where t: "fetch_one p s = (kvs, t)" "steps_ok R t" "same_rest t s" "\<And>q. front_of s q \<le> front_of t q"
    and kvs: "kvs = (if acced_of s p < cached_of s p \<or> length (R p) \<le> nat (acced_of s p + 1) then []
            else [R p ! nat (acced_of s p + 1)])"
      "kvs \<noteq> [] \<longrightarrow> front_of s p \<le> acced_of s p + 1 \<and> acced_of s p + 1 < front_of t p"
    using fetch_one_spec [OF Cons(2), of p] by blast
  have o: "owners_ok R t" using t(3) Cons(3) owners_same by blast
  obtain kvs' s' where s': "fetch_all ps t = (kvs', s')" "steps_ok R s'" "same_rest s' t" "distinct kvs'"
      "set kvs' \<inter> fetched R t = {}" "fetched R t \<union> set kvs' \<subseteq> fetched R s'"
      "\<forall>kv\<in>set kvs'. \<exists>p\<in>set ps. next_item R (acced_of t) p kv"
    using Cons(1) [OF t(2) o] by blast
  have acc: "acced_of t = acced_of s" using t(3) by (simp add: same_rest_def)
  have a0: "0 \<le> acced_of s p" using Cons(2) by (auto simp: steps_ok_def step_ok_def)
  have st: "fetched R s \<subseteq> fetched R t" by (rule fetched_mono) (rule t(4))
  have "distinct kvs \<and> set kvs \<inter> fetched R s = {} \<and> set kvs \<subseteq> fetched R t \<and> (\<forall>kv\<in>set kvs. next_item R (acced_of s) p kv)"
  proof (cases "kvs = []")
    case False
    then have k: "kvs = [R p ! nat (acced_of s p + 1)]" "nat (acced_of s p + 1) < length (R p)"
      "front_of s p \<le> acced_of s p + 1" "acced_of s p + 1 < front_of t p"
      using kvs by (auto split: if_splits)
    then show ?thesis
      using not_yet_fetched [where R = R and p = p and t = s, OF Cons(3) k(2)]
        now_fetched [where R = R and p = p and t = t, OF k(2)] a0 by (simp add: next_item_def)
  qed simp
  note k = this
  have "fetch_all (p # ps) s = (kvs @ kvs', s')" using t(1) s'(1) by simp
  moreover have "distinct (kvs @ kvs')" using k s'(4,5) by auto
  moreover have "set (kvs @ kvs') \<inter> fetched R s = {}" using k s'(5) st by auto
  moreover have "fetched R s \<union> set (kvs @ kvs') \<subseteq> fetched R s'" using k s'(6) st by auto
  moreover have "\<forall>kv\<in>set (kvs @ kvs'). \<exists>p\<in>set (p # ps). next_item R (acced_of s) p kv"
    using k s'(7) unfolding acc by auto
  ultimately show ?case using s'(2) same_rest_trans [OF s'(3) t(3)] by blast
qed

subsection \<open>Filling the cache\<close>

definition owner :: "'f mpbuffer \<Rightarrow> key_ver \<Rightarrow> int" where
  "owner s kv = smap_get 0 kv (kv__p_id_map s)"

definition prefetched :: "mb_act list \<Rightarrow> key_ver list" where
  "prefetched acts = map (\<lambda>a. snd (snd a)) (filter (\<lambda>a. fst a = ActPrefetch) acts)"

lemma prefetched_simps [simp]:
  "prefetched [] = []" "prefetched ((ActPrefetch, d, kv) # as) = kv # prefetched as"
  "prefetched (as @ bs) = prefetched as @ prefetched bs"
  by (simp_all add: prefetched_def)

lemma prefetched_dels: "prefetched (concat (map (handle_data_del s) kvs)) = []"
  by (induction kvs) (auto simp: handle_data_del_def prefetched_def)

lemma same_limit:
  "cache_reg_ok r c \<Longrightarrow> cache_reg_ok r' c' \<Longrightarrow> cache_limit c = cache_limit c' \<Longrightarrow> cache_max_size c = cache_max_size c'"
  by (simp add: cache_limit_def cache_reg_ok_def eq_nat_nat_iff)

lemma push_all_spec:
  assumes "cache_reg_ok (owner s) (mb_cache s)" "max_num_key_ver s = cache_max_size (mb_cache s)"
    "\<forall>kv\<in>set kvs. smap_contains kv (kv__p_id_map s)" "distinct kvs" "set kvs \<inter> set (cache_deq (mb_cache s)) = {}"
  shows "\<exists>acts c n. push_all kvs s = Some (acts, s\<lparr>mb_cache := c\<rparr>) \<and> cache_reg_ok (owner s) c \<and>
     cache_max_size c = cache_max_size (mb_cache s) \<and> (\<exists>k\<le>n. cache_deq c = cache_deq (mb_cache s) @ take k kvs) \<and>
     prefetched acts = take n kvs"
  using assms
proof (induction kvs arbitrary: s)
  case Nil
  then show ?case by (intro exI [of _ "[]"] exI [of _ "mb_cache s"] exI [of _ 0]) auto
next
  case (Cons kv kvs)
  show ?case
  proof (cases "has_act_cb s")
    case False
    have "\<exists>c. push_all ks s = Some ([], s)" for ks using False by (induction ks) auto
    then show ?thesis using Cons(2) by (intro exI [of _ "[]"] exI [of _ "mb_cache s"] exI [of _ 0]) auto
  next
    case cb: True
    show ?thesis
    proof (cases "int (length (cache_deq (mb_cache s))) < max_num_key_ver s")
      case False
      then show ?thesis using Cons(2) cb
        by (intro exI [of _ "[(ActPrefetch, mb_ds_id s, kv)]"] exI [of _ "mb_cache s"] exI [of _ 1]) (auto intro!: exI [of _ 0])
    next
      case room: True
      have new: "kv \<notin> set (cache_deq (mb_cache s))" using Cons(6) by auto
      obtain c where c: "cache_step 0 (owner s) (Push kv) (mb_cache s) = Some c" "cache_reg_ok (owner s) c"
        "cache_limit c = cache_limit (mb_cache s)" "cache_deq c = fifo_op (cache_limit (mb_cache s)) (Push kv) (cache_deq (mb_cache s))"
        using cache_step_spec [OF Cons(2), of 0 "Push kv"] by blast
      then obtain r deled where push: "cache_push 0 (owner s kv) kv (mb_cache s) = Some (r, deled, c)"
        by (auto simp: cache_step_def)
      have mx: "cache_max_size c = cache_max_size (mb_cache s)"
        by (rule same_limit [OF c(2) Cons(2) c(3)])
      have q: "cache_deq c = cache_deq (mb_cache s) @ [kv]"
        using c(4) new room Cons(3) by (auto simp: fifo_push_def cache_limit_def split: if_splits)
      have [simp]: "smap_touch 0 kv (kv__p_id_map s) = kv__p_id_map s" "kv__p_id_map_update (\<lambda>_. kv__p_id_map s) s = s"
        using Cons(4) by (simp_all add: smap_touch_def)
      have "owner (s\<lparr>mb_cache := c\<rparr>) = owner s" by (simp add: owner_def fun_eq_iff)
      then obtain acts c' n k where IH: "push_all kvs (s\<lparr>mb_cache := c\<rparr>) = Some (acts, s\<lparr>mb_cache := c'\<rparr>)"
        "cache_reg_ok (owner s) c'" "cache_max_size c' = cache_max_size c" "k \<le> n"
        "cache_deq c' = cache_deq c @ take k kvs" "prefetched acts = take n kvs"
        using Cons(1) [of "s\<lparr>mb_cache := c\<rparr>"] Cons(3-6) c(2) mx q by auto
      have "push_all (kv # kvs) s =
          Some ((ActPrefetch, mb_ds_id s, kv) # concat (map (handle_data_del s) deled) @ acts, s\<lparr>mb_cache := c'\<rparr>)"
        using cb room push IH(1) by (simp add: owner_def)
      moreover have "cache_deq c' = cache_deq (mb_cache s) @ take (Suc k) (kv # kvs)" using IH(5) q by simp
      moreover have "prefetched ((ActPrefetch, mb_ds_id s, kv) # concat (map (handle_data_del s) deled) @ acts) = take (Suc n) (kv # kvs)"
        using IH(6) by (simp add: prefetched_dels)
      moreover have "Suc k \<le> Suc n" "cache_max_size c' = cache_max_size (mb_cache s)" using IH(3,4) mx by simp_all
      ultimately show ?thesis using IH(2) by blast
    qed
  qed
qed

subsection \<open>The invariant\<close>

definition app_ok :: "'f app_algo \<Rightarrow> bool" where
  "app_ok a = (case a of AppM s \<Rightarrow> malgo_ok s | AppMM s \<Rightarrow> mpalgo_ok s)"

lemma app_ok_new: "app_algo_new t = Some a \<Longrightarrow> app_ok a"
  using markov_ok_new [of MALGO_W_LZ] markov_ok_new [of MALGO_W_ALZ] markov_ok_new [of MALGO_W_PO]
    markov_ok_new [of MALGO_W_PPM 3] markov_ok_new [of MALGO_W_PPM 4]
  by (auto simp: app_algo_new_def app_ok_def malgo_ok_def malgo_new_def mpalgo_ok_def mpalgo_new_def pobj_ok_def
      pobj_new_def malgo_defs split: if_splits)

lemma app_ok_access:
  assumes "app_ok a"
  shows "\<exists>r a'. app_add_access fo now p a = Some (r, a') \<and> app_ok a'"
proof (cases a)
  case (AppM s)
  with assms malgo_ok_access [of s "fops.truncate fo" now p] show ?thesis
    by (auto simp: app_add_access_def app_ok_def)
next
  case (AppMM s)
  with assms mpalgo_ok_access [of s fo now p] show ?thesis by (auto simp: app_add_access_def app_ok_def)
qed

lemma app_ok_get:
  assumes "app_ok a"
  shows "\<exists>n out eacc a'. app_get_to_prefetch fo rnd num cached a = Some (n, out, eacc, a') \<and> app_ok a'"
proof (cases a)
  case (AppM s)
  obtain r n out eacc s' where s': "malgo_get_to_prefetch (fops.truncate fo) (rnd 0) num [] cached [] s = (r, n, out, eacc, s')"
    by (metis prod_cases5)
  with assms malgo_ok_get [OF _ s'] AppM show ?thesis by (auto simp: app_get_to_prefetch_def app_ok_def)
next
  case (AppMM s)
  with assms mmpalgo_ok_get [of s fo rnd num "[]" cached "[]"] show ?thesis
    by (auto simp: app_get_to_prefetch_def app_ok_def)
qed

definition mb_inv :: "(int \<Rightarrow> key_ver list) \<Rightarrow> 'f mpbuffer \<Rightarrow> bool" where
  "mb_inv R s \<longleftrightarrow> steps_ok R s \<and> owners_ok R s \<and> app_ok (palgo_to_pick_app s) \<and>
     cache_reg_ok (owner s) (mb_cache s) \<and> max_num_key_ver s = cache_max_size (mb_cache s) \<and>
     set (cache_deq (mb_cache s)) \<subseteq> fetched R s"

lemma fetched_registered: "fetched R s \<subseteq> (\<Union>p. set (R p))"
  by (auto simp: fetched_def dest: in_set_takeD)

lemma registered_iff: "owners_ok R s \<Longrightarrow> smap_contains kv (kv__p_id_map s) \<longleftrightarrow> (\<exists>p. kv \<in> set (R p))"
  unfolding owners_ok_def smap_contains_def by (metis not_None_eq)

text \<open>What a step guarantees: new items only, each the next one of its producer, and the cache is filled
  with what is prefetched.\<close>

definition mb_good :: "(int \<Rightarrow> key_ver list) \<Rightarrow> (int \<Rightarrow> key_ver list) \<Rightarrow> 'f mpbuffer \<Rightarrow> mb_act list \<Rightarrow> 'f mpbuffer \<Rightarrow> bool" where
  "mb_good R R' s acts s' \<longleftrightarrow> mb_inv R' s' \<and> max_num_key_ver s' = max_num_key_ver s \<and> distinct (prefetched acts) \<and>
     set (prefetched acts) \<inter> fetched R s = {} \<and> fetched R s \<union> set (prefetched acts) \<subseteq> fetched R' s' \<and>
     set (cache_deq (mb_cache s')) \<subseteq> set (cache_deq (mb_cache s)) \<union> set (prefetched acts) \<and>
     (\<forall>kv\<in>set (prefetched acts). \<exists>p. next_item R' (acced_of s') p kv)"

lemma mb_good_refl: "mb_inv R s \<Longrightarrow> mb_good R R s [] s"
  by (simp add: mb_good_def)

lemma mb_good_reg:
  assumes inv: "mb_inv R s" and new: "\<not> smap_contains kv (kv__p_id_map s)"
  shows "mb_good R (R(p := R p @ [kv])) s [] (snd (reg_key_ver p kv s))" (is "mb_good R ?R s [] ?s")
proof -
  have st: "steps_ok R s" and ow: "owners_ok R s" and ca: "set (cache_deq (mb_cache s)) \<subseteq> fetched R s"
    and co: "cache_reg_ok (owner s) (mb_cache s)"
    using inv by (auto simp: mb_inv_def)
  have kv: "kv \<notin> set (R q)" for q using registered_iff [OF ow] new by blast
  have len: "nat (front_of s q) \<le> length (R q)" "R q \<noteq> [] \<Longrightarrow> smap_contains q (p_id__reged_kv_deq_map s)"
    "reged_of s q = drop (nat (front_of s q)) (R q)" "0 \<le> front_of s q" for q
    using st by (auto simp: steps_ok_def step_ok_def)
  have fr: "front_of ?s = front_of s"
  proof
    fix q
    show "front_of ?s q = front_of s q"
      using new len(1,2,4) [of p] by (cases "R p = []") (auto simp: reg_key_ver_def front_of_def Let_def)
  qed
  have rd: "reged_of ?s = (reged_of s)(p := reged_of s p @ [kv])"
    using new by (auto simp: reg_key_ver_def reged_of_def fun_eq_iff smap_get_default Let_def)
  have same: "cached_of ?s = cached_of s" "acced_of ?s = acced_of s" "mb_cache ?s = mb_cache s"
    "kv__p_id_map ?s = smap_put kv p (kv__p_id_map s)" "palgo_to_pick_app ?s = palgo_to_pick_app s"
    "max_num_key_ver ?s = max_num_key_ver s"
    using new by (auto simp: reg_key_ver_def cached_of_def acced_of_def fun_eq_iff Let_def)
  have cont: "smap_contains q (p_id__reged_kv_deq_map ?s) \<longleftrightarrow> q = p \<or> smap_contains q (p_id__reged_kv_deq_map s)" for q
    using new by (auto simp: reg_key_ver_def Let_def)
  have 1: "steps_ok ?R ?s"
    using st len(1,3) unfolding steps_ok_def fr rd same cont by (auto simp: step_ok_def intro: le_SucI)
  have 2: "owners_ok ?R ?s"
    using ow kv unfolding owners_ok_def same map_of_smap_put by (auto simp: distinct_append fun_upd_def simp del: split_paired_All)
  have 3: "fetched ?R ?s = fetched R s"
  proof -
    have "take (nat (front_of s q)) (?R q) = take (nat (front_of s q)) (R q)" for q
      using len(1) [of q] by (cases "q = p") simp_all
    then show ?thesis unfolding fetched_def fr by presburger
  qed
  have "kv \<notin> set (cache_deq (mb_cache s))" using ca fetched_registered [of R s] kv by blast
  then have "\<forall>e\<in>set (cache_deq (mb_cache s)). owner ?s e = owner s e"
    by (auto simp: owner_def same)
  then have 4: "cache_reg_ok (owner ?s) (mb_cache s)"
    using co unfolding cache_reg_ok_def by simp
  show ?thesis using inv 1 2 3 4 same unfolding mb_good_def mb_inv_def by simp
qed

lemma mb_good_del:
  assumes inv: "mb_inv R s"
  shows "\<exists>r acts c. mb_del kv s = Some (r, acts, s\<lparr>mb_cache := c\<rparr>) \<and> mb_good R R s acts (s\<lparr>mb_cache := c\<rparr>) \<and> prefetched acts = []"
proof (cases "smap_contains kv (kv__p_id_map s)")
  case False
  then show ?thesis using mb_good_refl [OF inv]
    by (intro exI [of _ 1] exI [of _ "[]"] exI [of _ "mb_cache s"]) (simp add: mb_del_def)
next
  case True
  have co: "cache_reg_ok (owner s) (mb_cache s)" using inv by (simp add: mb_inv_def)
  obtain c where c: "cache_step 0 (owner s) (Del kv) (mb_cache s) = Some c" "cache_reg_ok (owner s) c"
    "cache_limit c = cache_limit (mb_cache s)" "cache_deq c = remove1 kv (cache_deq (mb_cache s))"
    using cache_step_spec [OF co, of 0 "Del kv"] by auto
  then obtain r deled where del: "cache_del (owner s kv) kv (mb_cache s) = Some (r, deled, c)"
    by (auto simp: cache_step_def)
  have mx: "cache_max_size c = cache_max_size (mb_cache s)"
    by (rule same_limit [OF c(2) co c(3)])
  have "owner (s\<lparr>mb_cache := c\<rparr>) = owner s" by (simp add: owner_def fun_eq_iff)
  moreover have "steps_ok R (s\<lparr>mb_cache := c\<rparr>) = steps_ok R s" "owners_ok R (s\<lparr>mb_cache := c\<rparr>) = owners_ok R s"
    "fetched R (s\<lparr>mb_cache := c\<rparr>) = fetched R s"
    by (simp_all add: steps_ok_def step_projs owners_ok_def fetched_def)
  moreover have "set (cache_deq c) \<subseteq> set (cache_deq (mb_cache s))" using c(4) by (simp add: set_remove1_subset)
  ultimately have "mb_good R R s (concat (map (handle_data_del s) deled)) (s\<lparr>mb_cache := c\<rparr>)"
    using inv c(2) mx by (auto simp: mb_good_def mb_inv_def prefetched_dels)
  then show ?thesis using True del by (auto simp: mb_del_def owner_def prefetched_dels)
qed

lemma mb_good_access:
  assumes inv: "mb_inv R s"
  shows "\<exists>r acts s'. mb_add_access fo now rnd kv s = Some (r, acts, s') \<and> mb_good R R s acts s'"
proof (cases "smap_contains kv (kv__p_id_map s)")
  case False
  then show ?thesis using mb_good_refl [OF inv] by (auto simp: mb_add_access_def)
next
  case True
  obtain r0 acts0 c0 where d: "mb_del kv s = Some (r0, acts0, s\<lparr>mb_cache := c0\<rparr>)" "mb_good R R s acts0 (s\<lparr>mb_cache := c0\<rparr>)"
    "prefetched acts0 = []"
    using mb_good_del [OF inv] by blast
  define t where "t = s\<lparr>mb_cache := c0\<rparr>"
  have t: "mb_inv R t" "set (cache_deq (mb_cache t)) \<subseteq> set (cache_deq (mb_cache s))" "fetched R t = fetched R s"
    "kv__p_id_map t = kv__p_id_map s" "w_prefetch t = w_prefetch s" "max_num_key_ver t = max_num_key_ver s"
    using d(2,3) by (auto simp: mb_good_def t_def fetched_def front_of_def)
  define p where "p = smap_get 0 kv (kv__p_id_map s)"
  define m where "m = smap_put p (smap_get 0 p (smap_touch (- 1) p (p_id__last_acced_step_map t)) + 1)
     (smap_touch (- 1) p (p_id__last_acced_step_map t))"
  have st: "steps_ok R t" and app: "app_ok (palgo_to_pick_app t)" using t(1) by (simp_all add: mb_inv_def)
  have "0 \<le> smap_get 0 q (p_id__last_acced_step_map t)" for q
    using st by (auto simp: steps_ok_def step_ok_def acced_of_def)
  then have m0: "0 \<le> smap_get 0 q m" for q
    by (simp add: m_def smap_touch_def smap_get_other [of p _ "- 1" 0])
  obtain r1 a1 where a1: "app_add_access fo now p (palgo_to_pick_app t) = Some (r1, a1)" "app_ok a1"
    using app_ok_access [OF app] by blast
  obtain n ps eps a2 where a2: "app_get_to_prefetch fo rnd 1 (get_cached_acc_v (mb_cache t)) a1 = Some (n, ps, eps, a2)" "app_ok a2"
    using app_ok_get [OF a1(2)] by blast
  define u where "u = t\<lparr>p_id__last_acced_step_map := m, palgo_to_pick_app := a2\<rparr>"
  have u: "steps_ok R u" "owners_ok R u" "fetched R u = fetched R t"
    using t(1) m0 by (auto simp: u_def mb_inv_def steps_ok_def step_ok_def step_projs owners_ok_def fetched_def)
  obtain kvs v where v: "fetch_all (ps @ eps) u = (kvs, v)" "steps_ok R v" "same_rest v u" "distinct kvs"
     "set kvs \<inter> fetched R u = {}" "fetched R u \<union> set kvs \<subseteq> fetched R v"
     "\<forall>kv\<in>set kvs. \<exists>p\<in>set (ps @ eps). next_item R (acced_of u) p kv"
    using fetch_all_spec [OF u(1,2)] by blast
  have vu: "mb_cache v = mb_cache t" "kv__p_id_map v = kv__p_id_map s" "w_prefetch v = w_prefetch s"
    "max_num_key_ver v = max_num_key_ver s" "palgo_to_pick_app v = a2" "acced_of v = acced_of u"
    using v(3) t by (simp_all add: same_rest_def u_def)
  have ov: "owners_ok R v" using u(2) v(3) owners_same by blast
  have own: "owner v = owner t" by (simp add: owner_def vu t fun_eq_iff)
  have get: "mb_get_to_prefetch fo rnd 1 (t\<lparr>p_id__last_acced_step_map := m, palgo_to_pick_app := a1\<rparr>) = Some (n, kvs, v)"
    using a2(1) v(1) by (simp add: mb_get_to_prefetch_def u_def)
  have vinv: "mb_inv R v"
    using t(1) v(2,6) ov own vu a2(2) u(3) t(6) by (auto simp: mb_inv_def)
  have run: "mb_add_access fo now rnd kv s =
      (case (if w_prefetch s then push_all kvs v else Some ([], v)) of None \<Rightarrow> None | Some (as, s') \<Rightarrow> Some (0, acts0 @ as, s'))"
    using True d(1) a1(1) get vu(3)
    by (simp add: mb_add_access_def t_def [symmetric] t(4) p_def [symmetric] m_def [symmetric] Let_def
        split: option.split)
  have "\<exists>as s'. (if w_prefetch s then push_all kvs v else Some ([], v)) = Some (as, s') \<and> mb_good R R s as s'"
  proof (cases "w_prefetch s")
    case False
    then show ?thesis using vinv vu v(6) t(2,3) u(3) by (auto simp: mb_good_def)
  next
    case w: True
    have reg: "\<forall>kv\<in>set kvs. smap_contains kv (kv__p_id_map v)"
      using v(6) fetched_registered [of R v] registered_iff [OF ov] by blast
    have fresh: "set kvs \<inter> set (cache_deq (mb_cache v)) = {}"
      using v(5) t(1) u(3) unfolding vu(1) mb_inv_def by blast
    obtain as c n k where as: "push_all kvs v = Some (as, v\<lparr>mb_cache := c\<rparr>)" "cache_reg_ok (owner v) c"
      "cache_max_size c = cache_max_size (mb_cache v)" "k \<le> n"
      "cache_deq c = cache_deq (mb_cache v) @ take k kvs" "prefetched as = take n kvs"
      using push_all_spec [OF _ _ reg v(4) fresh] vinv unfolding mb_inv_def by blast
    have kn: "set (take k kvs) \<subseteq> set (take n kvs)" "set (take n kvs) \<subseteq> set kvs"
      using as(4) by (simp_all add: set_take_subset_set_take set_take_subset)
    have eqs: "owner (v\<lparr>mb_cache := c\<rparr>) = owner v" "steps_ok R (v\<lparr>mb_cache := c\<rparr>) = steps_ok R v"
      "owners_ok R (v\<lparr>mb_cache := c\<rparr>) = owners_ok R v" "fetched R (v\<lparr>mb_cache := c\<rparr>) = fetched R v"
      "acced_of (v\<lparr>mb_cache := c\<rparr>) = acced_of v"
      by (simp_all add: steps_ok_def step_projs owners_ok_def fetched_def owner_def fun_eq_iff)
    have i: "mb_inv R (v\<lparr>mb_cache := c\<rparr>)"
      using vinv as(2,3,5) kn v(6) unfolding mb_inv_def eqs by auto
    have "mb_good R R s as (v\<lparr>mb_cache := c\<rparr>)"
      unfolding mb_good_def as(6) eqs
      using i vu(1,4,6) v(4-7) kn t(2,3) u(3) as(5) by auto
    with w as(1) show ?thesis by auto
  qed
  then obtain as s' where s': "(if w_prefetch s then push_all kvs v else Some ([], v)) = Some (as, s')" "mb_good R R s as s'"
    by blast
  then have "mb_good R R s (acts0 @ as) s'" using d(3) by (simp add: mb_good_def)
  with run s'(1) show ?thesis by simp
qed

subsection \<open>Runs\<close>

datatype 'f mb_op = MReg int key_ver | MAccess timeval "nat \<Rightarrow> nat \<Rightarrow> 'f" key_ver | MDel key_ver

definition mb_step ::
  "('f::linorder, 'b) tops_scheme \<Rightarrow> 'f mb_op \<Rightarrow> 'f mpbuffer \<Rightarrow> (mb_act list \<times> 'f mpbuffer) option" where
  "mb_step fo op s =
     (case op of
        MReg p kv \<Rightarrow> Some ([], snd (reg_key_ver p kv s))
      | MAccess now rnd kv \<Rightarrow> map_option snd (mb_add_access fo now rnd kv s)
      | MDel kv \<Rightarrow> map_option snd (mb_del kv s))"

fun mb_run ::
  "('f::linorder, 'b) tops_scheme \<Rightarrow> 'f mb_op list \<Rightarrow> 'f mpbuffer \<Rightarrow> (mb_act list \<times> 'f mpbuffer) option" where
  "mb_run fo [] s = Some ([], s)"
| "mb_run fo (op # ops) s =
     do { (acts, s) \<leftarrow> mb_step fo op s; (acts', s) \<leftarrow> mb_run fo ops s; Some (acts @ acts', s) }"

text \<open>The registrations of a run, in order; a second one of the same item is refused.\<close>

fun mb_regs :: "'f mb_op list \<Rightarrow> (int \<times> key_ver) list \<Rightarrow> (int \<times> key_ver) list" where
  "mb_regs [] rs = rs"
| "mb_regs (MReg p kv # ops) rs = mb_regs ops (if kv \<in> snd ` set rs then rs else rs @ [(p, kv)])"
| "mb_regs (_ # ops) rs = mb_regs ops rs"

definition items_of :: "(int \<times> key_ver) list \<Rightarrow> int \<Rightarrow> key_ver list" where
  "items_of rs p = map snd (filter (\<lambda>r. fst r = p) rs)"

lemma items_of_snoc: "items_of (rs @ [(p, kv)]) = (items_of rs)(p := items_of rs p @ [kv])"
  by (auto simp: items_of_def fun_eq_iff)

lemma in_items: "(\<exists>p. kv \<in> set (items_of rs p)) \<longleftrightarrow> kv \<in> snd ` set rs"
  by (force simp: items_of_def)

lemma mb_good_step:
  assumes "mb_inv (items_of rs) s"
  shows "\<exists>acts s'. mb_step fo op s = Some (acts, s') \<and> mb_good (items_of rs) (items_of (mb_regs [op] rs)) s acts s'"
proof (cases op)
  case (MReg p kv)
  have "smap_contains kv (kv__p_id_map s) \<longleftrightarrow> kv \<in> snd ` set rs"
    using assms registered_iff [of "items_of rs" s kv] in_items [of kv rs] by (simp add: mb_inv_def)
  then show ?thesis
    using mb_good_reg [OF assms, of kv p] mb_good_refl [OF assms]
    by (auto simp: MReg mb_step_def items_of_snoc reg_key_ver_def)
next
  case (MAccess now rnd kv)
  then show ?thesis using mb_good_access [OF assms, of fo now rnd kv] by (auto simp: mb_step_def)
next
  case (MDel kv)
  then show ?thesis using mb_good_del [OF assms, of kv] by (auto simp: mb_step_def)
qed

lemma mb_regs_append: "mb_regs (xs @ ys) rs = mb_regs ys (mb_regs xs rs)"
  by (induction xs rs rule: mb_regs.induct) auto

lemma mb_run_spec:
  assumes "mb_inv (items_of rs) s"
  shows "\<exists>acts s'. mb_run fo ops s = Some (acts, s') \<and> mb_inv (items_of (mb_regs ops rs)) s' \<and>
     max_num_key_ver s' = max_num_key_ver s \<and> distinct (prefetched acts) \<and>
     set (prefetched acts) \<inter> fetched (items_of rs) s = {} \<and>
     set (cache_deq (mb_cache s')) \<subseteq> set (cache_deq (mb_cache s)) \<union> set (prefetched acts)"
  using assms
proof (induction ops arbitrary: rs s)
  case (Cons op ops)
  obtain as t where t: "mb_step fo op s = Some (as, t)" and g: "mb_good (items_of rs) (items_of (mb_regs [op] rs)) s as t"
    using mb_good_step [OF Cons(2)] by blast
  have "mb_inv (items_of (mb_regs [op] rs)) t" using g by (simp add: mb_good_def)
  from Cons(1) [OF this] obtain bs s' where s': "mb_run fo ops t = Some (bs, s')"
    "mb_inv (items_of (mb_regs ops (mb_regs [op] rs))) s'" "max_num_key_ver s' = max_num_key_ver t"
    "distinct (prefetched bs)" "set (prefetched bs) \<inter> fetched (items_of (mb_regs [op] rs)) t = {}"
    "set (cache_deq (mb_cache s')) \<subseteq> set (cache_deq (mb_cache t)) \<union> set (prefetched bs)"
    by blast
  have "mb_run fo (op # ops) s = Some (as @ bs, s')" using t s'(1) by simp
  moreover have "mb_regs (op # ops) rs = mb_regs ops (mb_regs [op] rs)" using mb_regs_append [of "[op]" ops rs] by simp
  moreover have "distinct (prefetched (as @ bs))" "set (prefetched (as @ bs)) \<inter> fetched (items_of rs) s = {}"
    "set (cache_deq (mb_cache s')) \<subseteq> set (cache_deq (mb_cache s)) \<union> set (prefetched (as @ bs))"
    using g s'(4-6) by (auto simp: mb_good_def)
  ultimately show ?case using s'(2,3) g by (metis mb_good_def)
qed simp

lemma mb_inv_new:
  fixes s :: "'a mpbuffer"
  assumes "0 < n" "mpbuffer_new ds n t w cb = Some s"
  shows "mb_inv (items_of []) s \<and> max_num_key_ver s = n \<and> cache_deq (mb_cache s) = [] \<and> fetched (items_of []) s = {}"
proof -
  obtain a :: "'a app_algo" where a: "app_algo_new t = Some a"
    using assms(2) by (auto simp: mpbuffer_new_def)
  have "cache_reg_ok (owner s) (cache_new n True)" using cache_reg_ok_new [of "nat n" "owner s" True] assms(1) by simp
  then show ?thesis
    using assms a app_ok_new [OF a]
    by (auto simp: mpbuffer_new_def mb_inv_def steps_ok_def step_ok_def step_projs owners_ok_def items_of_def fetched_def
        cache_new_def)
qed

subsection \<open>Properties\<close>

text \<open>C8: a prefetch buffer of positive size with one of the known algorithms is never undefined, whatever
  is registered, accessed and deleted, in any order and with any rounding; it never holds more than its
  size, every item it holds was prefetched, and no item is prefetched twice.\<close>

theorem mpbuffer_safe:
  assumes "0 < n" "mpbuffer_new ds n t w cb = Some s0"
  shows "\<exists>acts s. mb_run fo ops s0 = Some (acts, s) \<and> int (length (get_kv_v s)) \<le> n \<and>
     distinct (get_kv_v s) \<and> set (get_kv_v s) \<subseteq> set (prefetched acts) \<and> distinct (prefetched acts)"
proof -
  note new = mb_inv_new [OF assms]
  obtain acts s where s: "mb_run fo ops s0 = Some (acts, s)" "mb_inv (items_of (mb_regs ops [])) s"
     "max_num_key_ver s = n" "distinct (prefetched acts)" "set (cache_deq (mb_cache s)) \<subseteq> set (prefetched acts)"
    using mb_run_spec [of "[]" s0 fo ops] new by auto
  then have "cache_ok (mb_cache s)" "cache_max_size (mb_cache s) = n" by (auto simp: mb_inv_def cache_reg_ok_def)
  then show ?thesis
    using s cache_okD(1,6) [of "mb_cache s"] by (auto simp: get_kv_v_def get_content_v_def)
qed


subsection \<open>A concrete run\<close>

text \<open>Integers for the probabilities, scaled by 100, are enough to run the buffer.\<close>

definition int_tops :: "int tops" where
  "int_tops = fops.extend int_fops \<lparr>f_sub = (-), f_pow2 = (\<lambda>x. x * x), f_sqrt = (\<lambda>x. x),
     f_normal_above = (\<lambda>m s x. m), f_step = 1, f_exp2 = (\<lambda>x. x), f_log2 = (\<lambda>x. x)\<rparr>"

definition sample_buffer :: "int mpbuffer" where
  "sample_buffer = the (mpbuffer_new 7 2 MALGO_W_LZ True True)"

definition sample_ops :: "int mb_op list" where
  "sample_ops = [MReg 5 (''a'', 0), MReg 5 (''b'', 0), MReg 5 (''c'', 0), MAccess (0, 0) (\<lambda>_ _. 0) (''a'', 0)]"

lemma sample_new: "mpbuffer_new 7 2 MALGO_W_LZ True True = Some sample_buffer"
  by (simp add: sample_buffer_def mpbuffer_new_def app_algo_new_def)

lemma sample_run:
  "map_option (\<lambda>(acts, s). map_option (\<lambda>(r, acts', s'). prefetched acts')
      (mb_add_access int_tops (0, 0) (\<lambda>_ _. 0) (''b'', 0) s)) (mb_run int_tops sample_ops sample_buffer) =
   Some (Some [(''c'', 0)])"
  by code_simp

theorem mpbuffer_safe_witness:
  "\<exists>acts s. mb_run int_tops sample_ops sample_buffer = Some (acts, s) \<and> int (length (get_kv_v s)) \<le> 2 \<and>
     distinct (get_kv_v s) \<and> set (get_kv_v s) \<subseteq> set (prefetched acts) \<and> distinct (prefetched acts)"
  by (rule mpbuffer_safe [OF _ sample_new]) simp

end
