(* ===== verification/Msg_Codec.thy ===== *)
theory Msg_Codec
  imports Patch
begin

text \<open>
  \<open>sdm_control/patch_sdm.cpp\<close>: how a data item is written into and read from the string map of a
  message, and the data ids that name the sync points of the protocol. Reading numbers
  (\<open>boost::lexical_cast\<close> from a string) and cutting at commas (\<open>boost::tokenizer\<close>) belong to boost and
  are a parameter, the record \<open>lexer\<close>; what the code relies on is \<open>lexer_ok\<close>. A tokenizer that is
  dereferenced at its end is undefined.
\<close>

type_synonym msg_map = "(string, string) smap"
type_synonym coor = "u64 list"

definition NDIM :: nat where "NDIM = 3"

record lexer =
  lex_int :: "string \<Rightarrow> int option"
  lex_u32 :: "string \<Rightarrow> u32 option"
  lex_u64 :: "string \<Rightarrow> u64 option"
  tokens :: "string \<Rightarrow> string list"

definition msg_get :: "string \<Rightarrow> msg_map \<Rightarrow> string" where
  "msg_get k m = smap_get [] k m"

subsection \<open>Data ids\<close>

definition KV_DATA_ID :: char where "KV_DATA_ID = CHR ''k''"
definition LUCOOR_DATA_ID :: char where "LUCOOR_DATA_ID = CHR ''l''"

text \<open>For any other type the function ends without the string it must return.\<close>

definition get_data_id :: "char \<Rightarrow> string \<Rightarrow> u32 \<Rightarrow> coor \<Rightarrow> coor \<Rightarrow> string option" where
  "get_data_id t key ver lb ub =
     (if t = KV_DATA_ID then Some (key @ ''_'' @ dec (unat ver))
      else if t = LUCOOR_DATA_ID then Some (arr_to_str (take NDIM lb) @ ''_'' @ arr_to_str (take NDIM ub))
      else None)"

definition get_data_id_msg :: "char \<Rightarrow> msg_map \<Rightarrow> string option" where
  "get_data_id_msg t m =
     (if t = KV_DATA_ID then Some (msg_get ''key'' m @ ''_'' @ msg_get ''ver'' m)
      else if t = LUCOOR_DATA_ID then Some (msg_get ''lb_'' m @ ''_'' @ msg_get ''ub_'' m)
      else None)"

subsection \<open>Messages about a data item\<close>

definition encode_msg_map :: "int \<Rightarrow> string \<Rightarrow> u32 \<Rightarrow> coor \<Rightarrow> coor \<Rightarrow> msg_map \<Rightarrow> rc \<times> msg_map" where
  "encode_msg_map ndim key ver lb ub m =
     (0, smap_put ''ub_'' (arr_to_str (take (nat ndim) ub))
          (smap_put ''lb_'' (arr_to_str (take (nat ndim) lb))
            (smap_put ''ver'' (dec (unat ver))
              (smap_put ''key'' key
                (smap_put ''ndim'' (dec_int ndim) m)))))"

text \<open>The loop over the dimensions: undefined when the tokens run out, \<open>Some None\<close> when one of them is not
  a number (the exception is caught).\<close>

fun decode_coors :: "lexer \<Rightarrow> nat \<Rightarrow> string list \<Rightarrow> string list \<Rightarrow> (coor \<times> coor) option option" where
  "decode_coors L 0 lts uts = Some (Some ([], []))"
| "decode_coors L (Suc n) (lt # lts) (ut # uts) =
     (case lex_u64 L lt of
        None \<Rightarrow> Some None
      | Some l \<Rightarrow> (case lex_u64 L ut of
          None \<Rightarrow> Some None
        | Some u \<Rightarrow> map_option (map_option (\<lambda>(ls, us). (l # ls, u # us))) (decode_coors L n lts uts)))"
| "decode_coors L (Suc n) lts uts = None"

text \<open>\<open>Some None\<close> is the return code 1.\<close>

definition decode_msg_map :: "lexer \<Rightarrow> msg_map \<Rightarrow> (int \<times> string \<times> u32 \<times> coor \<times> coor) option option" where
  "decode_msg_map L m =
     (case lex_int L (msg_get ''ndim'' m) of
        None \<Rightarrow> Some None
      | Some ndim \<Rightarrow> (case lex_u32 L (msg_get ''ver'' m) of
          None \<Rightarrow> Some None
        | Some ver \<Rightarrow>
            map_option (map_option (\<lambda>(lb, ub). (ndim, msg_get ''key'' m, ver, lb, ub)))
              (decode_coors L (nat ndim) (tokens L (msg_get ''lb_'' m)) (tokens L (msg_get ''ub_'' m)))))"

text \<open>The longer variant, with the type, the size and the global dimensions of the data.\<close>

definition encode_data_msg ::
  "string \<Rightarrow> u32 \<Rightarrow> string \<Rightarrow> int \<Rightarrow> int \<Rightarrow> coor \<Rightarrow> coor \<Rightarrow> coor \<Rightarrow> msg_map \<Rightarrow> rc \<times> msg_map" where
  "encode_data_msg key ver data_type sz ndim gdim lb ub m =
     (0, smap_put ''ub_'' (arr_to_str (take (nat ndim) ub))
          (smap_put ''lb_'' (arr_to_str (take (nat ndim) lb))
            (smap_put ''gdim_'' (arr_to_str (take (nat ndim) gdim))
              (smap_put ''ndim'' (dec_int ndim)
                (smap_put ''size'' (dec_int sz)
                  (smap_put ''data_type'' data_type
                    (smap_put ''ver'' (dec (unat ver))
                      (smap_put ''key'' key m))))))))"

fun decode_coors3 ::
  "lexer \<Rightarrow> nat \<Rightarrow> string list \<Rightarrow> string list \<Rightarrow> string list \<Rightarrow> (coor \<times> coor \<times> coor) option option" where
  "decode_coors3 L 0 gts lts uts = Some (Some ([], [], []))"
| "decode_coors3 L (Suc n) (gt # gts) (lt # lts) (ut # uts) =
     (case (lex_u64 L gt, lex_u64 L lt, lex_u64 L ut) of
        (Some g, Some l, Some u) \<Rightarrow>
          map_option (map_option (\<lambda>(gs, ls, us). (g # gs, l # ls, u # us))) (decode_coors3 L n gts lts uts)
      | _ \<Rightarrow> Some None)"
| "decode_coors3 L (Suc n) gts lts uts = None"

definition decode_data_msg ::
  "lexer \<Rightarrow> msg_map \<Rightarrow> (string \<times> u32 \<times> string \<times> int \<times> int \<times> coor \<times> coor \<times> coor) option option" where
  "decode_data_msg L m =
     (case (lex_u32 L (msg_get ''ver'' m), lex_int L (msg_get ''size'' m), lex_int L (msg_get ''ndim'' m)) of
        (Some ver, Some sz, Some ndim) \<Rightarrow>
          map_option (map_option (\<lambda>(g, lb, ub). (msg_get ''key'' m, ver, msg_get ''data_type'' m, sz, ndim, g, lb, ub)))
            (decode_coors3 L (nat ndim) (tokens L (msg_get ''gdim_'' m)) (tokens L (msg_get ''lb_'' m))
               (tokens L (msg_get ''ub_'' m)))
      | _ \<Rightarrow> Some None)"

subsection \<open>What is relied on of boost\<close>

text \<open>Numbers the library itself printed are read back, and a comma separated list of fields that are
  neither empty nor contain a comma is cut into these fields.\<close>

definition lexer_ok :: "lexer \<Rightarrow> bool" where
  "lexer_ok L \<longleftrightarrow>
     (\<forall>i. - (2 ^ 31) \<le> i \<and> i < 2 ^ 31 \<longrightarrow> lex_int L (dec_int i) = Some i) \<and>
     (\<forall>w. lex_u32 L (dec (unat w)) = Some w) \<and>
     (\<forall>w. lex_u64 L (dec (unat w)) = Some w) \<and>
     (\<forall>s. (\<forall>t\<in>set (split_on CHR '','' s). t \<noteq> []) \<longrightarrow> tokens L s = split_on CHR '','' s)"

lemma tokens_arr:
  assumes "lexer_ok L" "xs \<noteq> []"
  shows "tokens L (arr_to_str xs) = map (\<lambda>x. dec (unat x)) xs"
proof -
  have "\<forall>t\<in>set (split_on CHR '','' (arr_to_str xs)). t \<noteq> []"
    using assms(2) by (simp add: split_arr_to_str)
  then have "tokens L (arr_to_str xs) = split_on CHR '','' (arr_to_str xs)"
    using assms(1) by (simp add: lexer_ok_def)
  then show ?thesis using assms(2) by (simp add: split_arr_to_str)
qed

lemma decode_coors_print:
  assumes "lexer_ok L" "length lb = n" "length ub = n"
  shows "decode_coors L n (map (\<lambda>x. dec (unat x)) lb) (map (\<lambda>x. dec (unat x)) ub) = Some (Some (lb, ub))"
  using assms(2,3)
proof (induction n arbitrary: lb ub)
  case (Suc n)
  then show ?case using assms(1) by (cases lb; cases ub) (auto simp: lexer_ok_def)
qed simp

lemma decode_coors3_print:
  assumes "lexer_ok L" "length g = n" "length lb = n" "length ub = n"
  shows "decode_coors3 L n (map (\<lambda>x. dec (unat x)) g) (map (\<lambda>x. dec (unat x)) lb) (map (\<lambda>x. dec (unat x)) ub) =
    Some (Some (g, lb, ub))"
  using assms(2-4)
proof (induction n arbitrary: g lb ub)
  case (Suc n)
  then show ?case using assms(1) by (cases g; cases lb; cases ub) (auto simp: lexer_ok_def)
qed simp

lemma lex_ndim: "lexer_ok L \<Longrightarrow> n < 2 ^ 31 \<Longrightarrow> lex_int L (dec_int (int n)) = Some (int n)"
proof -
  assume "lexer_ok L" "n < 2 ^ 31"
  then have "- (2 ^ 31) \<le> int n \<and> int n < 2 ^ 31" by simp
  with \<open>lexer_ok L\<close> show ?thesis unfolding lexer_ok_def by blast
qed

text \<open>A plain reader with these laws.\<close>

definition std_lexer :: lexer where
  "std_lexer = \<lparr>lex_int = (\<lambda>s. Some (if s \<noteq> [] \<and> hd s = CHR ''-'' then - int (undec (tl s)) else int (undec s))),
     lex_u32 = (\<lambda>s. Some (word_of_nat (undec s))), lex_u64 = (\<lambda>s. Some (word_of_nat (undec s))),
     tokens = split_on CHR '',''\<rparr>"

lemma hd_dec [simp]: "hd (dec n) \<noteq> CHR ''-''"
  using dec_not_in [of "CHR ''-''" n] hd_in_set [OF dec_nonempty, of n] not_digit_seps(1) by metis

lemma std_lexer_ok: "lexer_ok std_lexer"
  by (auto simp: lexer_ok_def std_lexer_def dec_int_def)

lemma sep_unique:
  "a @ c # b = a' @ c # b' \<Longrightarrow> c \<notin> set a \<Longrightarrow> c \<notin> set a' \<Longrightarrow> a = a' \<and> b = b'"
proof (induction a arbitrary: a')
  case Nil
  then show ?case by (cases a') auto
next
  case (Cons x a)
  then show ?case by (cases a') auto
qed

lemma last_sep_unique:
  assumes "s @ c # dec m = t @ c # dec n" "\<not> is_digit c"
  shows "s = t \<and> m = n"
proof -
  have "rev (dec m) @ c # rev s = rev (dec n) @ c # rev t"
    using arg_cong [OF assms(1), of rev] by simp
  moreover have "c \<notin> set (rev (dec m))" "c \<notin> set (rev (dec n))" using assms(2) dec_not_in by auto
  ultimately have "rev (dec m) = rev (dec n) \<and> rev s = rev t" by (rule sep_unique)
  then show ?thesis by simp
qed

subsection \<open>Properties\<close>

text \<open>C24: a message about a data item is read back as it was written, for any item and any message it is
  added to.\<close>

theorem msg_map_roundtrip:
  assumes "lexer_ok L" "0 < ndim" "ndim < 2 ^ 31" "length lb = nat ndim" "length ub = nat ndim"
  shows "decode_msg_map L (snd (encode_msg_map ndim key ver lb ub m)) = Some (Some (ndim, key, ver, lb, ub))"
proof -
  have ne: "lb \<noteq> []" "ub \<noteq> []" using assms(2,4,5) by auto
  have i: "lex_int L (dec_int ndim) = Some ndim" "lex_u32 L (dec (unat ver)) = Some ver"
    using lex_ndim [OF assms(1), of "nat ndim"] assms(1-3) by (auto simp: lexer_ok_def)
  show ?thesis
    using decode_coors_print [OF assms(1,4,5)] tokens_arr [OF assms(1) ne(1)] tokens_arr [OF assms(1) ne(2)] i assms(4,5)
    by (simp add: decode_msg_map_def encode_msg_map_def msg_get_def)
qed

theorem msg_map_roundtrip_witness:
  "decode_msg_map std_lexer (snd (encode_msg_map 3 ''temp'' 7 [0, 0, 0] [1, 2, 3] [])) =
     Some (Some (3, ''temp'', 7, [0, 0, 0], [1, 2, 3]))"
  by (rule msg_map_roundtrip [OF std_lexer_ok]) simp_all

text \<open>The same for the variant with the data type, the size and the global dimensions.\<close>

theorem data_msg_roundtrip:
  assumes "lexer_ok L" "0 < ndim" "ndim < 2 ^ 31" "- (2 ^ 31) \<le> sz" "sz < 2 ^ 31"
    and "length g = nat ndim" "length lb = nat ndim" "length ub = nat ndim"
  shows "decode_data_msg L (snd (encode_data_msg key ver ty sz ndim g lb ub m)) =
     Some (Some (key, ver, ty, sz, ndim, g, lb, ub))"
proof -
  have ne: "g \<noteq> []" "lb \<noteq> []" "ub \<noteq> []" using assms(2,6-8) by auto
  have i: "lex_int L (dec_int ndim) = Some ndim" "lex_u32 L (dec (unat ver)) = Some ver" "lex_int L (dec_int sz) = Some sz"
    using lex_ndim [OF assms(1), of "nat ndim"] assms(1-5) by (auto simp: lexer_ok_def)
  show ?thesis
    using decode_coors3_print [OF assms(1,6-8)] tokens_arr [OF assms(1) ne(1)] tokens_arr [OF assms(1) ne(2)]
      tokens_arr [OF assms(1) ne(3)] i assms(6-8)
    by (simp add: decode_data_msg_def encode_data_msg_def msg_get_def)
qed

theorem data_msg_roundtrip_witness:
  "decode_data_msg std_lexer (snd (encode_data_msg ''temp'' 7 ''double'' 8 2 [4, 4] [0, 0] [1, 2] [])) =
     Some (Some (''temp'', 7, ''double'', 8, 2, [4, 4], [0, 0], [1, 2]))"
  by (rule data_msg_roundtrip [OF std_lexer_ok]) simp_all

text \<open>The thread that waits for a reply names its sync point after the data item, the handler of the
  reply after the message: the two names agree, and two different items have different names, so that
  replies about one are not taken for the other (before they are hashed).\<close>

theorem data_id_identifies:
  assumes "t = KV_DATA_ID \<or> t = LUCOOR_DATA_ID" "length lb = NDIM" "length ub = NDIM" "length lb' = NDIM" "length ub' = NDIM"
  shows "get_data_id_msg t (snd (encode_msg_map (int NDIM) key ver lb ub m)) = get_data_id t key ver lb ub \<and>
     (get_data_id t key ver lb ub = get_data_id t key' ver' lb' ub' \<longleftrightarrow>
        (if t = KV_DATA_ID then key = key' \<and> ver = ver' else lb = lb' \<and> ub = ub'))"
proof
  show "get_data_id_msg t (snd (encode_msg_map (int NDIM) key ver lb ub m)) = get_data_id t key ver lb ub"
    using assms by (auto simp: get_data_id_msg_def get_data_id_def encode_msg_map_def msg_get_def)
  show "get_data_id t key ver lb ub = get_data_id t key' ver' lb' ub' \<longleftrightarrow>
        (if t = KV_DATA_ID then key = key' \<and> ver = ver' else lb = lb' \<and> ub = ub')"
  proof (cases "t = KV_DATA_ID")
    case True
    then show ?thesis
      using last_sep_unique [of key "CHR ''_''" "unat ver" key' "unat ver'"]
      by (auto simp: get_data_id_def unsigned_word_eqI)
  next
    case False
    have "lb \<noteq> []" "ub \<noteq> []" "lb' \<noteq> []" "ub' \<noteq> []" using assms(2-5) by (auto simp: NDIM_def)
    moreover have "CHR ''_'' \<notin> set (arr_to_str xs)" for xs using arr_to_str_chars [of "CHR ''_''" xs] by auto
    ultimately have "arr_to_str lb @ ''_'' @ arr_to_str ub = arr_to_str lb' @ ''_'' @ arr_to_str ub' \<longleftrightarrow> lb = lb' \<and> ub = ub'"
      using sep_unique [of "arr_to_str lb" "CHR ''_''" "arr_to_str ub" "arr_to_str lb'" "arr_to_str ub'"]
      by (auto simp: arr_to_str_inject)
    then show ?thesis using False assms by (auto simp: get_data_id_def)
  qed
qed

theorem data_id_identifies_witness:
  "get_data_id_msg KV_DATA_ID (snd (encode_msg_map (int NDIM) ''a_1'' 2 [0, 0, 0] [1, 1, 1] [])) = Some ''a_1_2'' \<and>
   get_data_id KV_DATA_ID ''a_1'' 2 [0, 0, 0] [1, 1, 1] \<noteq> get_data_id KV_DATA_ID ''a'' 12 [0, 0, 0] [1, 1, 1]"
proof -
  note id = data_id_identifies [of KV_DATA_ID "[0, 0, 0]" "[1, 1, 1]" "[0, 0, 0]" "[1, 1, 1]" "''a_1''" 2 "[]" "''a''" 12]
  have "get_data_id KV_DATA_ID ''a_1'' 2 [0, 0, 0] [1, 1, 1] = Some ''a_1_2''"
    by code_simp
  with id show ?thesis by (simp add: NDIM_def)
qed

end
