(* ===== verification/Packet.thy ===== *)
theory Packet
  imports Msg_Codec
begin

text \<open>
  \<open>sdm_control/packet.cpp\<close> and the receiving loop of \<open>sdm_server.cpp\<close>: a packet is a header of four
  decimal digits (the length of what follows), one character of type, the serialized string map and a
  NUL. Serialization is boost's text archive: a parameter \<open>serial\<close>, with \<open>serial_ok\<close> on the maps it
  reads back. \<open>int_to_char_\<close> allocates \<open>char_size\<close> bytes and copies \<open>char_size + 1\<close> (the terminator): the
  byte past the end is left out here, no caller reads it.
\<close>

subsection \<open>Packets\<close>

definition PACKET_JOIN_REQUEST :: char where "PACKET_JOIN_REQUEST = CHR ''J''"
definition PACKET_JOIN_REPLY :: char where "PACKET_JOIN_REPLY = CHR ''j''"
definition PACKET_JOIN_ACK :: char where "PACKET_JOIN_ACK = CHR ''a''"
definition PACKET_JOIN_NACK :: char where "PACKET_JOIN_NACK = CHR ''n''"
definition PACKET_PING :: char where "PACKET_PING = CHR ''P''"
definition PACKET_PONG :: char where "PACKET_PONG = CHR ''p''"
definition PACKET_RIMSG :: char where "PACKET_RIMSG = CHR ''I''"
definition PACKET_CMSG :: char where "PACKET_CMSG = CHR ''C''"

lemmas packet_type_defs = PACKET_JOIN_REQUEST_def PACKET_JOIN_REPLY_def PACKET_JOIN_ACK_def PACKET_JOIN_NACK_def
  PACKET_PING_def PACKET_PONG_def PACKET_RIMSG_def PACKET_CMSG_def

definition SIZE_SIZE :: nat where "SIZE_SIZE = 4"
definition TYPE_SIZE :: nat where "TYPE_SIZE = 1"
definition TAIL_SIZE :: nat where "TAIL_SIZE = 1"
definition MAX_MSG_SIZE :: nat where "MAX_MSG_SIZE = 512"

lemmas size_defs = SIZE_SIZE_def TYPE_SIZE_def TAIL_SIZE_def MAX_MSG_SIZE_def

text \<open>Return code and result of the archive; on an error the result is what had been read so far.\<close>

record serial =
  ser :: "msg_map \<Rightarrow> rc \<times> string"
  deser :: "string \<Rightarrow> rc \<times> msg_map"

record packet =
  p_type :: char
  p_msg_map :: msg_map
  p_data :: string
  p_packet_size :: nat
  p_msg_size :: nat

text \<open>A null pointer (a number that does not fit) is \<open>None\<close>: it is passed to \<open>memcpy\<close>.\<close>

definition int_to_char :: "nat \<Rightarrow> int \<Rightarrow> string option" where
  "int_to_char char_size number =
     (let str = dec_int number in
      if char_size < length str then None
      else Some (replicate (char_size - length str) CHR ''0'' @ str))"

text \<open>The bytes every constructor lays out.\<close>

definition packet_bytes :: "char \<Rightarrow> string \<Rightarrow> string option" where
  "packet_bytes t msg =
     map_option (\<lambda>h. h @ t # msg @ [CHR 0x00]) (int_to_char SIZE_SIZE (int (TYPE_SIZE + length msg + TAIL_SIZE)))"

text \<open>\<open>Packet(type, msg_map)\<close>: a message longer than \<open>MAX_MSG_SIZE\<close> is cut. If the archive fails the
  fields stay uninitialised.\<close>

definition packet_of_map :: "serial \<Rightarrow> char \<Rightarrow> msg_map \<Rightarrow> packet option" where
  "packet_of_map S t m =
     (let (err, str) = ser S m in
      if err \<noteq> 0 then None
      else let msg = take MAX_MSG_SIZE str in
        map_option (\<lambda>d. \<lparr>p_type = t, p_msg_map = m, p_data = d,
          p_packet_size = SIZE_SIZE + TYPE_SIZE + length msg + TAIL_SIZE, p_msg_size = length msg\<rparr>) (packet_bytes t msg))"

text \<open>\<open>Packet(type, msg_)\<close>.\<close>

definition packet_of_msg :: "char \<Rightarrow> string \<Rightarrow> packet option" where
  "packet_of_msg t s =
     (let msg = take MAX_MSG_SIZE (c_str s) in
      map_option (\<lambda>d. \<lparr>p_type = t, p_msg_map = [], p_data = d,
        p_packet_size = SIZE_SIZE + TYPE_SIZE + length msg + TAIL_SIZE, p_msg_size = length msg\<rparr>) (packet_bytes t msg))"

text \<open>\<open>Packet(size, type__srlzed_msg_map)\<close> on a received string without NUL; the empty string is read out
  of bounds. A failing archive is only logged.\<close>

definition packet_of_bytes :: "serial \<Rightarrow> string \<Rightarrow> packet option" where
  "packet_of_bytes S buf =
     (case buf of
        [] \<Rightarrow> None
      | t # msg \<Rightarrow>
          let (_, m) = deser S msg in
          map_option (\<lambda>d. \<lparr>p_type = t, p_msg_map = m, p_data = d,
            p_packet_size = SIZE_SIZE + TYPE_SIZE + length msg + TAIL_SIZE, p_msg_size = length msg\<rparr>) (packet_bytes t msg))"

subsection \<open>The receiving loop\<close>

text \<open>\<open>init_recv\<close> on the bytes a connection delivers before it is closed: the bodies handed to the
  callback. A header that is not a number is skipped; a body that is cut off is dropped.\<close>

function recv_frames :: "lexer \<Rightarrow> string \<Rightarrow> string list option" where
  "recv_frames L s =
     (if length s < SIZE_SIZE then Some []
      else case lex_int L (take SIZE_SIZE s) of
        None \<Rightarrow> recv_frames L (drop SIZE_SIZE s)
      | Some n \<Rightarrow>
          if n < 0 then None
          else if length (drop SIZE_SIZE s) < nat n then Some []
          else map_option (\<lambda>fs. take (nat n) (drop SIZE_SIZE s) # fs) (recv_frames L (drop (SIZE_SIZE + nat n) s)))"
  by pat_completeness auto
termination
  by (relation "measure (\<lambda>(L, s). length s)") (auto simp: SIZE_SIZE_def)

declare recv_frames.simps [simp del]

text \<open>What \<open>handle_recv\<close> makes of a body: a C string.\<close>

definition receive :: "serial \<Rightarrow> string \<Rightarrow> packet option" where
  "receive S body = packet_of_bytes S (c_str body)"

subsection \<open>What is relied on of boost\<close>

definition frame_lexer_ok :: "lexer \<Rightarrow> bool" where
  "frame_lexer_ok L \<longleftrightarrow> (\<forall>n<10000. lex_int L (the (int_to_char SIZE_SIZE (int n))) = Some (int n))"

text \<open>The archive reads back what it wrote for \<open>m\<close>, and writes no NUL.\<close>

definition serial_ok :: "serial \<Rightarrow> msg_map \<Rightarrow> bool" where
  "serial_ok S m \<longleftrightarrow> fst (ser S m) = 0 \<and> CHR 0x00 \<notin> set (snd (ser S m)) \<and> deser S (snd (ser S m)) = (0, m)"

subsection \<open>Lemmas\<close>

lemma header:
  assumes "n < 10000"
  shows "\<exists>h. int_to_char SIZE_SIZE (int n) = Some h \<and> length h = SIZE_SIZE"
proof -
  have "length (dec n) \<le> 4" using length_dec [of n 4] assms by simp
  then show ?thesis by (simp add: int_to_char_def dec_int_def SIZE_SIZE_def Let_def)
qed

lemma packet_bytes_short:
  assumes "length msg \<le> MAX_MSG_SIZE"
  shows "\<exists>h. packet_bytes t msg = Some (h @ t # msg @ [CHR 0x00]) \<and> length h = SIZE_SIZE \<and>
    int_to_char SIZE_SIZE (int (TYPE_SIZE + length msg + TAIL_SIZE)) = Some h"
  using header [of "TYPE_SIZE + length msg + TAIL_SIZE"] assms by (auto simp: packet_bytes_def size_defs)

lemma packet_of_map_data:
  assumes "fst (ser S m) = 0"
  shows "\<exists>p h. packet_of_map S t m = Some p \<and> p_data p = h @ t # take MAX_MSG_SIZE (snd (ser S m)) @ [CHR 0x00] \<and>
     length h = SIZE_SIZE \<and>
     int_to_char SIZE_SIZE (int (TYPE_SIZE + length (take MAX_MSG_SIZE (snd (ser S m))) + TAIL_SIZE)) = Some h"
proof -
  obtain str where str: "ser S m = (0, str)" using assms by (metis prod.collapse)
  have "length (take MAX_MSG_SIZE str) \<le> MAX_MSG_SIZE" by simp
  from packet_bytes_short [OF this, of t] show ?thesis by (auto simp: packet_of_map_def str)
qed

lemma recv_frames_Cons:
  assumes L: "frame_lexer_ok L" and h: "int_to_char SIZE_SIZE (int n) = Some h" "length h = SIZE_SIZE"
    and b: "length body = n" "n < 10000"
  shows "recv_frames L (h @ body @ rest) = map_option (\<lambda>fs. body # fs) (recv_frames L rest)"
proof -
  have "lex_int L h = Some (int n)"
    using L h(1) b(2) unfolding frame_lexer_ok_def by (metis option.sel)
  then show ?thesis using h(2) b(1) by (simp add: recv_frames.simps [of L "h @ body @ rest"])
qed

lemma frame_std_lexer: "frame_lexer_ok std_lexer"
proof -
  have "undec (replicate k CHR ''0'' @ s) = undec s" for k s
  proof -
    have "foldl (\<lambda>a c. 10 * a + digit_val c) 0 (replicate k CHR ''0'') = 0"
      by (induction k) (simp_all add: digit_val_def)
    then show ?thesis by (simp add: undec_def)
  qed
  moreover have "hd (replicate k CHR ''0'' @ dec n) \<noteq> CHR ''-''" for k n
    by (cases k) simp_all
  ultimately have lex: "lex_int std_lexer (replicate k CHR ''0'' @ dec n) = Some (int n)" for k n
    by (simp add: std_lexer_def del: replicate.simps)
  have "int_to_char SIZE_SIZE (int n) = Some (replicate (SIZE_SIZE - length (dec n)) CHR ''0'' @ dec n)" if "n < 10000" for n
    using length_dec [of n 4] that by (simp add: int_to_char_def dec_int_def SIZE_SIZE_def Let_def)
  with lex show ?thesis unfolding frame_lexer_ok_def by simp
qed

text \<open>A toy archive for concrete runs: one entry per map.\<close>

definition entry_serial :: serial where
  "entry_serial = \<lparr>ser = (\<lambda>m. (0, case m of (k, v) # _ \<Rightarrow> k @ '','' @ v | [] \<Rightarrow> [])),
     deser = (\<lambda>s. (0, case split_on CHR '','' s of [k, v] \<Rightarrow> [(k, v)] | _ \<Rightarrow> []))\<rparr>"

subsection \<open>Properties\<close>

text \<open>C21: whatever packets are written to a connection one after the other, the receiving loop cuts the
  stream at the packet boundaries, each body being the type and the first 512 bytes of the archive; a
  packet whose archive fits comes out with its type and its map.\<close>

theorem packets_framed:
  assumes "frame_lexer_ok L" and "\<forall>(t, m)\<in>set ps. t \<noteq> CHR 0x00 \<and> serial_ok S m"
  shows "recv_frames L (concat (map (\<lambda>(t, m). p_data (the (packet_of_map S t m))) ps)) =
       Some (map (\<lambda>(t, m). t # take MAX_MSG_SIZE (snd (ser S m)) @ [CHR 0x00]) ps) \<and>
     (\<forall>(t, m)\<in>set ps. length (snd (ser S m)) \<le> MAX_MSG_SIZE \<longrightarrow>
        (\<exists>p. receive S (t # take MAX_MSG_SIZE (snd (ser S m)) @ [CHR 0x00]) = Some p \<and> p_type p = t \<and> p_msg_map p = m))"
proof
  show "recv_frames L (concat (map (\<lambda>(t, m). p_data (the (packet_of_map S t m))) ps)) =
       Some (map (\<lambda>(t, m). t # take MAX_MSG_SIZE (snd (ser S m)) @ [CHR 0x00]) ps)"
    using assms(2)
  proof (induction ps)
    case Nil
    then show ?case by (simp add: recv_frames.simps [of L "[]"] SIZE_SIZE_def)
  next
    case (Cons x ps)
    obtain t m where x: "x = (t, m)" by (cases x)
    let ?b = "t # take MAX_MSG_SIZE (snd (ser S m)) @ [CHR 0x00]"
    have "fst (ser S m) = 0" using Cons(2) x by (simp add: serial_ok_def)
    then obtain p h where p: "packet_of_map S t m = Some p" "p_data p = h @ ?b" "length h = SIZE_SIZE"
      "int_to_char SIZE_SIZE (int (length ?b)) = Some h"
      using packet_of_map_data [of S m t] by (auto simp: size_defs)
    have "length ?b < 10000" by (simp add: MAX_MSG_SIZE_def)
    from recv_frames_Cons [OF assms(1) p(4,3) refl this] Cons show ?case by (simp add: x p)
  qed
  show "\<forall>(t, m)\<in>set ps. length (snd (ser S m)) \<le> MAX_MSG_SIZE \<longrightarrow>
        (\<exists>p. receive S (t # take MAX_MSG_SIZE (snd (ser S m)) @ [CHR 0x00]) = Some p \<and> p_type p = t \<and> p_msg_map p = m)"
  proof (intro ballI, clarify)
    fix t m
    assume tm: "(t, m) \<in> set ps" and le: "length (snd (ser S m)) \<le> MAX_MSG_SIZE"
    have s: "t \<noteq> CHR 0x00" "CHR 0x00 \<notin> set (snd (ser S m))" "deser S (snd (ser S m)) = (0, m)"
      using assms(2) tm by (auto simp: serial_ok_def)
    have "c_str (t # snd (ser S m) @ [CHR 0x00]) = t # snd (ser S m)"
      using s(1,2) by (subst c_str_def, simp, subst takeWhile_append2) auto
    then show "\<exists>p. receive S (t # take MAX_MSG_SIZE (snd (ser S m)) @ [CHR 0x00]) = Some p \<and> p_type p = t \<and> p_msg_map p = m"
      using packet_bytes_short [OF le, of t] le s(3) by (auto simp: receive_def packet_of_bytes_def)
  qed
qed

lemma entry_serial_ok: "serial_ok entry_serial [(''id'', ''7'')]" "serial_ok entry_serial [(''type'', ''m'')]"
  by (simp_all add: serial_ok_def entry_serial_def)

theorem packets_framed_witness:
  "recv_frames std_lexer (concat (map (\<lambda>(t, m). p_data (the (packet_of_map entry_serial t m)))
      [(PACKET_CMSG, [(''id'', ''7'')]), (PACKET_PING, [(''type'', ''m'')])])) =
    Some [''Cid,7'' @ [CHR 0x00], ''Ptype,m'' @ [CHR 0x00]]"
  using packets_framed [OF frame_std_lexer,
      of "[(PACKET_CMSG, [(''id'', ''7'')]), (PACKET_PING, [(''type'', ''m'')])]" entry_serial]
  by (simp add: entry_serial_ok packet_type_defs) (simp add: entry_serial_def MAX_MSG_SIZE_def)

end
