(* ===== verification/QTable.thy ===== *)
theory QTable
  imports Msg_Codec "HOL-Library.Multiset" "HOL-Library.Char_ord" "HOL-Library.List_Lexorder" "HOL-Library.Product_Lexorder"
begin

text \<open>
  The query tables of \<open>prefetch/include/sfc.h\<close>: \<open>QTable\<close> is the interface, \<open>KVTable\<close> keeps the values
  under key and version, \<open>RTable\<close> under the box. \<open>boost::geometry\<close>'s rtree is a parameter, the record
  \<open>rtree_ops\<close>; \<open>rtree_ok\<close> is its documented behaviour: a multiset of boxes with values, queried for the
  boxes that contain one. The contract both tables fulfil is the locale \<open>query_table\<close>.
\<close>

type_synonym key_ver_pair = "string \<times> u32"

text \<open>\<open>IS_VALID_BOX\<close>: the check fails on the first dimension without extent.\<close>

definition box_valid :: "coor \<Rightarrow> coor \<Rightarrow> bool" where
  "box_valid l u \<longleftrightarrow> list_all (\<lambda>i. \<not> u ! i \<le> l ! i) [0..<NDIM]"

subsection \<open>KVTable\<close>

type_synonym 'v kvtable = "(key_ver_pair, 'v list) smap"

definition kvt_add :: "string \<Rightarrow> u32 \<Rightarrow> coor \<Rightarrow> coor \<Rightarrow> 'v \<Rightarrow> 'v kvtable \<Rightarrow> rc \<times> 'v kvtable" where
  "kvt_add key ver l u val m =
     (if \<not> box_valid l u then (1, m)
      else let kv = (key, ver);
               m = (if \<not> tsmap_contains kv m then smap_put kv [] m else m)
           in (0, smap_put kv (tsvec_push_back val (smap_get [] kv m)) m))"

definition kvt_query :: "string \<Rightarrow> u32 \<Rightarrow> coor \<Rightarrow> coor \<Rightarrow> 'v list \<Rightarrow> 'v kvtable \<Rightarrow> rc \<times> 'v list" where
  "kvt_query key ver l u val_v m =
     (if \<not> box_valid l u then (1, val_v)
      else if \<not> tsmap_contains (key, ver) m then (1, val_v)
      else (0, val_v @ smap_get [] (key, ver) m))"

definition kvt_del :: "string \<Rightarrow> u32 \<Rightarrow> coor \<Rightarrow> coor \<Rightarrow> 'v kvtable \<Rightarrow> (rc \<times> 'v kvtable) option" where
  "kvt_del key ver l u m =
     (if \<not> box_valid l u then Some (1, m)
      else if \<not> tsmap_contains (key, ver) m then Some (1, m)
      else map_option (\<lambda>m. (0, m)) (tsmap_del (key, ver) m))"

subsection \<open>RTable\<close>

text \<open>Points of \<open>int\<close>: \<open>CREATE_BOX\<close> converts every coordinate.\<close>

type_synonym box = "int list \<times> int list"

definition to_int :: "u64 \<Rightarrow> int" where
  "to_int x = sint (ucast x :: 32 word)"

definition CREATE_BOX :: "coor \<Rightarrow> coor \<Rightarrow> box" where
  "CREATE_BOX l u = (map to_int (take NDIM l), map to_int (take NDIM u))"

record ('r, 'v) rtree_ops =
  rt_empty :: 'r
  rt_insert :: "box \<times> 'v \<Rightarrow> 'r \<Rightarrow> 'r"
  rt_remove :: "box \<times> 'v \<Rightarrow> 'r \<Rightarrow> 'r"
  rt_contains :: "box \<Rightarrow> 'r \<Rightarrow> (box \<times> 'v) list"
  rt_bounds :: "'r \<Rightarrow> box"
  rt_elems :: "'r \<Rightarrow> (box \<times> 'v) list"

definition rt_add :: "('r, 'v, 'b) rtree_ops_scheme \<Rightarrow> string \<Rightarrow> u32 \<Rightarrow> coor \<Rightarrow> coor \<Rightarrow> 'v \<Rightarrow> 'r \<Rightarrow> rc \<times> 'r" where
  "rt_add R key ver l u val r =
     (if \<not> box_valid l u then (1, r) else (0, rt_insert R (CREATE_BOX l u, val) r))"

definition rt_query :: "('r, 'v, 'b) rtree_ops_scheme \<Rightarrow> string \<Rightarrow> u32 \<Rightarrow> coor \<Rightarrow> coor \<Rightarrow> 'v list \<Rightarrow> 'r \<Rightarrow> rc \<times> 'v list" where
  "rt_query R key ver l u val_v r =
     (if \<not> box_valid l u then (1, val_v)
      else let val_v = val_v @ map snd (rt_contains R (CREATE_BOX l u) r)
           in (if length val_v = 0 then 1 else 0, val_v))"

definition rt_del :: "('r, 'v, 'b) rtree_ops_scheme \<Rightarrow> string \<Rightarrow> u32 \<Rightarrow> coor \<Rightarrow> coor \<Rightarrow> 'r \<Rightarrow> rc \<times> 'r" where
  "rt_del R key ver l u r =
     (if \<not> box_valid l u then (1, r)
      else let (err, val_v) = rt_query R key ver l u [] r
           in if err \<noteq> 0 then (1, r)
              else (0, fold (\<lambda>v. rt_remove R (CREATE_BOX l u, v)) val_v r))"

text \<open>The corners are converted back to 64 bits. The function ends without the return code it declares.\<close>

definition get_bound_lucoor :: "('r, 'v, 'b) rtree_ops_scheme \<Rightarrow> 'r \<Rightarrow> coor \<times> coor" where
  "get_bound_lucoor R r = map_prod (map word_of_int) (map word_of_int) (rt_bounds R r)"

subsection \<open>What is relied on of the rtree\<close>

definition covers :: "box \<Rightarrow> box \<Rightarrow> bool" where
  "covers b q \<longleftrightarrow> list_all2 (\<le>) (fst b) (fst q) \<and> list_all2 (\<ge>) (snd b) (snd q)"

definition min_corner :: "int list list \<Rightarrow> int list" where
  "min_corner ps = map (\<lambda>i. Min ((\<lambda>p. p ! i) ` set ps)) [0..<NDIM]"

definition max_corner :: "int list list \<Rightarrow> int list" where
  "max_corner ps = map (\<lambda>i. Max ((\<lambda>p. p ! i) ` set ps)) [0..<NDIM]"

definition rtree_ok :: "('r, 'v, 'b) rtree_ops_scheme \<Rightarrow> bool" where
  "rtree_ok R \<longleftrightarrow>
     rt_elems R (rt_empty R) = [] \<and>
     (\<forall>x r. mset (rt_elems R (rt_insert R x r)) = add_mset x (mset (rt_elems R r))) \<and>
     (\<forall>x r. mset (rt_elems R (rt_remove R x r)) = mset (rt_elems R r) - {#x#}) \<and>
     (\<forall>b r. mset (rt_contains R b r) = filter_mset (\<lambda>x. covers (fst x) b) (mset (rt_elems R r))) \<and>
     (\<forall>r. rt_elems R r \<noteq> [] \<longrightarrow>
        rt_bounds R r = (min_corner (map (fst \<circ> fst) (rt_elems R r)), max_corner (map (snd \<circ> fst) (rt_elems R r))))"

text \<open>A plain list of entries with these laws.\<close>

definition list_rtree :: "((box \<times> 'v) list, 'v) rtree_ops" where
  "list_rtree = \<lparr>rt_empty = [], rt_insert = (\<lambda>x r. x # r), rt_remove = remove1,
     rt_contains = (\<lambda>b. filter (\<lambda>x. covers (fst x) b)),
     rt_bounds = (\<lambda>r. (min_corner (map (fst \<circ> fst) r), max_corner (map (snd \<circ> fst) r))),
     rt_elems = (\<lambda>r. r)\<rparr>"

lemma list_rtree_ok: "rtree_ok list_rtree"
  by (simp add: rtree_ok_def list_rtree_def)

subsection \<open>The contract of a query table\<close>

text \<open>\<open>stored t i\<close> is what was added under item \<open>i\<close>; \<open>finds i q\<close>: a query for \<open>q\<close> meets what is stored
  under \<open>i\<close>.\<close>

locale query_table =
  fixes add :: "string \<Rightarrow> u32 \<Rightarrow> coor \<Rightarrow> coor \<Rightarrow> 'v \<Rightarrow> 't \<Rightarrow> rc \<times> 't"
    and del :: "string \<Rightarrow> u32 \<Rightarrow> coor \<Rightarrow> coor \<Rightarrow> 't \<Rightarrow> (rc \<times> 't) option"
    and query :: "string \<Rightarrow> u32 \<Rightarrow> coor \<Rightarrow> coor \<Rightarrow> 'v list \<Rightarrow> 't \<Rightarrow> rc \<times> 'v list"
    and item :: "string \<Rightarrow> u32 \<Rightarrow> coor \<Rightarrow> coor \<Rightarrow> 'i"
    and finds :: "'i \<Rightarrow> 'i \<Rightarrow> bool"
    and stored :: "'t \<Rightarrow> 'i \<Rightarrow> 'v multiset"
    and ok :: "'t \<Rightarrow> bool"
  assumes finds_refl: "finds i i"
    and add_valid: "box_valid l u \<Longrightarrow> ok t \<Longrightarrow> fst (add k n l u v t) = 0 \<and> ok (snd (add k n l u v t)) \<and>
      stored (snd (add k n l u v t)) = (stored t)(item k n l u := add_mset v (stored t (item k n l u)))"
    and add_invalid: "\<not> box_valid l u \<Longrightarrow> add k n l u v t = (1, t)"
    and query_iff: "ok t \<Longrightarrow> box_valid l u \<Longrightarrow>
      v \<in> set (snd (query k n l u [] t)) \<longleftrightarrow> (\<exists>i. finds i (item k n l u) \<and> v \<in># stored t i)"
    and query_rc: "ok t \<Longrightarrow> box_valid l u \<Longrightarrow> fst (query k n l u [] t) = (if snd (query k n l u [] t) = [] then 1 else 0)"
    and query_invalid: "\<not> box_valid l u \<Longrightarrow> query k n l u [] t = (1, [])"
    and del_valid: "ok t \<Longrightarrow> box_valid l u \<Longrightarrow> fst (query k n l u [] t) = 0 \<Longrightarrow>
      \<exists>t'. del k n l u t = Some (0, t') \<and> ok t' \<and> stored t' = (stored t)(item k n l u := {#})"
    and del_invalid: "\<not> box_valid l u \<or> fst (query k n l u [] t) \<noteq> 0 \<Longrightarrow> del k n l u t = Some (1, t)"
begin

lemma added_is_found:
  assumes "ok t" "box_valid l u"
  shows "fst (query k n l u [] (snd (add k n l u v t))) = 0 \<and> v \<in> set (snd (query k n l u [] (snd (add k n l u v t))))"
proof -
  note a = add_valid [OF assms(2,1), of k n v]
  have "v \<in> set (snd (query k n l u [] (snd (add k n l u v t))))"
    using a query_iff [of "snd (add k n l u v t)" l u v k n] assms(2) finds_refl by auto
  with a assms(2) show ?thesis by (auto simp: query_rc)
qed

lemma found_stays:
  assumes "ok t" "v \<in> set (snd (query k n l u [] t))"
  shows "v \<in> set (snd (query k n l u [] (snd (add k' n' l' u' v' t))))"
proof (cases "box_valid l u \<and> box_valid l' u'")
  case True
  note a = add_valid [OF conjunct2 [OF True] assms(1), of k' n' v']
  show ?thesis
    using True a query_iff [of t l u v k n] query_iff [of "snd (add k' n' l' u' v' t)" l u v k n] assms by force
qed (use assms add_invalid query_invalid in auto)

lemma deleted_is_gone:
  assumes "ok t" "del k n l u t = Some (0, t')"
  shows "ok t' \<and> stored t' (item k n l u) = {#} \<and> (\<forall>i. i \<noteq> item k n l u \<longrightarrow> stored t' i = stored t i)"
proof -
  have "box_valid l u \<and> fst (query k n l u [] t) = 0"
    by (rule ccontr) (use assms(2) del_invalid [of l u k n t] in auto)
  then show ?thesis using del_valid [OF assms(1)] assms(2) by fastforce
qed

lemma never_undefined: "ok t \<Longrightarrow> \<exists>r t'. del k n l u t = Some (r, t') \<and> ok t'"
  using del_valid del_invalid by metis

end

subsection \<open>Both tables fulfil it\<close>

definition kvt_ok :: "'v kvtable \<Rightarrow> bool" where
  "kvt_ok m \<longleftrightarrow> smap_ok m \<and> (\<forall>kv. map_of m kv \<noteq> Some [])"

definition kvt_stored :: "'v kvtable \<Rightarrow> key_ver_pair \<Rightarrow> 'v multiset" where
  "kvt_stored m kv = mset (smap_get [] kv m)"

lemma kvt_ok_get: "kvt_ok m \<Longrightarrow> smap_contains kv m \<longleftrightarrow> smap_get [] kv m \<noteq> []"
  by (cases kv, cases "map_of m kv") (auto simp: kvt_ok_def smap_contains_def smap_get_def)

interpretation kvt: query_table kvt_add kvt_del kvt_query "\<lambda>k n l u. (k, n)" "(=)" kvt_stored "kvt_ok :: 'v kvtable \<Rightarrow> bool"
proof
  fix l u :: coor and t :: "'v kvtable" and k n v
  assume "box_valid l u" "kvt_ok t"
  then show "fst (kvt_add k n l u v t) = 0 \<and> kvt_ok (snd (kvt_add k n l u v t)) \<and>
      kvt_stored (snd (kvt_add k n l u v t)) = (kvt_stored t)((k, n) := add_mset v (kvt_stored t (k, n)))"
    by (auto simp: kvt_add_def kvt_stored_def kvt_ok_def fun_eq_iff Let_def smap_ok_put smap_get_default)
next
  fix l u :: coor and t :: "'v kvtable" and k n v
  assume "kvt_ok t" "box_valid l u"
  then show "v \<in> set (snd (kvt_query k n l u [] t)) \<longleftrightarrow> (\<exists>i. i = (k, n) \<and> v \<in># kvt_stored t i)"
    by (auto simp: kvt_query_def kvt_stored_def smap_get_default)
next
  fix l u :: coor and t :: "'v kvtable" and k n
  assume "kvt_ok t" "box_valid l u"
  then show "fst (kvt_query k n l u [] t) = (if snd (kvt_query k n l u [] t) = [] then 1 else 0)"
    using kvt_ok_get [of t "(k, n)"] by (auto simp: kvt_query_def)
next
  fix l u :: coor and t :: "'v kvtable" and k n
  assume "kvt_ok t" "box_valid l u" "fst (kvt_query k n l u [] t) = 0"
  then show "\<exists>t'. kvt_del k n l u t = Some (0, t') \<and> kvt_ok t' \<and> kvt_stored t' = (kvt_stored t)((k, n) := {#})"
    by (auto simp: kvt_del_def kvt_query_def kvt_ok_def kvt_stored_def fun_eq_iff smap_ok_erase split: if_splits)
qed (auto simp: kvt_add_def kvt_query_def kvt_del_def split: if_splits)

text \<open>The rtable over any tree with the documented behaviour; the tree is fixed by the interpretation's
  argument.\<close>

definition rt_stored :: "('r, 'v, 'b) rtree_ops_scheme \<Rightarrow> 'r \<Rightarrow> box \<Rightarrow> 'v multiset" where
  "rt_stored R r b = image_mset snd (filter_mset (\<lambda>x. fst x = b) (mset (rt_elems R r)))"

lemma rt_stored_iff: "v \<in># rt_stored R r b \<longleftrightarrow> (b, v) \<in># mset (rt_elems R r)"
  by (force simp: rt_stored_def)

lemma covers_refl: "covers b b"
  by (simp add: covers_def list_all2_same)

lemma rtree_laws:
  assumes "rtree_ok R"
  shows "mset (rt_elems R (rt_insert R x r)) = add_mset x (mset (rt_elems R r))"
    "mset (rt_elems R (rt_remove R x r)) = mset (rt_elems R r) - {#x#}"
    "mset (rt_contains R b r) = filter_mset (\<lambda>x. covers (fst x) b) (mset (rt_elems R r))"
  using assms unfolding rtree_ok_def by blast+

lemma rt_removes:
  assumes "rtree_ok R"
  shows "mset (rt_elems R (fold (\<lambda>v. rt_remove R (b, v)) vs r)) = mset (rt_elems R r) - image_mset (Pair b) (mset vs)"
  by (induction vs arbitrary: r) (simp_all add: rtree_laws [OF assms])

lemma pairs_of: "filter_mset (\<lambda>x. fst x = b) M = image_mset (Pair b) (image_mset snd (filter_mset (\<lambda>x. fst x = b) M))"
  by (induction M) auto

lemma rt_del_stored:
  assumes R: "rtree_ok R" and m: "mset vs = image_mset snd (filter_mset (\<lambda>x. covers (fst x) b) (mset (rt_elems R r)))"
  shows "rt_stored R (fold (\<lambda>v. rt_remove R (b, v)) vs r) = (rt_stored R r)(b := {#})"
proof
  fix b'
  let ?M = "mset (rt_elems R r)"
  have "filter_mset (\<lambda>x. fst x = b) ?M \<subseteq># image_mset (Pair b) (mset vs)"
    unfolding m by (subst pairs_of, intro image_mset_subseteq_mono filter_mset_mono_strong) (auto simp: covers_refl)
  then have b: "filter_mset (\<lambda>x. fst x = b) ?M - image_mset (Pair b) (mset vs) = {#}"
    by (simp add: subset_mset.diff_add_assoc2 Diff_eq_empty_iff_mset)
  have "filter_mset (\<lambda>x. fst x = b') (image_mset (Pair b) (mset vs)) = (if b' = b then image_mset (Pair b) (mset vs) else {#})"
    by (induction vs) auto
  then show "rt_stored R (fold (\<lambda>v. rt_remove R (b, v)) vs r) b' = ((rt_stored R r)(b := {#})) b'"
    using b by (simp add: rt_stored_def rt_removes [OF R] filter_diff_mset)
qed

text \<open>The contract, for a tree that is documented as such.\<close>

lemma rt_query_table:
  assumes R: "rtree_ok R"
  shows "query_table (rt_add R) (\<lambda>k n l u r. Some (rt_del R k n l u r)) (rt_query R) (\<lambda>k n l u. CREATE_BOX l u) covers
    (rt_stored R) (\<lambda>_. True)"
proof
  fix l u and r and k n v
  assume "box_valid l u"
  then show "fst (rt_add R k n l u v r) = 0 \<and> True \<and>
      rt_stored R (snd (rt_add R k n l u v r)) = (rt_stored R r)(CREATE_BOX l u := add_mset v (rt_stored R r (CREATE_BOX l u)))"
    by (auto simp: rt_add_def rt_stored_def fun_eq_iff rtree_laws [OF R])
next
  fix l u r k n v
  assume "box_valid l u"
  then have "v \<in> set (snd (rt_query R k n l u [] r)) \<longleftrightarrow> v \<in># image_mset snd (mset (rt_contains R (CREATE_BOX l u) r))"
    by (simp add: rt_query_def)
  then show "v \<in> set (snd (rt_query R k n l u [] r)) \<longleftrightarrow> (\<exists>b. covers b (CREATE_BOX l u) \<and> v \<in># rt_stored R r b)"
    unfolding rt_stored_iff rtree_laws [OF R] by force
next
  fix l u r k n
  assume v: "box_valid l u" and "fst (rt_query R k n l u [] r) = 0"
  then have d: "rt_del R k n l u r = (0, fold (\<lambda>v. rt_remove R (CREATE_BOX l u, v)) (map snd (rt_contains R (CREATE_BOX l u) r)) r)"
    by (auto simp: rt_del_def rt_query_def)
  show "\<exists>t'. Some (rt_del R k n l u r) = Some (0, t') \<and> True \<and> rt_stored R t' = (rt_stored R r)(CREATE_BOX l u := {#})"
    using rt_del_stored [OF R, of "map snd (rt_contains R (CREATE_BOX l u) r)" "CREATE_BOX l u" r]
    by (simp add: d rtree_laws(3) [OF R, symmetric])
qed (auto simp: rt_add_def rt_query_def rt_del_def covers_refl split: if_splits prod.splits)

interpretation rt: query_table "rt_add list_rtree" "\<lambda>k n l u r. Some (rt_del list_rtree k n l u r)" "rt_query list_rtree"
    "\<lambda>k n l u. CREATE_BOX l u" covers "rt_stored list_rtree" "\<lambda>_. True"
  by (rule rt_query_table [OF list_rtree_ok])

subsection \<open>Properties\<close>

text \<open>What was added to a \<open>KVTable\<close> under a key and version, since it was last deleted.\<close>

datatype 'v kvt_op = KAdd string u32 coor coor 'v | KDel string u32 coor coor

fun kvt_step :: "'v kvt_op \<Rightarrow> 'v kvtable \<Rightarrow> 'v kvtable option" where
  "kvt_step (KAdd k n l u v) m = Some (snd (kvt_add k n l u v m))"
| "kvt_step (KDel k n l u) m = map_option snd (kvt_del k n l u m)"

fun kvt_log :: "key_ver_pair \<Rightarrow> 'v kvt_op list \<Rightarrow> 'v list \<Rightarrow> 'v list" where
  "kvt_log kv [] vs = vs"
| "kvt_log kv (KAdd k n l u v # ops) vs = kvt_log kv ops (if (k, n) = kv \<and> box_valid l u then vs @ [v] else vs)"
| "kvt_log kv (KDel k n l u # ops) vs = kvt_log kv ops (if (k, n) = kv \<and> box_valid l u then [] else vs)"

lemma kvt_run_log:
  assumes "kvt_ok m"
  shows "\<exists>m'. ops_run kvt_step ops m = Some m' \<and> kvt_ok m' \<and>
    (\<forall>kv. smap_get [] kv m' = kvt_log kv ops (smap_get [] kv m))"
  using assms
proof (induction ops arbitrary: m)
  case (Cons op ops)
  have "\<exists>m1. kvt_step op m = Some m1 \<and> kvt_ok m1 \<and> (\<forall>kv. kvt_log kv (op # ops) (smap_get [] kv m) = kvt_log kv ops (smap_get [] kv m1))"
  proof (cases op)
    case (KAdd k n l u v)
    then show ?thesis using Cons.prems
      by (auto simp: kvt_add_def kvt_ok_def Let_def smap_ok_put smap_get_default)
  next
    case (KDel k n l u)
    then show ?thesis using Cons.prems
      by (auto simp: kvt_del_def kvt_ok_def smap_ok_erase smap_get_default)
  qed
  then show ?case using Cons.IH by fastforce
qed simp

text \<open>C26: after any adds and deletes, a query of a \<open>KVTable\<close> with a box that has an extent returns what was
  added under that key and version since the last delete, in order, and fails exactly when there is
  nothing; no delete is undefined.\<close>

theorem kvtable_query_exact:
  assumes "box_valid l u"
  shows "\<exists>m. ops_run kvt_step ops [] = Some m \<and>
    kvt_query k n l u [] m = (if kvt_log (k, n) ops [] = [] then 1 else 0, kvt_log (k, n) ops [])"
proof -
  obtain m where m: "ops_run kvt_step ops [] = Some m" "kvt_ok m" "\<forall>kv. smap_get [] kv m = kvt_log kv ops []"
    using kvt_run_log [of "[]" ops] by (auto simp: kvt_ok_def)
  then show ?thesis using assms kvt_ok_get [OF m(2), of "(k, n)"]
    by (auto simp: kvt_query_def smap_get_default)
qed

theorem kvtable_query_exact_witness:
  "\<exists>m. ops_run kvt_step [KAdd ''a'' 1 [0,0,0] [1,1,1] (5::int), KAdd ''a'' 1 [0,0,0] [1,1,1] 6, KDel ''b'' 1 [0,0,0] [1,1,1]] [] = Some m \<and>
    kvt_query ''a'' 1 [0,0,0] [1,1,1] [] m = (0, [5, 6])"
  using kvtable_query_exact [of "[0,0,0]" "[1,1,1]" "[KAdd ''a'' 1 [0,0,0] [1,1,1] (5::int), KAdd ''a'' 1 [0,0,0] [1,1,1] 6, KDel ''b'' 1 [0,0,0] [1,1,1]]" "''a''" 1]
  by (simp add: box_valid_def NDIM_def eval_nat_numeral)



end
