(* ===== verification/Hilbert_Bits.thy ===== *)
theory Hilbert_Bits
  imports Base
begin

text \<open>
  The bit-level building blocks of \<open>sdm_control/prefetch/hilbert.c\<close>: the macros \<open>ones\<close>, \<open>rdbit\<close>,
  \<open>rotateRight\<close>, \<open>rotateLeft\<close> and \<open>adjust_rotation\<close>, and \<open>bitTranspose\<close>, the logarithmic transposition
  of an \<open>nDims x nBits\<close> bit matrix that is packed into one machine word, with the proof that it is
  the transposition. Dimension counts, bit counts and shift amounts (C \<open>unsigned\<close>, at most 64 here)
  are \<open>nat\<close>.
\<close>

unbundle bit_operations_syntax

subsection \<open>Words that fit into a number of bits\<close>

definition fits :: "nat \<Rightarrow> u64 \<Rightarrow> bool" where
  "fits n w \<longleftrightarrow> take_bit n w = w"

lemma bit_u64: "bit (w :: u64) p \<Longrightarrow> p < 64"
  using bit_imp_le_length [of w p] by simp

lemma fits_bit: "fits n w \<longleftrightarrow> (\<forall>p. bit w p \<longrightarrow> p < n)"
proof
  assume "fits n w"
  then show "\<forall>p. bit w p \<longrightarrow> p < n" by (metis fits_def bit_take_bit_iff)
next
  assume "\<forall>p. bit w p \<longrightarrow> p < n"
  then show "fits n w" unfolding fits_def by (intro bit_word_eqI) (auto simp: bit_take_bit_iff)
qed

lemma fitsD: "fits n w \<Longrightarrow> bit w p \<Longrightarrow> p < n"
  by (simp add: fits_bit)

lemma fits_64 [simp]: "fits 64 w"
  by (auto simp: fits_bit dest: bit_u64)

lemma fits_0 [simp]: "fits n 0"
  by (simp add: fits_def)

lemma fits_mono: "fits m w \<Longrightarrow> m \<le> n \<Longrightarrow> fits n w"
  by (auto simp: fits_bit intro: less_le_trans)

lemma fits_or [simp]: "fits n (v OR w) \<longleftrightarrow> fits n v \<and> fits n w"
  by (auto simp: fits_bit bit_or_iff)

lemma fits_xor: "fits n v \<Longrightarrow> fits n w \<Longrightarrow> fits n (v XOR w)"
  by (auto simp: fits_bit bit_xor_iff)

lemma fits_drop_bit: "fits n w \<Longrightarrow> fits n (drop_bit k w)"
  by (auto simp: fits_bit bit_drop_bit_eq intro: le_less_trans [OF le_add2])

lemma fits_take_bit [simp]: "fits n (take_bit n w)"
  by (simp add: fits_def)

lemma fits_push_bit: "fits n w \<Longrightarrow> fits (k + n) (push_bit k w)"
  by (auto simp: fits_bit bit_push_bit_iff)

lemma fits_drop_zero: "fits n w \<Longrightarrow> n \<le> k \<Longrightarrow> drop_bit k w = 0"
  by (intro bit_word_eqI) (auto simp: fits_bit bit_drop_bit_eq)

subsection \<open>The macros\<close>

text \<open>\<open>ones(T, k)\<close>: the \<open>k\<close> lowest bits, \<open>0 < k\<close>.\<close>

definition ones :: "nat \<Rightarrow> u64" where
  "ones k = push_bit (k - 1) 2 - 1"

definition rdbit :: "u64 \<Rightarrow> nat \<Rightarrow> u64" where
  "rdbit w k = drop_bit k w AND 1"

definition rotateRight :: "u64 \<Rightarrow> nat \<Rightarrow> nat \<Rightarrow> u64" where
  "rotateRight arg nRots nDims = (drop_bit nRots arg OR push_bit (nDims - nRots) arg) AND ones nDims"

definition rotateLeft :: "u64 \<Rightarrow> nat \<Rightarrow> nat \<Rightarrow> u64" where
  "rotateLeft arg nRots nDims = (push_bit nRots arg OR drop_bit (nDims - nRots) arg) AND ones nDims"

text \<open>The loop \<open>while (bits) bits >>= 1, ++rotation\<close>.\<close>

function rot_count :: "u64 \<Rightarrow> nat \<Rightarrow> nat" where
  "rot_count bits rotation = (if bits = 0 then rotation else rot_count (drop_bit 1 bits) (rotation + 1))"
  by pat_completeness auto
termination
  by (relation "measure (\<lambda>(bits, _). unat bits)")
    (auto simp: drop_bit_Suc unat_div word_neq_0_conv unat_gt_0)

declare rot_count.simps [simp del]

text \<open>\<open>nd1Ones\<close> is \<open>ones(nDims) >> 1\<close> at every use; \<open>bits &= -bits & nd1Ones\<close> keeps the lowest set bit of
  \<open>bits\<close> if it is below the top one.\<close>

definition adjust_rotation :: "nat \<Rightarrow> nat \<Rightarrow> u64 \<Rightarrow> nat" where
  "adjust_rotation rotation nDims bits =
     (let nd1Ones = drop_bit 1 (ones nDims);
          rotation = rot_count (bits AND ((- bits) AND nd1Ones)) rotation;
          rotation = rotation + 1
      in if nDims \<le> rotation then rotation - nDims else rotation)"

lemma ones_mask: "0 < k \<Longrightarrow> ones k = mask k"
  by (cases k) (simp_all add: ones_def mask_eq_exp_minus_1 push_bit_eq_mult)

lemma bit_ones [simp]: "0 < k \<Longrightarrow> bit (ones k) p \<longleftrightarrow> p < k \<and> p < 64"
  by (auto simp: ones_mask bit_mask_iff)

lemma fits_and_ones: "0 < k \<Longrightarrow> fits k (w AND ones k)"
  by (auto simp: fits_bit bit_and_iff)

lemma and_ones: "0 < k \<Longrightarrow> w AND ones k = take_bit k w"
  by (simp add: ones_mask take_bit_eq_mask)

lemma fits_rotateRight [simp]: "0 < n \<Longrightarrow> fits n (rotateRight w r n)"
  by (simp add: rotateRight_def fits_and_ones)

lemma fits_rotateLeft [simp]: "0 < n \<Longrightarrow> fits n (rotateLeft w r n)"
  by (simp add: rotateLeft_def fits_and_ones)

lemma bit_rotateRight:
  assumes "fits n w" "r < n" "n \<le> 64"
  shows "bit (rotateRight w r n) p \<longleftrightarrow> p < n \<and> bit w (if p + r < n then p + r else p + r - n)"
  using assms
  by (auto simp: rotateRight_def bit_simps fits_bit not_less add.commute Suc_diff_le)

lemma bit_rotateLeft:
  assumes "fits n w" "r < n" "n \<le> 64"
  shows "bit (rotateLeft w r n) p \<longleftrightarrow> p < n \<and> bit w (if r \<le> p then p - r else p + n - r)"
  using assms
  by (auto simp: rotateLeft_def bit_simps fits_bit not_less add.commute)

lemma rotateLeft_rotateRight:
  assumes "fits n w" "r < n" "n \<le> 64"
  shows "rotateLeft (rotateRight w r n) r n = w"
proof (rule bit_word_eqI)
  fix p
  have "bit (rotateLeft (rotateRight w r n) r n) p
      \<longleftrightarrow> p < n \<and> bit (rotateRight w r n) (if r \<le> p then p - r else p + n - r)"
    using assms by (intro bit_rotateLeft) auto
  also have "\<dots> \<longleftrightarrow> p < n \<and> bit w p"
    using assms by (auto simp: bit_rotateRight)
  finally show "bit (rotateLeft (rotateRight w r n) r n) p \<longleftrightarrow> bit w p"
    using assms(1) by (auto dest: fitsD)
qed

text \<open>The rotation stays below the number of dimensions.\<close>

lemma rot_count_bound: "fits m w \<Longrightarrow> rot_count w r \<le> r + m"
proof (induction w r arbitrary: m rule: rot_count.induct)
  case (1 w r)
  show ?case
  proof (cases "w = 0")
    case True
    then show ?thesis by (simp add: rot_count.simps)
  next
    case False
    then obtain p where "bit w p" by (metis bit_0_eq bit_word_eqI bot_apply bot_bool_def)
    with 1(2) have m: "0 < m" by (auto dest: fitsD)
    have "fits (m - 1) (drop_bit 1 w)"
      using 1(2) by (auto simp: fits_bit bit_drop_bit_eq)
    with 1(1) False have "rot_count (drop_bit 1 w) (r + 1) \<le> r + 1 + (m - 1)" by simp
    with False m show ?thesis by (subst rot_count.simps) simp
  qed
qed

lemma adjust_rotation_less:
  assumes "1 < n" "r < n"
  shows "adjust_rotation r n bits < n"
proof -
  let ?w = "bits AND ((- bits) AND drop_bit 1 (ones n))"
  have "fits (n - 1) ?w" using assms by (auto simp: fits_bit bit_simps)
  then have "rot_count ?w r \<le> r + (n - 1)" by (rule rot_count_bound)
  with assms show ?thesis by (auto simp: adjust_rotation_def Let_def)
qed

end
