(* ===== verification/Hilbert_Transpose.thy ===== *)
theory Hilbert_Transpose
  imports Hilbert_Bits
begin

text \<open>
  \<open>bitTranspose\<close> of \<open>sdm_control/prefetch/hilbert.c\<close> (the \<open>DLOGB_BIT_TRANSPOSE\<close> variant the file
  selects): an \<open>nDims x nBits\<close> matrix of bits packed in one word is transposed by halving the width
  of its fields in every round, with masks that are computed rather than tabulated. The last lemmas
  show that the result is the transposed matrix.
\<close>

unbundle bit_operations_syntax

subsection \<open>The code\<close>

text \<open>One dimension of a round; the state is \<open>inCoords\<close>, \<open>coords\<close> and \<open>utCoords\<close>. \<open>oddShift\<close> starts at
  \<open>2 * shiftAmt\<close> and grows by one per dimension.\<close>

definition bt_dim_odd ::
  "nat \<Rightarrow> u64 \<Rightarrow> u64 \<Rightarrow> nat \<Rightarrow> nat \<Rightarrow> u64 \<Rightarrow> nat \<Rightarrow> u64 \<times> u64 \<times> u64 \<Rightarrow> u64 \<times> u64 \<times> u64" where
  "bt_dim_odd inB inMask inFieldStarts shiftAmt utB utMask d = (\<lambda>(inCoords, coords, utCoords).
     let inp = inCoords AND inMask;
         inCoords = drop_bit inB inCoords;
         coords = coords OR push_bit (2 * shiftAmt + d) (inp AND inFieldStarts);
         inp = inp AND NOT inFieldStarts;
         inp = (inp OR push_bit shiftAmt inp) AND utMask
     in (inCoords, coords, utCoords OR push_bit (d * utB) inp))"

definition bt_dim_even ::
  "nat \<Rightarrow> u64 \<Rightarrow> nat \<Rightarrow> nat \<Rightarrow> u64 \<Rightarrow> nat \<Rightarrow> u64 \<times> u64 \<times> u64 \<Rightarrow> u64 \<times> u64 \<times> u64" where
  "bt_dim_even inB inMask shiftAmt utB utMask d = (\<lambda>(inCoords, coords, utCoords).
     let inp = inCoords AND inMask;
         inCoords = drop_bit inB inCoords;
         inp = (inp OR push_bit shiftAmt inp) AND utMask
     in (inCoords, coords, utCoords OR push_bit (d * utB) inp))"

text \<open>The \<open>while\<close> loop, with \<open>coords |= inCoords\<close> after it.\<close>

function bt_loop :: "nat \<Rightarrow> nat \<Rightarrow> u64 \<Rightarrow> u64 \<Rightarrow> u64 \<Rightarrow> u64 \<Rightarrow> u64" where
  "bt_loop nDims inB inFieldEnds inMask inCoords coords =
     (let utB = inB div 2 in
      if utB = 0 then coords OR inCoords
      else
        let shiftAmt = (nDims - 1) * utB;
            utFieldEnds = inFieldEnds OR push_bit (shiftAmt + utB) inFieldEnds;
            utMask = push_bit utB utFieldEnds - utFieldEnds;
            step = (if odd inB
                    then bt_dim_odd inB inMask (push_bit (inB - 1) inFieldEnds) shiftAmt utB utMask
                    else bt_dim_even inB inMask shiftAmt utB utMask);
            (_, coords, utCoords) = fold step [0..<nDims] (inCoords, coords, 0)
        in bt_loop nDims utB utFieldEnds utMask utCoords coords)"
  by pat_completeness auto
termination
  by (relation "measure (\<lambda>(_, inB, _). inB)") auto

declare bt_loop.simps [simp del]

definition bitTranspose :: "nat \<Rightarrow> nat \<Rightarrow> u64 \<Rightarrow> u64" where
  "bitTranspose nDims nBits inCoords = bt_loop nDims nBits 1 (ones nBits) inCoords 0"

text \<open>The variant of \<open>bitTranspose\<close> after the \<open>#else\<close>, which the compiler does not see: one bit at a
  time. It is the reference definition of the other one.\<close>

primrec gather_bits :: "nat \<Rightarrow> u64 \<Rightarrow> nat \<Rightarrow> u64 \<Rightarrow> u64" where
  "gather_bits nDims inp 0 out = out"
| "gather_bits nDims inp (Suc b) out = gather_bits nDims inp b (push_bit nDims out OR rdbit inp b)"

definition bt_simple_dim :: "nat \<Rightarrow> nat \<Rightarrow> nat \<Rightarrow> u64 \<times> u64 \<Rightarrow> u64 \<times> u64" where
  "bt_simple_dim nDims nBits d = (\<lambda>(inCoords, coords).
     let out = gather_bits nDims (inCoords AND ones nBits) nBits 0
     in (drop_bit nBits inCoords, coords OR push_bit d out))"

definition bitTranspose_simple :: "nat \<Rightarrow> nat \<Rightarrow> u64 \<Rightarrow> u64" where
  "bitTranspose_simple nDims nBits inCoords =
     snd (fold (bt_simple_dim nDims nBits) [0..<nDims] (inCoords, 0))"

subsection \<open>Masks made by a subtraction\<close>

lemma add_disjoint: "(\<And>q. \<not> (bit a q \<and> bit b q)) \<Longrightarrow> (a :: u64) + b = a OR b"
  by (rule disjunctive_add) blast

lemma bit_run_sum:
  assumes "finite E" "\<And>p q. p \<in> E \<Longrightarrow> q \<in> E \<Longrightarrow> p < q \<Longrightarrow> p + u \<le> q"
  shows "bit (\<Sum>p\<in>E. push_bit p (mask u) :: u64) q \<longleftrightarrow> q < 64 \<and> (\<exists>p\<in>E. p \<le> q \<and> q < p + u)"
  using assms
proof (induction E arbitrary: q rule: finite_induct)
  case empty
  then show ?case by simp
next
  case (insert e E)
  have IH: "bit (\<Sum>p\<in>E. push_bit p (mask u) :: u64) q \<longleftrightarrow> q < 64 \<and> (\<exists>p\<in>E. p \<le> q \<and> q < p + u)" for q
    using insert by auto
  have "\<not> (bit (push_bit e (mask u) :: u64) q \<and> bit (\<Sum>p\<in>E. push_bit p (mask u) :: u64) q)" for q
  proof
    assume a: "bit (push_bit e (mask u) :: u64) q \<and> bit (\<Sum>p\<in>E. push_bit p (mask u) :: u64) q"
    then obtain p where p: "p \<in> E" "p \<le> q" "q < p + u" "e \<le> q" "q < e + u"
      by (auto simp: IH bit_push_bit_iff bit_mask_iff)
    with insert(2) have "p < e \<or> e < p" by (metis nat_neq_iff)
    with insert(4) [of p e] insert(4) [of e p] p show False by auto
  qed
  then have "bit (\<Sum>p\<in>insert e E. push_bit p (mask u) :: u64) q \<longleftrightarrow>
      bit (push_bit e (mask u) :: u64) q \<or> bit (\<Sum>p\<in>E. push_bit p (mask u) :: u64) q"
    using insert(1,2) by (simp add: add_disjoint bit_or_iff)
  then show ?case by (auto simp: IH bit_push_bit_iff bit_mask_iff)
qed

lemma word_bit_sum:
  assumes "\<And>q. bit (X :: u64) q \<longleftrightarrow> q \<in> E" "finite E"
  shows "X = (\<Sum>p\<in>E. push_bit p 1)"
proof (rule bit_word_eqI)
  fix q
  have "bit (\<Sum>p\<in>E. push_bit p (mask 1) :: u64) q \<longleftrightarrow> q < 64 \<and> (\<exists>p\<in>E. p \<le> q \<and> q < p + 1)"
    by (rule bit_run_sum) (use assms in auto)
  with assms(1) [of q] bit_u64 [of X q] show "bit X q \<longleftrightarrow> bit (\<Sum>p\<in>E. push_bit p 1 :: u64) q"
    by (auto simp: mask_eq_exp_minus_1 less_Suc_eq_le dest: antisym)
qed

lemma run_mask:
  assumes X: "\<And>q. bit (X :: u64) q \<longleftrightarrow> q \<in> E" and E: "finite E"
    and gap: "\<And>p q. p \<in> E \<Longrightarrow> q \<in> E \<Longrightarrow> p < q \<Longrightarrow> p + u \<le> q"
  shows "bit (push_bit u X - X) q \<longleftrightarrow> q < 64 \<and> (\<exists>p\<in>E. p \<le> q \<and> q < p + u)"
proof -
  have one: "push_bit u (push_bit p 1) - push_bit p 1 = (push_bit p (mask u) :: u64)" for p
    by (simp add: push_bit_eq_mult mask_eq_exp_minus_1 algebra_simps)
  have "push_bit u X - X = (\<Sum>p\<in>E. push_bit u (push_bit p 1) - push_bit p 1)"
    unfolding sum_subtractf word_bit_sum [OF X E] by (simp add: push_bit_eq_mult sum_distrib_left mult.commute)
  also have "\<dots> = (\<Sum>p\<in>E. push_bit p (mask u))"
    by (simp only: one)
  finally show ?thesis using bit_run_sum [OF E gap] by simp
qed

subsection \<open>The state between two rounds\<close>

text \<open>\<open>S\<close> holds the first bit index of every field, \<open>w\<close> is the width of the fields and \<open>J\<close> the bit
  indices that the odd rounds have already placed. A field of the matrix \<open>x\<close> starts at \<open>D * b\<close>.\<close>

definition bases_ok :: "nat \<Rightarrow> nat \<Rightarrow> nat set \<Rightarrow> nat set \<Rightarrow> bool" where
  "bases_ok B w S J \<longleftrightarrow> S \<union> J \<subseteq> {..<B} \<and> J \<union> {b + i |b i. b \<in> S \<and> i < w} = {..<B} \<and>
     (\<forall>b\<in>S. \<forall>c\<in>S. b < c \<longrightarrow> b + w \<le> c)"

definition bt_inv :: "nat \<Rightarrow> nat \<Rightarrow> u64 \<Rightarrow> nat \<Rightarrow> nat set \<Rightarrow> nat set \<Rightarrow> u64 \<Rightarrow> u64 \<Rightarrow> u64 \<Rightarrow> u64 \<Rightarrow> bool" where
  "bt_inv D B x w S J ends msk inp out \<longleftrightarrow>
     bases_ok B w S J \<and>
     (\<forall>p. bit ends p \<longleftrightarrow> (\<exists>b\<in>S. p = D * b)) \<and>
     (\<forall>p. bit msk p \<longleftrightarrow> (\<exists>b\<in>S. D * b \<le> p \<and> p < D * b + w)) \<and>
     (\<forall>p. bit inp p \<longleftrightarrow> (\<exists>b\<in>S. \<exists>d<D. \<exists>i<w. p = D * b + d * w + i \<and> bit x (d * B + b + i))) \<and>
     (\<forall>p. bit out p \<longleftrightarrow> (\<exists>b\<in>J. \<exists>d<D. p = D * b + d \<and> bit x (d * B + b)))"

lemma bases_gap:
  assumes "bases_ok B w S J" "b \<in> S" "c \<in> S"
  shows "b = c \<or> D * b + D * w \<le> D * c \<or> D * c + D * w \<le> D * b"
proof -
  have "b = c \<or> b + w \<le> c \<or> c + w \<le> b" using assms by (auto simp: bases_ok_def neq_iff)
  then show ?thesis using mult_le_mono2 [of "b + w" c D] mult_le_mono2 [of "c + w" b D]
    by (auto simp: distrib_left)
qed

lemma bases_room:
  assumes "bases_ok B w S J" "b \<in> S" "0 < w"
  shows "b + w \<le> B" "D * b + D * w \<le> D * B"
proof -
  have "b + (w - 1) \<in> {..<B}" using assms unfolding bases_ok_def by fastforce
  with assms(3) show "b + w \<le> B" by simp
  then show "D * b + D * w \<le> D * B" using mult_le_mono2 [of "b + w" B D] by (simp add: distrib_left)
qed

lemma row_room: "d < D \<Longrightarrow> i < w \<Longrightarrow> d * w + i < D * (w :: nat)"
  using mult_le_mono1 [of "Suc d" D w] by simp

lemma field_unique:
  assumes "bases_ok B w S J" "b \<in> S" "c \<in> S" "d < D" "e < D" "i < w" "j < w"
    and "D * b + d * w + i = D * c + e * w + j"
  shows "b = c \<and> d = e \<and> i = j"
proof -
  have r: "d * w + i < D * w" "e * w + j < D * w"
    using row_room [OF assms(4,6)] row_room [OF assms(5,7)] by auto
  have bc: "b = c" using bases_gap [OF assms(1-3), of D] r assms(8) by linarith
  then have "d * w + i = e * w + j" using assms(8) by simp
  then have "(d * w + i) div w = (e * w + j) div w" "(d * w + i) mod w = (e * w + j) mod w" by simp_all
  with assms(6,7) bc show ?thesis by simp
qed

lemma bases_split:
  assumes "bases_ok B w S J" "0 < w div 2"
  shows "bases_ok B (w div 2) (S \<union> (\<lambda>b. b + w div 2) ` S)
    (if odd w then J \<union> (\<lambda>b. b + 2 * (w div 2)) ` S else J)"
    (is "bases_ok B ?u ?S ?J")
proof -
  have w: "w = 2 * ?u + (if odd w then 1 else 0)" by (cases "even w") simp_all
  have room: "b + w \<le> B" if "b \<in> S" for b using bases_room [OF assms(1) that] assms(2) by auto
  have gap: "b = c \<or> b + w \<le> c \<or> c + w \<le> b" if "b \<in> S" "c \<in> S" for b c
    using bases_gap [OF assms(1) that, of 1] by simp
  have 1: "?S \<union> ?J \<subseteq> {..<B}"
    using assms w by (auto simp: bases_ok_def dest!: room split: if_splits)
  have 2: "?J \<union> {b + i |b i. b \<in> ?S \<and> i < ?u} = {..<B}" (is "?L = _")
  proof (rule set_eqI)
    fix q
    have old: "q \<in> {..<B} \<longleftrightarrow> q \<in> J \<or> (\<exists>b\<in>S. \<exists>i<w. q = b + i)"
      using assms(1) unfolding bases_ok_def by blast
    have split: "(\<exists>i<w. q = b + i) \<longleftrightarrow> (\<exists>i<?u. q = b + i) \<or> (\<exists>i<?u. q = b + ?u + i) \<or> (odd w \<and> q = b + 2 * ?u)" for b
    proof
      assume "\<exists>i<w. q = b + i"
      then obtain i where i: "i < w" "q = b + i" by blast
      show "(\<exists>i<?u. q = b + i) \<or> (\<exists>i<?u. q = b + ?u + i) \<or> (odd w \<and> q = b + 2 * ?u)"
      proof (cases "i < ?u")
        case False
        then have "i - ?u < ?u \<and> q = b + ?u + (i - ?u) \<or> odd w \<and> i = 2 * ?u" using i w by (auto split: if_splits)
        then show ?thesis using i by blast
      qed (use i in blast)
    next
      assume "(\<exists>i<?u. q = b + i) \<or> (\<exists>i<?u. q = b + ?u + i) \<or> (odd w \<and> q = b + 2 * ?u)"
      then show "\<exists>i<w. q = b + i"
      proof (elim disjE exE conjE)
        fix i assume "i < ?u" "q = b + i" then show ?thesis using w by (intro exI [of _ i]) (auto split: if_splits)
      next
        fix i assume "i < ?u" "q = b + ?u + i" then show ?thesis using w by (intro exI [of _ "?u + i"]) (auto split: if_splits)
      next
        assume "odd w" "q = b + 2 * ?u" then show ?thesis using odd_pos [of w] by (intro exI [of _ "2 * ?u"]) auto
      qed
    qed
    have "q \<in> ?L \<longleftrightarrow> q \<in> ?J \<or> (\<exists>b\<in>S. \<exists>i<?u. q = b + i) \<or> (\<exists>b\<in>S. \<exists>i<?u. q = b + ?u + i)" by blast
    also have "\<dots> \<longleftrightarrow> q \<in> J \<or> (\<exists>b\<in>S. (\<exists>i<?u. q = b + i) \<or> (\<exists>i<?u. q = b + ?u + i) \<or> (odd w \<and> q = b + 2 * ?u))"
      by (cases "odd w") auto
    also have "\<dots> \<longleftrightarrow> q \<in> {..<B}" unfolding old split ..
    finally show "q \<in> ?L \<longleftrightarrow> q \<in> {..<B}" .
  qed
  have 3: "\<forall>b\<in>?S. \<forall>c\<in>?S. b < c \<longrightarrow> b + ?u \<le> c"
  proof (intro ballI impI)
    fix b c assume bc: "b \<in> ?S" "c \<in> ?S" "b < c"
    obtain b' where b': "b' \<in> S" "b = b' \<or> b = b' + ?u" using bc(1) by blast
    obtain c' where c': "c' \<in> S" "c = c' \<or> c = c' + ?u" using bc(2) by blast
    show "b + ?u \<le> c" using gap [OF b'(1) c'(1)] b'(2) c'(2) bc(3) w by linarith
  qed
  show ?thesis unfolding bases_ok_def using 1 2 3 by blast
qed

subsection \<open>One dimension of a round\<close>

text \<open>The field extracted from dimension \<open>d\<close>.\<close>

lemma extract_field:
  assumes inv: "bt_inv D B x w S J ends msk inp out" and d: "d < D" and w: "0 < w"
  shows "bit (drop_bit (d * w) inp AND msk) q \<longleftrightarrow> (\<exists>b\<in>S. \<exists>i<w. q = D * b + i \<and> bit x (d * B + b + i))"
    (is "?l \<longleftrightarrow> ?r")
proof
  assume ?l
  then obtain b where b: "b \<in> S" "D * b \<le> q" "q < D * b + w" and
    i: "bit inp (d * w + q)" using inv by (auto simp: bt_inv_def bit_and_iff bit_drop_bit_eq)
  from i obtain c e j where c: "c \<in> S" "e < D" "j < w" "d * w + q = D * c + e * w + j" "bit x (e * B + c + j)"
    using inv by (auto simp: bt_inv_def)
  have "b = c \<and> d = e \<and> q - D * b = j"
    by (rule field_unique [of B w S J _ _ d D]) (use inv b c d in \<open>auto simp: bt_inv_def\<close>)
  with b c show ?r by (auto intro!: bexI [of _ b] exI [of _ j])
next
  assume ?r
  then obtain b i where b: "b \<in> S" "i < w" "q = D * b + i" "bit x (d * B + b + i)" by blast
  have "bit inp (D * b + d * w + i)" using inv b d by (auto simp: bt_inv_def)
  moreover have "bit msk q" using inv b by (auto simp: bt_inv_def intro!: bexI [of _ b])
  ultimately show ?l using b by (simp add: bit_and_iff bit_drop_bit_eq ac_simps)
qed

text \<open>Spreading the two halves of every field.\<close>

lemma spread_field:
  assumes S: "bases_ok B w S J" and u: "u = w div 2" "0 < u" and D: "2 \<le> D" "D * B \<le> 64"
    and inp: "\<And>q. bit (inp :: u64) q \<longleftrightarrow> (\<exists>b\<in>S. \<exists>i<2 * u. q = D * b + i \<and> g (b + i))"
    and msk: "\<And>q. bit (msk :: u64) q \<longleftrightarrow>
        q < 64 \<and> (\<exists>b\<in>S \<union> (\<lambda>b. b + u) ` S. D * b \<le> q \<and> q < D * b + u)"
  shows "bit ((inp OR push_bit ((D - 1) * u) inp) AND msk) q \<longleftrightarrow>
    (\<exists>b\<in>S \<union> (\<lambda>b. b + u) ` S. \<exists>i<u. q = D * b + i \<and> g (b + i))" (is "?l \<longleftrightarrow> ?r")
proof -
  have w: "2 * u \<le> w" "0 < w" using u by auto
  have P: "D * (b + u) = D * b + D * u" "(D - 1) * u = D * u - u" "2 * u \<le> D * u" "u \<le> D * u"
      "2 * (D * u) \<le> D * w" for b
    using D w mult_le_mono2 [OF w(1), of D] by (auto simp: distrib_left diff_mult_distrib)
  note room = bases_room(2) [OF S _ w(2), of _ D] and gap = bases_gap [OF S, of _ _ D]
  show ?thesis
  proof
    assume ?l
    then obtain b' where b': "b' \<in> S \<union> (\<lambda>b. b + u) ` S" "D * b' \<le> q" "q < D * b' + u"
      and alt: "bit inp q \<or> (D - 1) * u \<le> q \<and> bit inp (q - (D - 1) * u)"
      by (auto simp: bit_and_iff bit_or_iff bit_push_bit_iff msk)
    from alt obtain r where r: "bit inp r" "q = r \<or> q = r + (D * u - u)"
      unfolding P by (metis le_add_diff_inverse2)
    from r(1) obtain c i where "c \<in> S" "i < 2 * u" "r = D * c + i" "g (c + i)"
      unfolding inp by blast
    with r(2) have c: "c \<in> S" "i < 2 * u" "g (c + i)" "q = D * c + i \<or> q = D * c + i + (D * u - u)"
      by auto
    from b'(1) obtain b where b: "b \<in> S" "b' = b \<or> b' = b + u" by blast
    have Db': "D * b' = D * b \<or> D * b' = D * b + D * u" using b(2) P(1) by auto
    have "c = b"
    proof (rule ccontr)
      assume "c \<noteq> b"
      then have g2: "D * b + 2 * (D * u) \<le> D * c \<or> D * c + 2 * (D * u) \<le> D * b"
        using gap [OF b(1) c(1)] P(5) by linarith
      show False using g2 c(4) Db' by (elim disjE; use b'(2,3) c(2) P(3-4) in linarith)
    qed
    obtain k where k: "q = D * b' + k" "k < u" using b'(2,3) by (metis add_less_cancel_left le_Suc_ex)
    have "(b' = b \<and> D * b' = D * b) \<or> (b' = b + u \<and> D * b' = D * b + D * u)"
      using b(2) P(1) by auto
    then have "c + i = b' + k"
      using c(4) [unfolded \<open>c = b\<close>] \<open>c = b\<close> k c(2) P(3,4) by (elim disjE conjE) linarith+
    with b' c k show ?r by metis
  next
    assume ?r
    then obtain b' i where b': "b' \<in> S \<union> (\<lambda>b. b + u) ` S" "i < u" "q = D * b' + i" "g (b' + i)" by blast
    then obtain b where b: "b \<in> S" "b' = b \<or> b' = b + u" by blast
    have "D * b' = D * b \<or> D * b' = D * b + D * u" using b(2) P(1) by auto
    then have q: "q < 64" using b'(2,3) room [OF b(1)] D P(3,5) by (elim disjE) linarith+
    moreover have "D * b' \<le> q" "q < D * b' + u" using b' by simp_all
    ultimately have "bit msk q" using b'(1) msk by blast
    moreover have "bit (inp OR push_bit ((D - 1) * u) inp) q"
    proof (cases "b' = b")
      case True
      then have "bit inp q" using b b' by (auto simp: inp intro!: bexI [of _ b] exI [of _ i])
      then show ?thesis by (simp add: bit_or_iff)
    next
      case False
      then have e: "q - (D - 1) * u = D * b + (u + i)" "(D - 1) * u \<le> q"
        using b b' P(2-4) P(1) [of b] by auto
      have "bit inp (D * b + (u + i))"
        using b b' False by (auto simp: inp add.assoc intro!: bexI [of _ b] exI [of _ "u + i"])
      with e q show ?thesis by (simp add: bit_or_iff bit_push_bit_iff)
    qed
    ultimately show ?l by (simp add: bit_and_iff)
  qed
qed

subsection \<open>A whole round, and the loop\<close>

lemma place_field:
  assumes S: "bases_ok B u S' J'" and u: "0 < u" and D: "D * B \<le> 64" "d < D"
    and y: "\<And>q. bit (y :: u64) q \<longleftrightarrow> (\<exists>b\<in>S'. \<exists>i<u. q = D * b + i \<and> g (b + i))"
  shows "bit (push_bit (d * u) y) q \<longleftrightarrow> (\<exists>b\<in>S'. \<exists>i<u. q = D * b + d * u + i \<and> g (b + i))"
    (is "_ \<longleftrightarrow> ?r")
proof
  assume "bit (push_bit (d * u) y) q"
  then have "d * u \<le> q" "bit y (q - d * u)" by (auto simp: bit_push_bit_iff)
  then obtain b i where "b \<in> S'" "i < u" "q = D * b + d * u + i" "g (b + i)" unfolding y by fastforce
  then show ?r by blast
next
  assume ?r
  then obtain b i where b: "b \<in> S'" "i < u" "q = D * b + d * u + i" "g (b + i)" by blast
  have "q < 64" using b(2,3) bases_room(2) [OF S b(1) u, of D] row_room [OF D(2) b(2)] D(1) by linarith
  moreover have "bit y (q - d * u)" unfolding y using b by (intro bexI [of _ b] exI [of _ i]) auto
  ultimately show "bit (push_bit (d * u) y) q" using b(3) by (simp add: bit_push_bit_iff)
qed

lemma bit_push_u64: "bit (push_bit n (y :: u64)) q \<longleftrightarrow> q < 64 \<and> n \<le> q \<and> bit y (q - n)"
  by (auto simp: bit_push_bit_iff)

lemma place_top:
  assumes S: "bases_ok B w S J" and w: "w = 2 * u + 1" and D: "2 \<le> D" "D * B \<le> 64" "d < D"
    and ends: "\<And>q. bit (ends :: u64) q \<longleftrightarrow> (\<exists>b\<in>S. q = D * b)"
    and i: "\<And>q. bit (i :: u64) q \<longleftrightarrow> (\<exists>b\<in>S. \<exists>i<w. q = D * b + i \<and> g (b + i))"
  shows "bit (push_bit (2 * ((D - 1) * u) + d) (i AND push_bit (w - 1) ends)) q \<longleftrightarrow>
      (\<exists>b\<in>S. q = D * (b + 2 * u) + d \<and> g (b + 2 * u))" (is "?l \<longleftrightarrow> ?r")
    and "bit (i AND NOT (push_bit (w - 1) ends)) q \<longleftrightarrow> (\<exists>b\<in>S. \<exists>i<2 * u. q = D * b + i \<and> g (b + i))"
      (is "?l' \<longleftrightarrow> ?r'")
proof -
  have room: "D * b + D * w \<le> 64" if "b \<in> S" for b
    using bases_room(2) [OF S that, of D] w D by simp
  have Dw: "D * w = D * u + D * u + D" "(D - 1) * u = D * u - u" "u \<le> D * u" "D * (b + 2 * u) = D * b + (D * u + D * u)" for b
    using w D by (auto simp: distrib_left diff_mult_distrib)
  have starts: "bit (push_bit (w - 1) ends) q \<longleftrightarrow> (\<exists>b\<in>S. q = D * b + 2 * u)" for q
  proof
    assume "bit (push_bit (w - 1) ends) q"
    then have "2 * u \<le> q" "bit ends (q - 2 * u)" by (auto simp: bit_push_bit_iff w)
    then show "\<exists>b\<in>S. q = D * b + 2 * u" unfolding ends by (auto intro!: bexI)
  next
    assume "\<exists>b\<in>S. q = D * b + 2 * u"
    then obtain b where b: "b \<in> S" "q = D * b + 2 * u" by blast
    then have "q < 64" using room [OF b(1)] Dw(1,3) D by linarith
    with b show "bit (push_bit (w - 1) ends) q" by (auto simp: bit_push_bit_iff w ends)
  qed
  have same: "b = c \<and> k = j" if "b \<in> S" "c \<in> S" "k < w" "j < w" "D * b + k = D * c + j" for b c k j
    using field_unique [OF S that(1,2), of 0 D 0 k j] that D by simp
  have "bit (i AND push_bit (w - 1) ends) r \<longleftrightarrow> (\<exists>b\<in>S. r = D * b + 2 * u \<and> g (b + 2 * u))" (is "?a \<longleftrightarrow> ?b") for r
  proof
    assume ?a
    then obtain b k c where bk: "b \<in> S" "k < w" "r = D * b + k" "g (b + k)" "c \<in> S" "r = D * c + 2 * u"
      unfolding bit_and_iff i starts by blast
    then have "b = c \<and> k = 2 * u" using same [of b c k "2 * u"] w by simp
    with bk show ?b by blast
  next
    assume ?b
    then show ?a unfolding bit_and_iff i starts using w by (auto intro!: bexI exI [of _ "2 * u"])
  qed
  note top = this
  show "?l \<longleftrightarrow> ?r"
  proof
    assume ?l
    then have "2 * ((D - 1) * u) + d \<le> q" "bit (i AND push_bit (w - 1) ends) (q - (2 * ((D - 1) * u) + d))"
      unfolding bit_push_u64 by blast+
    then obtain b where b: "b \<in> S" "q = D * b + 2 * u + (2 * ((D - 1) * u) + d)" "g (b + 2 * u)"
      unfolding top by fastforce
    then have "q = D * (b + 2 * u) + d" using Dw(2,3) Dw(4) [of b] by linarith
    with b show ?r by blast
  next
    assume ?r
    then obtain b where b: "b \<in> S" "q = D * (b + 2 * u) + d" "g (b + 2 * u)" by blast
    have "q < 64" using b(2) room [OF b(1)] Dw(1) Dw(4) [of b] D(3) by linarith
    moreover have q: "q = D * b + 2 * u + (2 * ((D - 1) * u) + d)" using b(2) Dw(2,3) Dw(4) [of b] by linarith
    moreover have "bit (i AND push_bit (w - 1) ends) (D * b + 2 * u)" unfolding top using b by blast
    ultimately show ?l unfolding bit_push_u64 by simp
  qed
  show "?l' \<longleftrightarrow> ?r'"
  proof
    assume ?l'
    then obtain b k where b: "b \<in> S" "k < w" "q = D * b + k" "g (b + k)" "\<forall>b\<in>S. q \<noteq> D * b + 2 * u"
      unfolding bit_and_iff bit_not_iff i starts by blast
    then have "k < 2 * u" using w by (cases "k = 2 * u") auto
    with b show ?r' by blast
  next
    assume ?r'
    then obtain b k where b: "b \<in> S" "k < 2 * u" "q = D * b + k" "g (b + k)" by blast
    then have "bit i q" unfolding i using w by (intro bexI [of _ b] exI [of _ k]) auto
    moreover have "\<not> (\<exists>b\<in>S. q = D * b + 2 * u)"
      using same [OF b(1), of _ k "2 * u"] b w by auto
    ultimately show ?l' unfolding bit_and_iff bit_not_iff starts using bit_u64 [of i q] by simp
  qed
qed

text \<open>Both step functions take the field of the next dimension, store its lowest \<open>2 * u\<close> bits spread
  out in \<open>utCoords\<close>, and, in an odd round, its top bit at its final place in \<open>coords\<close>.\<close>

lemma bt_step_bits:
  assumes inv: "bt_inv D B x w S J ends msk inp out" and u: "u = w div 2" "0 < u"
    and D: "2 \<le> D" "D * B \<le> 64" and d: "d < D"
    and utm: "\<And>q. bit utm q \<longleftrightarrow> q < 64 \<and> (\<exists>b\<in>S \<union> (\<lambda>b. b + u) ` S. D * b \<le> q \<and> q < D * b + u)"
    and i0: "i0 = drop_bit (d * w) inp"
    and step: "(if odd w then bt_dim_odd w msk (push_bit (w - 1) ends) ((D - 1) * u) u utm
      else bt_dim_even w msk ((D - 1) * u) u utm) d (i0, c0, t0) = (i1, c1, t1)"
  shows "i1 = drop_bit w i0"
    and "bit c1 q \<longleftrightarrow> bit c0 q \<or> odd w \<and> (\<exists>b\<in>S. q = D * (b + 2 * u) + d \<and> bit x (d * B + (b + 2 * u)))"
    and "bit t1 q \<longleftrightarrow> bit t0 q \<or>
        (\<exists>b\<in>S \<union> (\<lambda>b. b + u) ` S. \<exists>i<u. q = D * b + d * u + i \<and> bit x (d * B + (b + i)))"
proof -
  have S: "bases_ok B w S J" and w: "0 < w" and uw: "0 < w div 2" using inv u by (auto simp: bt_inv_def)
  have ends: "bit ends q \<longleftrightarrow> (\<exists>b\<in>S. q = D * b)" for q using inv by (auto simp: bt_inv_def)
  have ext: "bit (i0 AND msk) q \<longleftrightarrow> (\<exists>b\<in>S. \<exists>i<w. q = D * b + i \<and> bit x (d * B + (b + i)))" for q
    unfolding i0 using extract_field [OF inv d w] by (simp add: add.assoc)
  note S' = bases_split [OF S uw, folded u(1)]
  note place = place_field [OF S' u(2) D(2) d]
  have "i1 = drop_bit w i0 \<and>
    (bit c1 q \<longleftrightarrow> bit c0 q \<or> odd w \<and> (\<exists>b\<in>S. q = D * (b + 2 * u) + d \<and> bit x (d * B + (b + 2 * u)))) \<and>
    (bit t1 q \<longleftrightarrow> bit t0 q \<or>
        (\<exists>b\<in>S \<union> (\<lambda>b. b + u) ` S. \<exists>i<u. q = D * b + d * u + i \<and> bit x (d * B + (b + i))))"
  proof (cases "odd w")
    case False
    then have w2: "w = 2 * u" using u by auto
    note sp = spread_field [OF S u D ext [unfolded w2] utm, unfolded w2]
    show ?thesis
      using step False place [OF sp]
      by (auto simp: bt_dim_even_def Let_def bit_or_iff w2)
  next
    case True
    then have w2: "w = 2 * u + 1" using u by auto
    note top = place_top [OF S w2 D d ends ext]
    note sp = spread_field [OF S u D top(2) utm]
    show ?thesis
      using step True top(1) place [OF sp]
      by (auto simp: bt_dim_odd_def Let_def bit_or_iff)
  qed
  then show "i1 = drop_bit w i0"
    "bit c1 q \<longleftrightarrow> bit c0 q \<or> odd w \<and> (\<exists>b\<in>S. q = D * (b + 2 * u) + d \<and> bit x (d * B + (b + 2 * u)))"
    "bit t1 q \<longleftrightarrow> bit t0 q \<or>
        (\<exists>b\<in>S \<union> (\<lambda>b. b + u) ` S. \<exists>i<u. q = D * b + d * u + i \<and> bit x (d * B + (b + i)))"
    by blast+
qed

lemma bt_fold_bits:
  assumes inv: "bt_inv D B x w S J ends msk inp out" and u: "u = w div 2" "0 < u"
    and D: "2 \<le> D" "D * B \<le> 64"
    and utm: "\<And>q. bit utm q \<longleftrightarrow> q < 64 \<and> (\<exists>b\<in>S \<union> (\<lambda>b. b + u) ` S. D * b \<le> q \<and> q < D * b + u)"
    and step: "step = (if odd w then bt_dim_odd w msk (push_bit (w - 1) ends) ((D - 1) * u) u utm
      else bt_dim_even w msk ((D - 1) * u) u utm)"
    and k: "k \<le> D"
  shows "\<exists>c t. fold step [0..<k] (inp, out, 0) = (drop_bit (k * w) inp, c, t) \<and>
    (\<forall>q. bit c q \<longleftrightarrow> bit out q \<or> odd w \<and>
      (\<exists>d<k. \<exists>b\<in>S. q = D * (b + 2 * u) + d \<and> bit x (d * B + (b + 2 * u)))) \<and>
    (\<forall>q. bit t q \<longleftrightarrow>
      (\<exists>d<k. \<exists>b\<in>S \<union> (\<lambda>b. b + u) ` S. \<exists>i<u. q = D * b + d * u + i \<and> bit x (d * B + (b + i))))"
  using k
proof (induction k)
  case 0
  then show ?case by simp
next
  case (Suc k)
  then obtain c t where IH: "fold step [0..<k] (inp, out, 0) = (drop_bit (k * w) inp, c, t)"
    "\<And>q. bit c q \<longleftrightarrow> bit out q \<or> odd w \<and>
      (\<exists>d<k. \<exists>b\<in>S. q = D * (b + 2 * u) + d \<and> bit x (d * B + (b + 2 * u)))"
    "\<And>q. bit t q \<longleftrightarrow>
      (\<exists>d<k. \<exists>b\<in>S \<union> (\<lambda>b. b + u) ` S. \<exists>i<u. q = D * b + d * u + i \<and> bit x (d * B + (b + i)))"
    by auto
  obtain i1 c1 t1 where s1: "step k (drop_bit (k * w) inp, c, t) = (i1, c1, t1)" by (metis prod_cases3)
  note st = bt_step_bits [OF inv u D _ utm refl s1 [unfolded step]]
  have kD: "k < D" using Suc by simp
  have "fold step [0..<Suc k] (inp, out, 0) = (drop_bit (Suc k * w) inp, c1, t1)"
    using IH(1) s1 st(1) [OF kD] by (simp add: add.commute)
  then show ?case
    by (intro exI conjI, assumption) (simp_all only: st(2,3) [OF kD] IH(2,3) less_Suc_eq, blast+)
qed

lemma bt_inv_step:
  assumes inv: "bt_inv D B x w S J ends msk inp out" and u: "u = w div 2" "0 < u"
    and D: "2 \<le> D" "D * B \<le> 64"
    and ends': "ends' = ends OR push_bit ((D - 1) * u + u) ends"
    and msk': "msk' = push_bit u ends' - ends'"
    and fold: "fold (if odd w then bt_dim_odd w msk (push_bit (w - 1) ends) ((D - 1) * u) u msk'
      else bt_dim_even w msk ((D - 1) * u) u msk') [0..<D] (inp, out, 0) = (i1, out', ut)"
  shows "bt_inv D B x u (S \<union> (\<lambda>b. b + u) ` S) (if odd w then J \<union> (\<lambda>b. b + 2 * u) ` S else J) ends' msk' ut out'"
    (is "bt_inv D B x u ?S ?J _ _ _ _")
proof -
  have S: "bases_ok B w S J" and uw: "0 < w div 2" using inv u by (auto simp: bt_inv_def)
  note S' = bases_split [OF S uw, folded u(1)]
  have Du: "(D - 1) * u + u = D * u" and uD: "u \<le> D * u" using D by (cases D; simp)+
  have endsS: "bit ends q \<longleftrightarrow> (\<exists>b\<in>S. q = D * b)" for q using inv by (auto simp: bt_inv_def)
  have room: "D * b + D * u \<le> 64" if "b \<in> ?S" for b using bases_room(2) [OF S' that u(2), of D] D by simp
  have e: "bit ends' q \<longleftrightarrow> q \<in> (*) D ` ?S" for q
  proof
    assume "bit ends' q"
    then have "bit ends q \<or> D * u \<le> q \<and> bit ends (q - D * u)" unfolding ends' Du by (auto simp: bit_simps)
    then show "q \<in> (*) D ` ?S" unfolding endsS
    proof (elim disjE conjE bexE)
      fix b assume "D * u \<le> q" "q - D * u = D * b" "b \<in> S"
      then have "q = D * (b + u)" by (simp add: distrib_left)
      with \<open>b \<in> S\<close> show ?thesis by blast
    qed blast
  next
    assume "q \<in> (*) D ` ?S"
    then obtain b where b: "b \<in> ?S" "q = D * b" by blast
    have "0 < D * u" using D u by simp
    then have q: "q < 64" using room [OF b(1)] b(2) by linarith
    from b show "bit ends' q" unfolding ends' Du using q endsS by (auto simp: bit_or_iff bit_push_u64 distrib_left)
  qed
  have fin: "finite ((*) D ` ?S)" using S' finite_subset [of ?S "{..<B}"] by (auto simp: bases_ok_def)
  have gap: "p + u \<le> q" if "p \<in> (*) D ` ?S" "q \<in> (*) D ` ?S" "p < q" for p q
  proof -
    from that(1) obtain b where b: "p = D * b" "b \<in> ?S" by (rule imageE)
    from that(2) obtain c where c: "q = D * c" "c \<in> ?S" by (rule imageE)
    note bc = b(2) c(2)
    have "b \<noteq> c" using b c that(3) by blast
    then show ?thesis using bases_gap [OF S' bc, of D] b(1) c(1) that(3) uD by linarith
  qed
  have m: "bit msk' q \<longleftrightarrow> q < 64 \<and> (\<exists>b\<in>?S. D * b \<le> q \<and> q < D * b + u)" for q
    unfolding msk' using run_mask [OF e fin gap, of q] by (simp only: bex_simps(7))
  have m': "bit msk' q \<longleftrightarrow> (\<exists>b\<in>?S. D * b \<le> q \<and> q < D * b + u)" for q
  proof -
    have "q < 64" if "b \<in> ?S" "q < D * b + u" for b
      using room [OF that(1)] that(2) uD by linarith
    then show ?thesis unfolding m by blast
  qed
  obtain c t where ct: "out' = c" "ut = t"
    "\<And>q. bit c q \<longleftrightarrow> bit out q \<or> odd w \<and>
      (\<exists>d<D. \<exists>b\<in>S. q = D * (b + 2 * u) + d \<and> bit x (d * B + (b + 2 * u)))"
    "\<And>q. bit t q \<longleftrightarrow>
      (\<exists>d<D. \<exists>b\<in>?S. \<exists>i<u. q = D * b + d * u + i \<and> bit x (d * B + (b + i)))"
    using bt_fold_bits [OF inv u D m refl order_refl] unfolding fold by auto
  have "bit out' p \<longleftrightarrow> (\<exists>b\<in>?J. \<exists>d<D. p = D * b + d \<and> bit x (d * B + b))" for p
    using inv unfolding ct bt_inv_def by (cases "odd w") auto
  moreover have "bit ut p \<longleftrightarrow> (\<exists>b\<in>?S. \<exists>d<D. \<exists>i<u. p = D * b + d * u + i \<and> bit x (d * B + b + i))" for p
    unfolding ct add.assoc by blast
  ultimately show ?thesis unfolding bt_inv_def using S' e m' by auto
qed

lemma bt_loop_bits:
  assumes "bt_inv D B x w S J ends msk inp out" "0 < w" "2 \<le> D" "D * B \<le> 64"
  shows "bit (bt_loop D w ends msk inp out) q \<longleftrightarrow> (\<exists>b<B. \<exists>d<D. q = D * b + d \<and> bit x (d * B + b))"
  using assms(1,2)
proof (induction w arbitrary: S J ends msk inp out rule: less_induct)
  case (less w)
  show ?case
  proof (cases "w div 2 = 0")
    case True
    then have w: "w = 1" using less(3) by linarith
    have S: "S \<union> J = {..<B}" using less(2) by (auto simp: bt_inv_def bases_ok_def w)
    have "bit (bt_loop D w ends msk inp out) q \<longleftrightarrow> bit out q \<or> bit inp q"
      by (simp add: bt_loop.simps w bit_or_iff)
    also have "\<dots> \<longleftrightarrow> (\<exists>b\<in>S \<union> J. \<exists>d<D. q = D * b + d \<and> bit x (d * B + b))"
      using less(2) by (auto simp: bt_inv_def w)
    finally show ?thesis unfolding S by auto
  next
    case False
    define u where "u = w div 2"
    define ends' where "ends' = ends OR push_bit ((D - 1) * u + u) ends"
    define msk' where "msk' = push_bit u ends' - ends'"
    obtain i1 out' ut where f: "fold (if odd w then bt_dim_odd w msk (push_bit (w - 1) ends) ((D - 1) * u) u msk'
      else bt_dim_even w msk ((D - 1) * u) u msk') [0..<D] (inp, out, 0) = (i1, out', ut)"
      by (metis prod_cases3)
    have u: "0 < u" "u < w" using False less(3) by (auto simp: u_def)
    note inv' = bt_inv_step [OF less(2) u_def u(1) assms(3,4) ends'_def msk'_def f]
    have "bt_loop D w ends msk inp out = bt_loop D u ends' msk' ut out'"
      using False f unfolding bt_loop.simps [of D w] msk'_def ends'_def u_def
      by (simp only: Let_def if_False prod.case)
    with less(1) [OF u(2) inv' u(1)] show ?thesis by simp
  qed
qed

lemma bt_inv_start:
  assumes "fits (D * B) x" "0 < B" "2 \<le> D" "D * B \<le> 64"
  shows "bt_inv D B x B {0} {} 1 (ones B) x 0"
proof -
  have B: "B < 64" using assms(2-4) mult_le_mono1 [of 2 D B] by linarith
  have x: "bit x p \<longleftrightarrow> (\<exists>d<D. \<exists>i<B. p = d * B + i \<and> bit x (d * B + i))" for p
  proof
    assume b: "bit x p"
    then have "p < D * B" using assms(1) by (rule fitsD [rotated])
    then have "p div B < D" "p mod B < B" "p = p div B * B + p mod B"
      using assms(2) by (auto simp: less_mult_imp_div_less)
    with b show "\<exists>d<D. \<exists>i<B. p = d * B + i \<and> bit x (d * B + i)" by metis
  qed blast
  have S: "bases_ok B B {0} {}" using assms(2) by (auto simp: bases_ok_def)
  have m: "bit (ones B) p \<longleftrightarrow> p < B" for p using assms(2) B by auto
  show ?thesis unfolding bt_inv_def
  proof (intro conjI allI)
    show "bit x p \<longleftrightarrow> (\<exists>b\<in>{0}. \<exists>d<D. \<exists>i<B. p = D * b + d * B + i \<and> bit x (d * B + b + i))" for p
      by (subst x) simp
  qed (simp_all add: S m bit_1_iff)
qed

lemma transposed_bits:
  assumes "fits (D * B) x" "0 < B" "2 \<le> D" "D * B \<le> 64"
  shows "bit (bitTranspose D B x) p \<longleftrightarrow> p < D * B \<and> bit x ((p mod D) * B + p div D)"
proof -
  have "bit (bitTranspose D B x) p \<longleftrightarrow> (\<exists>b<B. \<exists>d<D. p = D * b + d \<and> bit x (d * B + b))"
    unfolding bitTranspose_def by (rule bt_loop_bits [OF bt_inv_start [OF assms] assms(2-4)])
  also have "\<dots> \<longleftrightarrow> p < D * B \<and> bit x ((p mod D) * B + p div D)"
  proof
    assume "\<exists>b<B. \<exists>d<D. p = D * b + d \<and> bit x (d * B + b)"
    then show "p < D * B \<and> bit x ((p mod D) * B + p div D)"
      using row_room [of _ B _ D] by (auto simp: ac_simps)
  next
    assume a: "p < D * B \<and> bit x ((p mod D) * B + p div D)"
    then have "p div D < B" "p mod D < D" "p = D * (p div D) + p mod D"
      using assms(3) by (auto simp: less_mult_imp_div_less mult.commute)
    with a show "\<exists>b<B. \<exists>d<D. p = D * b + d \<and> bit x (d * B + b)" by metis
  qed
  finally show ?thesis .
qed

text \<open>C14: \<open>bitTranspose\<close> transposes: read as an \<open>nDims x nBits\<close> matrix of bits stored row by row,
  \<open>inCoords\<close> comes out stored column by column, so bit \<open>d\<close> of column \<open>b\<close> of the result is bit \<open>b\<close> of
  row \<open>d\<close> of the argument, and no other bit is set.\<close>

theorem bitTranspose_bit:
  assumes "fits (D * B) x" "0 < B" "2 \<le> D" "D * B \<le> 64"
  shows "bit (bitTranspose D B x) p \<longleftrightarrow> p < D * B \<and> bit x ((p mod D) * B + p div D)"
  by (rule transposed_bits [OF assms])

theorem bitTranspose_bit_witness:
  "bit (bitTranspose 2 3 6) 2 \<longleftrightarrow> 2 < 2 * (3 :: nat) \<and> bit (6 :: u64) ((2 mod 2) * 3 + 2 div 2)"
  by (rule bitTranspose_bit) (simp_all add: fits_def take_bit_eq_mod)

subsection \<open>The simple variant\<close>

lemma bit_gather:
  "D * n \<le> 64 \<Longrightarrow> 0 < D \<Longrightarrow> bit (gather_bits D inp n out) q \<longleftrightarrow>
     q < 64 \<and> (D * n \<le> q \<and> bit out (q - D * n) \<or> (\<exists>b<n. q = D * b \<and> bit inp b))"
proof (induction n arbitrary: out)
  case 0
  then show ?case using bit_u64 [of out q] by auto
next
  case (Suc n)
  have r: "bit (push_bit D out OR rdbit inp n) k \<longleftrightarrow>
      k < 64 \<and> D \<le> k \<and> bit out (k - D) \<or> k = 0 \<and> bit inp n" for k
    by (auto simp: bit_or_iff bit_push_u64 rdbit_def bit_and_iff bit_drop_bit_eq bit_1_iff)
  show ?case
    using Suc(2,3) unfolding gather_bits.simps
    by (subst Suc(1)) (auto simp: r less_Suc_eq add.commute [of D])
qed

lemma bit_simple_fold:
  assumes "0 < B" "0 < D" "D * B \<le> 64" "k \<le> D"
  shows "\<exists>c. fold (bt_simple_dim D B) [0..<k] (x, 0) = (drop_bit (k * B) x, c) \<and>
     (\<forall>q. bit c q \<longleftrightarrow> (\<exists>d<k. \<exists>b<B. q = D * b + d \<and> bit x (d * B + b)))"
  using assms(4)
proof (induction k)
  case 0
  then show ?case by simp
next
  case (Suc k)
  then obtain c where IH: "fold (bt_simple_dim D B) [0..<k] (x, 0) = (drop_bit (k * B) x, c)"
     "\<And>q. bit c q \<longleftrightarrow> (\<exists>d<k. \<exists>b<B. q = D * b + d \<and> bit x (d * B + b))" by auto
  have room: "D * b + k < 64" if "b < B" for b
    using row_room [OF that, of k D] Suc(2) assms(3) by (simp add: mult.commute)
  have "bit (push_bit k (gather_bits D (drop_bit (k * B) x AND ones B) B 0)) q \<longleftrightarrow>
      (\<exists>b<B. q = D * b + k \<and> bit x (k * B + b))" for q
  proof -
    have "bit (push_bit k (gather_bits D (drop_bit (k * B) x AND ones B) B 0)) q \<longleftrightarrow>
        q < 64 \<and> k \<le> q \<and> (\<exists>b<B. q - k = D * b \<and> bit (drop_bit (k * B) x AND ones B) b)"
      using assms by (auto simp: bit_push_u64 bit_gather)
    also have "\<dots> \<longleftrightarrow> (\<exists>b<B. q = D * b + k \<and> bit x (k * B + b))"
      using room assms(1) bit_u64 by (fastforce simp: bit_and_iff bit_drop_bit_eq)
    finally show ?thesis .
  qed
  note new = this
  let ?c = "c OR push_bit k (gather_bits D (drop_bit (k * B) x AND ones B) B 0)"
  have "fold (bt_simple_dim D B) [0..<Suc k] (x, 0) = (drop_bit (Suc k * B) x, ?c)"
    by (simp add: IH(1) bt_simple_dim_def Let_def add.commute)
  moreover have "bit ?c q \<longleftrightarrow> (\<exists>d<Suc k. \<exists>b<B. q = D * b + d \<and> bit x (d * B + b))" for q
    unfolding bit_or_iff IH(2) new less_Suc_eq by blast
  ultimately show ?case by blast
qed

text \<open>The fast \<open>bitTranspose\<close> the file selects computes the same word as the bit-by-bit variant it
  keeps as an alternative, for all numbers of dimensions and bits the two conversions call it with.\<close>

theorem bitTranspose_eq_simple:
  assumes "fits (D * B) x" "0 < B" "2 \<le> D" "D * B \<le> 64"
  shows "bitTranspose D B x = bitTranspose_simple D B x"
proof (rule bit_word_eqI)
  fix q
  have "bit (bitTranspose D B x) q \<longleftrightarrow> (\<exists>b<B. \<exists>d<D. q = D * b + d \<and> bit x (d * B + b))"
    unfolding bitTranspose_def by (rule bt_loop_bits [OF bt_inv_start [OF assms] assms(2-4)])
  moreover have "bit (bitTranspose_simple D B x) q \<longleftrightarrow> (\<exists>d<D. \<exists>b<B. q = D * b + d \<and> bit x (d * B + b))"
    using bit_simple_fold [OF assms(2) _ assms(4) order_refl, of x] assms(3)
    unfolding bitTranspose_simple_def by auto
  ultimately show "bit (bitTranspose D B x) q \<longleftrightarrow> bit (bitTranspose_simple D B x) q" by blast
qed

theorem bitTranspose_eq_simple_witness: "bitTranspose 4 5 0x9A3F1 = bitTranspose_simple 4 5 0x9A3F1"
  by (rule bitTranspose_eq_simple) (simp_all add: fits_def take_bit_eq_mod)

end
