(* ===== verification/Hilbert.thy ===== *)
theory Hilbert
  imports Hilbert_Transpose
begin

text \<open>
  The two conversions of \<open>sdm_control/prefetch/hilbert.c\<close>, \<open>mfa_hilbert_i2c\<close> (index on the curve to
  coordinates) and \<open>mfa_hilbert_c2i\<close> (coordinates to index), which \<open>HSFC\<close> in \<open>sfc.h\<close> builds on, and the
  proof that they are inverse to each other for every number of dimensions and of bits whose product
  fits the machine word. \<open>halfmask_t\<close> is \<open>unsigned long\<close>, 64 bits on the LP64 platforms the build files
  target. The loop \<open>do ... while (b)\<close> counts \<open>b\<close> down from \<open>nDims * nBits\<close> in steps of \<open>nDims\<close>; the model
  counts the digits left, \<open>b = n * nDims\<close>.
\<close>

unbundle bit_operations_syntax

subsection \<open>The code\<close>

text \<open>\<open>for (b = d; b < limit; b *= 2) w ^= w >> b\<close>. A zero \<open>b\<close> would never end in C; the code starts it
  at 1 or at \<open>nDims > 1\<close>.\<close>

function xor_scan :: "nat \<Rightarrow> nat \<Rightarrow> u64 \<Rightarrow> u64" where
  "xor_scan b limit w =
     (if b = 0 \<or> limit \<le> b then w else xor_scan (b * 2) limit (w XOR drop_bit b w))"
  by pat_completeness auto
termination
  by (relation "measure (\<lambda>(b, limit, _). limit - b)") auto

declare xor_scan.simps [simp del]

primrec i2c_loop :: "nat \<Rightarrow> u64 \<Rightarrow> nat \<Rightarrow> u64 \<Rightarrow> nat \<Rightarrow> u64 \<Rightarrow> u64" where
  "i2c_loop nDims index 0 coords rotation flipBit = coords"
| "i2c_loop nDims index (Suc n) coords rotation flipBit =
     (let bits = drop_bit (n * nDims) index AND ones nDims;
          coords = push_bit nDims coords;
          coords = coords OR (rotateLeft bits rotation nDims XOR flipBit)
      in i2c_loop nDims index n coords (adjust_rotation rotation nDims bits) (push_bit rotation 1))"

primrec unpack_coords :: "nat \<Rightarrow> nat \<Rightarrow> u64 \<Rightarrow> u64 list" where
  "unpack_coords nBits 0 coords = []"
| "unpack_coords nBits (Suc d) coords = (coords AND ones nBits) # unpack_coords nBits d (drop_bit nBits coords)"

definition nthbits :: "nat \<Rightarrow> nat \<Rightarrow> u64" where
  "nthbits nDims nBits = ones (nDims * nBits) div ones nDims"

definition mfa_hilbert_i2c :: "nat \<Rightarrow> nat \<Rightarrow> u64 \<Rightarrow> u64 list" where
  "mfa_hilbert_i2c nDims nBits index =
     (if 1 < nDims then
        let coords =
              (if 1 < nBits then
                 let index = index XOR drop_bit 1 (index XOR nthbits nDims nBits);
                     coords = i2c_loop nDims index nBits 0 0 0;
                     coords = xor_scan nDims (nDims * nBits) coords
                 in bitTranspose nBits nDims coords
               else index XOR drop_bit 1 index)
        in unpack_coords nBits nDims coords
      else [index])"

definition pack_coords :: "nat \<Rightarrow> u64 list \<Rightarrow> u64" where
  "pack_coords nBits coord = foldr (\<lambda>c coords. push_bit nBits coords OR c) coord 0"

primrec c2i_loop :: "nat \<Rightarrow> u64 \<Rightarrow> nat \<Rightarrow> u64 \<Rightarrow> nat \<Rightarrow> u64 \<Rightarrow> u64" where
  "c2i_loop nDims coords 0 index rotation flipBit = index"
| "c2i_loop nDims coords (Suc n) index rotation flipBit =
     (let bits = drop_bit (n * nDims) coords AND ones nDims;
          bits = rotateRight (flipBit XOR bits) rotation nDims;
          index = push_bit nDims index OR bits
      in c2i_loop nDims coords n index (adjust_rotation rotation nDims bits) (push_bit rotation 1))"

text \<open>\<open>coord\<close> is an array of at least \<open>nDims\<close> words; a shorter one is read out of bounds in C.\<close>

definition mfa_hilbert_c2i :: "nat \<Rightarrow> nat \<Rightarrow> u64 list \<Rightarrow> u64" where
  "mfa_hilbert_c2i nDims nBits coord =
     (if 1 < nDims then
        let coords = pack_coords nBits (take nDims coord);
            index =
              (if 1 < nBits then
                 let coords = bitTranspose nDims nBits coords;
                     coords = coords XOR drop_bit nDims coords;
                     index = c2i_loop nDims coords nBits 0 0 0
                 in index XOR drop_bit 1 (nthbits nDims nBits)
               else coords)
        in xor_scan 1 (nDims * nBits) index
      else coord ! 0)"

subsection \<open>Gray code and its inverse\<close>

lemma xor_drop_drop:
  "(w XOR drop_bit d w) XOR drop_bit d (w XOR drop_bit d w) = w XOR drop_bit (d * 2) (w :: u64)"
  by (rule bit_word_eqI) (simp add: bit_xor_iff bit_drop_bit_eq mult_2_right add.assoc, blast)

lemma xor_scan_gray:
  assumes "0 < d" "fits m w" "m \<le> limit"
  shows "xor_scan d limit (w XOR drop_bit d w) = w"
  using assms
proof (induction "limit - d" arbitrary: d w rule: less_induct)
  case less
  show ?case
  proof (cases "limit \<le> d")
    case True
    then have "drop_bit d w = 0" using less(3,4) by (intro fits_drop_zero [OF less(3)]) simp
    with True show ?thesis by (subst xor_scan.simps) simp
  next
    case False
    have "xor_scan d limit (w XOR drop_bit d w) = xor_scan (d * 2) limit (w XOR drop_bit (d * 2) w)"
      using False less(2) by (subst xor_scan.simps) (simp only: xor_drop_drop if_False simp_thms neq0_conv if_P, simp)
    also have "\<dots> = w" using False less by (intro less(1)) auto
    finally show ?thesis .
  qed
qed

lemma gray_inj: "0 < d \<Longrightarrow> a XOR drop_bit d a = b XOR drop_bit d b \<Longrightarrow> a = (b :: u64)"
  by (metis xor_scan_gray fits_64 order_refl)

lemma gray_xor_scan:
  assumes "0 < d" "fits m w" "m \<le> limit"
  shows "xor_scan d limit w XOR drop_bit d (xor_scan d limit w) = w"
  using assms
proof (induction "limit - d" arbitrary: d w rule: less_induct)
  case less
  show ?case
  proof (cases "limit \<le> d")
    case True
    then have "drop_bit d w = 0" using less(3,4) by (intro fits_drop_zero [OF less(3)]) simp
    with True show ?thesis by (subst xor_scan.simps) (simp add: xor_scan.simps)
  next
    case False
    define s where "s = xor_scan (d * 2) limit (w XOR drop_bit d w)"
    have "fits m (w XOR drop_bit d w)" using less(3) by (intro fits_xor fits_drop_bit)
    then have "s XOR drop_bit (d * 2) s = w XOR drop_bit d w"
      using False less unfolding s_def by (intro less(1)) auto
    then have "(s XOR drop_bit d s) XOR drop_bit d (s XOR drop_bit d s) = w XOR drop_bit d w"
      by (simp only: xor_drop_drop)
    then have "s XOR drop_bit d s = w" by (rule gray_inj [OF less(2)])
    moreover have "xor_scan d limit w = s" using False less(2) unfolding s_def by (subst xor_scan.simps) simp
    ultimately show ?thesis by simp
  qed
qed

lemma fits_xor_scan: "fits m w \<Longrightarrow> fits m (xor_scan d limit w)"
proof (induction "limit - d" arbitrary: d w rule: less_induct)
  case less
  show ?case
    by (subst xor_scan.simps) (auto intro!: less fits_xor fits_drop_bit)
qed

subsection \<open>The digit loops\<close>

lemma fits_lt64: "fits n w \<Longrightarrow> n \<le> m \<Longrightarrow> take_bit m w = w"
  by (metis fits_def fits_mono)

lemma fits_power: "r < n \<Longrightarrow> fits n (2 ^ r)"
  by (auto simp: fits_bit bit_exp_iff)

lemma fits_flip: "r < n \<Longrightarrow> fits n (push_bit r 1)"
  by (simp add: fits_power)

lemma digit_split:
  assumes "fits m lo" "fits k hi" "m + k \<le> 64"
  shows "drop_bit m (push_bit m hi OR lo) = hi" "take_bit m (push_bit m hi OR lo) = lo"
  using assms
  by (auto intro!: bit_word_eqI simp: bit_or_iff bit_drop_bit_eq bit_take_bit_iff bit_push_u64 fits_bit)

lemma digit_join: "fits (m + k) w \<Longrightarrow> push_bit m (drop_bit m w AND mask k) OR take_bit m w = w"
  by (rule bit_word_eqI)
    (auto simp: bit_or_iff bit_push_u64 bit_and_iff bit_mask_iff bit_drop_bit_eq bit_take_bit_iff fits_bit)

lemma digit_of: "0 < k \<Longrightarrow> drop_bit m w AND ones k = drop_bit m (take_bit (m + k) w)"
  by (simp add: and_ones drop_bit_take_bit)

lemma i2c_loop_acc:
  "i2c_loop D I n acc r f = push_bit (n * D) acc OR i2c_loop D I n 0 r f"
proof (induction n arbitrary: acc r f)
  case (Suc n)
  define g where "g = rotateLeft (drop_bit (n * D) I AND ones D) r D XOR f"
  have "i2c_loop D I (Suc n) acc r f = push_bit (n * D) (push_bit D acc OR g) OR
      i2c_loop D I n 0 (adjust_rotation r D (drop_bit (n * D) I AND ones D)) (push_bit r 1)"
    using Suc [of "push_bit D acc OR g"] by (simp add: g_def Let_def)
  moreover have "i2c_loop D I (Suc n) 0 r f = push_bit (n * D) g OR
      i2c_loop D I n 0 (adjust_rotation r D (drop_bit (n * D) I AND ones D)) (push_bit r 1)"
    using Suc [of g] by (simp add: g_def Let_def)
  ultimately show ?case by (simp add: push_bit_or push_bit_push_bit or.assoc add.commute)
qed simp

lemma c2i_loop_acc:
  "c2i_loop D C n acc r f = push_bit (n * D) acc OR c2i_loop D C n 0 r f"
proof (induction n arbitrary: acc r f)
  case (Suc n)
  define g where "g = rotateRight (f XOR (drop_bit (n * D) C AND ones D)) r D"
  have "c2i_loop D C (Suc n) acc r f = push_bit (n * D) (push_bit D acc OR g) OR
      c2i_loop D C n 0 (adjust_rotation r D g) (push_bit r 1)"
    using Suc [of "push_bit D acc OR g"] by (simp add: g_def Let_def)
  moreover have "c2i_loop D C (Suc n) 0 r f = push_bit (n * D) g OR
      c2i_loop D C n 0 (adjust_rotation r D g) (push_bit r 1)"
    using Suc [of g] by (simp add: g_def Let_def)
  ultimately show ?case by (simp add: push_bit_or push_bit_push_bit or.assoc add.commute)
qed simp

lemma i2c_loop_Suc:
  "i2c_loop D I (Suc n) 0 r f =
     push_bit (n * D) (rotateLeft (drop_bit (n * D) I AND ones D) r D XOR f) OR
     i2c_loop D I n 0 (adjust_rotation r D (drop_bit (n * D) I AND ones D)) (push_bit r 1)"
  by (simp add: Let_def, subst i2c_loop_acc) simp

lemma c2i_loop_Suc:
  "c2i_loop D C (Suc n) 0 r f =
     push_bit (n * D) (rotateRight (f XOR (drop_bit (n * D) C AND ones D)) r D) OR
     c2i_loop D C n 0 (adjust_rotation r D (rotateRight (f XOR (drop_bit (n * D) C AND ones D)) r D)) (push_bit r 1)"
  by (simp add: Let_def, subst c2i_loop_acc) simp

lemma fits_i2c_loop:
  assumes "1 < D" "r < D" "fits D f"
  shows "fits (n * D) (i2c_loop D I n 0 r f)"
  using assms
proof (induction n arbitrary: r f)
  case (Suc n)
  then have "fits (n * D) (i2c_loop D I n 0 (adjust_rotation r D (drop_bit (n * D) I AND ones D)) (push_bit r 1))"
    by (intro Suc(1)) (simp_all add: adjust_rotation_less fits_power)
  moreover have "fits (n * D + D) (push_bit (n * D) (rotateLeft (drop_bit (n * D) I AND ones D) r D XOR f))"
    using Suc by (intro fits_push_bit fits_xor) auto
  ultimately show ?case unfolding i2c_loop_Suc by (auto intro: fits_mono simp: add.commute)
qed simp

lemma fits_c2i_loop:
  assumes "1 < D" "r < D" "fits D f"
  shows "fits (n * D) (c2i_loop D C n 0 r f)"
  using assms
proof (induction n arbitrary: r f)
  case (Suc n)
  let ?g = "rotateRight (f XOR (drop_bit (n * D) C AND ones D)) r D"
  have "fits (n * D) (c2i_loop D C n 0 (adjust_rotation r D ?g) (push_bit r 1))"
    using Suc by (intro Suc(1)) (simp_all add: adjust_rotation_less fits_power)
  moreover have "fits (n * D + D) (push_bit (n * D) ?g)"
    using Suc by (intro fits_push_bit) auto
  ultimately show ?case unfolding c2i_loop_Suc by (auto intro: fits_mono simp: add.commute)
qed simp

lemma rotateRight_rotateLeft:
  assumes "fits n w" "r < n" "n \<le> 64"
  shows "rotateRight (rotateLeft w r n) r n = w"
proof (rule bit_word_eqI)
  fix p
  have "bit (rotateRight (rotateLeft w r n) r n) p
      \<longleftrightarrow> p < n \<and> bit (rotateLeft w r n) (if p + r < n then p + r else p + r - n)"
    using assms by (intro bit_rotateRight) auto
  also have "\<dots> \<longleftrightarrow> p < n \<and> bit w p"
    using assms by (auto simp: bit_rotateLeft)
  finally show "bit (rotateRight (rotateLeft w r n) r n) p \<longleftrightarrow> bit w p"
    using assms(1) by (auto dest: fitsD)
qed

lemma c2i_loop_i2c_loop:
  assumes "1 < D" "r < D" "fits D f" "n * D \<le> 64" "take_bit (n * D) C = i2c_loop D I n 0 r f"
  shows "c2i_loop D C n 0 r f = take_bit (n * D) I"
  using assms
proof (induction n arbitrary: r f)
  case (Suc n)
  define d where "d = drop_bit (n * D) I AND ones D"
  define r' where "r' = adjust_rotation r D d"
  have d: "fits D d" and r': "r' < D" and f': "fits D (push_bit r 1)"
    using Suc by (simp_all add: d_def fits_and_ones r'_def adjust_rotation_less fits_power)
  define rest where "rest = i2c_loop D I n 0 r' (push_bit r 1)"
  have rest: "fits (n * D) rest" unfolding rest_def by (rule fits_i2c_loop [OF Suc(2) r' f'])
  have C: "take_bit (n * D + D) C = push_bit (n * D) (rotateLeft d r D XOR f) OR rest"
    using Suc(6) unfolding i2c_loop_Suc rest_def r'_def d_def by (simp add: add.commute)
  have g: "fits D (rotateLeft d r D XOR f)" using Suc by (intro fits_xor) auto
  have n64: "n * D + D \<le> 64" using Suc(5) by simp
  have "drop_bit (n * D) C AND ones D = drop_bit (n * D) (take_bit (n * D + D) C)"
    using Suc(2) by (intro digit_of) simp
  also have "\<dots> = rotateLeft d r D XOR f" unfolding C by (rule digit_split(1) [OF rest g n64])
  finally have dig: "drop_bit (n * D) C AND ones D = rotateLeft d r D XOR f" .
  have "take_bit (n * D) C = take_bit (n * D) (take_bit (n * D + D) C)" by simp
  also have "\<dots> = rest" unfolding C by (rule digit_split(2) [OF rest g n64])
  finally have lo: "take_bit (n * D) C = i2c_loop D I n 0 r' (push_bit r 1)" unfolding rest_def .
  have bk: "rotateRight (f XOR (drop_bit (n * D) C AND ones D)) r D = d"
    unfolding dig using rotateRight_rotateLeft [OF d Suc(3)] n64 by (simp add: xor.left_commute [of f])
  have "c2i_loop D C (Suc n) 0 r f = push_bit (n * D) d OR take_bit (n * D) I"
    unfolding c2i_loop_Suc bk using Suc(1) [OF Suc(2) r' f' _ lo] n64 by (simp add: r'_def)
  also have "\<dots> = take_bit (n * D + D) I"
    using digit_join [of "n * D" D "take_bit (n * D + D) I"] Suc(2)
    by (simp add: d_def ones_mask take_bit_eq_mask [symmetric] drop_bit_take_bit)
  finally show ?case by (simp add: add.commute)
qed simp

lemma i2c_loop_c2i_loop:
  assumes "1 < D" "r < D" "fits D f" "n * D \<le> 64" "take_bit (n * D) I = c2i_loop D C n 0 r f"
  shows "i2c_loop D I n 0 r f = take_bit (n * D) C"
  using assms
proof (induction n arbitrary: r f)
  case (Suc n)
  define c where "c = drop_bit (n * D) C AND ones D"
  define d where "d = rotateRight (f XOR c) r D"
  define r' where "r' = adjust_rotation r D d"
  have c: "fits D c" and d: "fits D d" and r': "r' < D" and f': "fits D (push_bit r 1)"
    using Suc by (simp_all add: c_def d_def fits_and_ones r'_def adjust_rotation_less fits_power)
  define rest where "rest = c2i_loop D C n 0 r' (push_bit r 1)"
  have rest: "fits (n * D) rest" unfolding rest_def by (rule fits_c2i_loop [OF Suc(2) r' f'])
  have I: "take_bit (n * D + D) I = push_bit (n * D) d OR rest"
    using Suc(6) unfolding c2i_loop_Suc rest_def r'_def d_def c_def by (simp add: add.commute)
  have n64: "n * D + D \<le> 64" using Suc(5) by simp
  have "drop_bit (n * D) I AND ones D = drop_bit (n * D) (take_bit (n * D + D) I)"
    using Suc(2) by (intro digit_of) simp
  also have "\<dots> = d" unfolding I by (rule digit_split(1) [OF rest d n64])
  finally have dig: "drop_bit (n * D) I AND ones D = d" .
  have "take_bit (n * D) I = take_bit (n * D) (take_bit (n * D + D) I)" by simp
  also have "\<dots> = rest" unfolding I by (rule digit_split(2) [OF rest d n64])
  finally have lo: "take_bit (n * D) I = c2i_loop D C n 0 r' (push_bit r 1)" unfolding rest_def .
  have "fits D (f XOR c)" using Suc(4) c by (rule fits_xor)
  then have bk: "rotateLeft d r D XOR f = c"
    unfolding d_def using rotateLeft_rotateRight [of D "f XOR c" r] Suc(3) n64
    by (simp add: xor.commute [of _ f] xor.left_commute [of f] xor.assoc [symmetric])
  have "i2c_loop D I (Suc n) 0 r f = push_bit (n * D) c OR take_bit (n * D) C"
    unfolding i2c_loop_Suc dig bk using Suc(1) [OF Suc(2) r' f' _ lo] n64 by (simp add: r'_def)
  also have "\<dots> = take_bit (n * D + D) C"
    using digit_join [of "n * D" D "take_bit (n * D + D) C"] Suc(2)
    by (simp add: c_def ones_mask take_bit_eq_mask [symmetric] drop_bit_take_bit)
  finally show ?case by (simp add: add.commute)
qed simp

subsection \<open>Packing coordinates into a word\<close>

lemma pack_Cons: "pack_coords B (c # cs) = push_bit B (pack_coords B cs) OR c"
  by (simp add: pack_coords_def)

lemma fits_pack: "\<forall>c\<in>set cs. fits B c \<Longrightarrow> fits (length cs * B) (pack_coords B cs)"
proof (induction cs)
  case (Cons c cs)
  then have "fits (B + length cs * B) (push_bit B (pack_coords B cs))" by (intro fits_push_bit) simp
  with Cons show ?case by (auto simp: pack_Cons intro: fits_mono)
qed (simp add: pack_coords_def)

lemma unpack_pack:
  assumes "\<forall>c\<in>set cs. fits B c" "0 < B" "length cs * B \<le> 64"
  shows "unpack_coords B (length cs) (pack_coords B cs) = cs"
  using assms
proof (induction cs)
  case (Cons c cs)
  have f: "fits B c" "fits (length cs * B) (pack_coords B cs)" using Cons fits_pack by auto
  have "B + length cs * B \<le> 64" using Cons by simp
  note ds = digit_split [OF f this]
  have "unpack_coords B (length cs) (pack_coords B cs) = cs" using Cons by simp
  then show ?case using Cons(3) by (simp only: pack_Cons list.size unpack_coords.simps and_ones ds add_0_right add_Suc_right)
qed simp

lemma length_unpack [simp]: "length (unpack_coords B n w) = n"
  by (induction n arbitrary: w) simp_all

lemma fits_unpack: "0 < B \<Longrightarrow> c \<in> set (unpack_coords B n w) \<Longrightarrow> fits B c"
  by (induction n arbitrary: w) (auto simp: fits_and_ones)

lemma pack_unpack:
  assumes "fits (n * B) w" "0 < B"
  shows "pack_coords B (unpack_coords B n w) = w"
  using assms
proof (induction n arbitrary: w)
  case 0
  then show ?case by (simp add: pack_coords_def fits_def)
next
  case (Suc n)
  have "fits (n * B) (drop_bit B w)"
    using Suc(2) by (auto simp: fits_bit bit_drop_bit_eq)
  with Suc show ?case
    using digit_join [of B "n * B" w]
    by (simp add: pack_Cons and_ones take_bit_eq_mask [symmetric] fits_def)
qed

subsection \<open>The round trips\<close>

lemma fits_bitTranspose:
  assumes "fits (D * B) x" "0 < B" "2 \<le> D" "D * B \<le> 64"
  shows "fits (D * B) (bitTranspose D B x)"
  using transposed_bits [OF assms] by (simp add: fits_bit)

lemma bitTranspose_twice:
  assumes x: "fits (D * B) x" and D: "2 \<le> D" "2 \<le> B" "D * B \<le> 64"
  shows "bitTranspose B D (bitTranspose D B x) = x"
proof (rule bit_word_eqI)
  fix p
  have y: "fits (B * D) (bitTranspose D B x)" using fits_bitTranspose [OF x _ D(1,3)] D by (simp add: mult.commute)
  have "bit (bitTranspose B D (bitTranspose D B x)) p \<longleftrightarrow>
      p < D * B \<and> bit (bitTranspose D B x) ((p mod B) * D + p div B)"
    using transposed_bits [OF y] D by (simp add: mult.commute)
  also have "\<dots> \<longleftrightarrow> p < D * B \<and> bit x p"
  proof (cases "p < D * B")
    case True
    then have p: "p div B < D" "p mod B < B" using D by (simp_all add: less_mult_imp_div_less)
    then have "(p mod B) * D + p div B < D * B" using row_room [of "p mod B" B "p div B" D] by (simp add: mult.commute)
    with p show ?thesis using transposed_bits [OF x _ D(1,3)] D by (simp add: div_mult_mod_eq)
  qed simp
  also have "\<dots> \<longleftrightarrow> bit x p" using x by (auto dest: fitsD)
  finally show "bit (bitTranspose B D (bitTranspose D B x)) p \<longleftrightarrow> bit x p" .
qed

text \<open>The two conversions between \<open>index\<close> and the word of coordinates that the loops use.\<close>

lemma i2c_many:
  "1 < D \<Longrightarrow> 1 < B \<Longrightarrow> mfa_hilbert_i2c D B i = unpack_coords B D (bitTranspose B D
     (xor_scan D (D * B) (i2c_loop D (i XOR drop_bit 1 (i XOR nthbits D B)) B 0 0 0)))"
  by (simp add: mfa_hilbert_i2c_def Let_def)

lemma c2i_many:
  "1 < D \<Longrightarrow> 1 < B \<Longrightarrow> length cs = D \<Longrightarrow> mfa_hilbert_c2i D B cs =
     (let y = bitTranspose D B (pack_coords B cs)
      in xor_scan 1 (D * B) (c2i_loop D (y XOR drop_bit D y) B 0 0 0 XOR drop_bit 1 (nthbits D B)))"
  by (simp add: mfa_hilbert_c2i_def Let_def)

lemma fits_unat: "fits n w \<longleftrightarrow> unat w < 2 ^ n"
  unfolding fits_def word_unat_eq_iff by (simp add: unsigned_take_bit_eq take_bit_nat_eq_self_iff)

lemma fits_nthbits:
  assumes "1 < D" "0 < B"
  shows "fits (D * B) (nthbits D B)"
proof -
  have "unat (nthbits D B) \<le> unat (ones (D * B))" by (simp add: nthbits_def unat_div)
  moreover have "fits (D * B) (ones (D * B))" using assms by (auto simp: fits_bit)
  ultimately show ?thesis by (simp add: fits_unat)
qed

lemma i2c_of_c2i:
  assumes "1 < D" "0 < B" "D * B \<le> 64" "length cs = D" "\<forall>c\<in>set cs. fits B c"
  shows "mfa_hilbert_i2c D B (mfa_hilbert_c2i D B cs) = cs"
proof (cases "B = 1")
  case True
  let ?p = "pack_coords B cs"
  have p: "fits D ?p" using fits_pack [OF assms(5)] assms True by simp
  have "xor_scan 1 D ?p XOR drop_bit 1 (xor_scan 1 D ?p) = ?p" by (rule gray_xor_scan [OF _ p]) auto
  moreover have "unpack_coords B D ?p = cs" using unpack_pack [OF assms(5,2)] assms True by simp
  ultimately show ?thesis using assms True by (simp add: mfa_hilbert_c2i_def mfa_hilbert_i2c_def)
next
  case False
  then have B: "1 < B" using assms by simp
  define P where "P = pack_coords B cs"
  define Y where "Y = bitTranspose D B P"
  define Z where "Z = Y XOR drop_bit D Y"
  define j where "j = c2i_loop D Z B 0 0 0"
  define i where "i = xor_scan 1 (D * B) (j XOR drop_bit 1 (nthbits D B))"
  have P: "fits (D * B) P" using fits_pack [OF assms(5)] assms by (simp add: P_def)
  have Y: "fits (D * B) Y" unfolding Y_def by (rule fits_bitTranspose [OF P]) (use assms in auto)
  have Z: "fits (D * B) Z" unfolding Z_def using Y by (intro fits_xor fits_drop_bit)
  have j: "fits (B * D) j" unfolding j_def by (rule fits_c2i_loop) (use assms in auto)
  have jn: "fits (D * B) (j XOR drop_bit 1 (nthbits D B))"
    using fits_nthbits [OF assms(1,2)] j [unfolded mult.commute [of B D]] by (intro fits_xor fits_drop_bit)
  have "i XOR drop_bit 1 i = j XOR drop_bit 1 (nthbits D B)"
    unfolding i_def by (rule gray_xor_scan [OF _ jn]) auto
  then have ij: "i XOR drop_bit 1 (i XOR nthbits D B) = j"
    by (simp add: xor.assoc [symmetric]) (simp add: xor.assoc)
  have "i2c_loop D j B 0 0 0 = take_bit (B * D) Z"
    by (rule i2c_loop_c2i_loop) (use assms j in \<open>auto simp: j_def [symmetric] fits_def mult.commute\<close>)
  also have "\<dots> = Z" using Z by (simp add: fits_def mult.commute)
  finally have lp: "i2c_loop D j B 0 0 0 = Z" .
  have sc: "xor_scan D (D * B) Z = Y" unfolding Z_def by (rule xor_scan_gray [OF _ Y]) (use assms in auto)
  have tr: "bitTranspose B D Y = P" unfolding Y_def using P B assms by (intro bitTranspose_twice) auto
  have "mfa_hilbert_c2i D B cs = i"
    using assms B by (simp add: c2i_many i_def j_def Z_def Y_def P_def Let_def)
  then have "mfa_hilbert_i2c D B (mfa_hilbert_c2i D B cs) = unpack_coords B D P"
    using assms B by (simp only: i2c_many ij lp sc tr)
  also have "\<dots> = cs" using unpack_pack [OF assms(5,2)] assms by (simp add: P_def)
  finally show ?thesis .
qed

lemma c2i_of_i2c:
  assumes "1 < D" "0 < B" "D * B \<le> 64" "fits (D * B) i"
  shows "mfa_hilbert_c2i D B (mfa_hilbert_i2c D B i) = i"
proof (cases "B = 1")
  case True
  then have "fits D (i XOR drop_bit 1 i)" using assms by (auto intro!: fits_xor fits_drop_bit)
  then have "pack_coords B (unpack_coords B D (i XOR drop_bit 1 i)) = i XOR drop_bit 1 i"
    using True by (intro pack_unpack) auto
  then show ?thesis
    using assms True xor_scan_gray [of 1 D i D] by (simp add: mfa_hilbert_c2i_def mfa_hilbert_i2c_def)
next
  case False
  then have B: "1 < B" using assms by simp
  define j where "j = i XOR drop_bit 1 (i XOR nthbits D B)"
  define W where "W = i2c_loop D j B 0 0 0"
  define X where "X = xor_scan D (D * B) W"
  have j: "fits (D * B) j" using assms fits_nthbits by (auto simp: j_def intro!: fits_xor fits_drop_bit)
  have W: "fits (B * D) W" unfolding W_def by (rule fits_i2c_loop) (use assms in auto)
  have X: "fits (B * D) X" unfolding X_def by (rule fits_xor_scan [OF W])
  have pk: "pack_coords B (unpack_coords B D (bitTranspose B D X)) = bitTranspose B D X"
    using X B assms by (intro pack_unpack) (auto simp: mult.commute intro!: fits_bitTranspose)
  have tr: "bitTranspose D B (bitTranspose B D X) = X"
    using X B assms by (intro bitTranspose_twice) (auto simp: mult.commute)
  have gr: "X XOR drop_bit D X = W"
    unfolding X_def by (rule gray_xor_scan [OF _ W]) (use assms in \<open>auto simp: mult.commute\<close>)
  have "c2i_loop D W B 0 0 0 = take_bit (B * D) j"
    by (rule c2i_loop_i2c_loop) (use assms W in \<open>auto simp: W_def [symmetric] fits_def mult.commute\<close>)
  also have "\<dots> = j" using j by (simp add: fits_def mult.commute)
  finally have lp: "c2i_loop D W B 0 0 0 = j" .
  have "mfa_hilbert_c2i D B (mfa_hilbert_i2c D B i) = xor_scan 1 (D * B) (j XOR drop_bit 1 (nthbits D B))"
    unfolding i2c_many [OF assms(1) B] c2i_many [OF assms(1) B length_unpack]
    by (simp only: Let_def pk tr gr lp flip: j_def W_def X_def)
  also have "j XOR drop_bit 1 (nthbits D B) = i XOR drop_bit 1 i"
    by (simp add: j_def xor.assoc)
  also have "xor_scan 1 (D * B) \<dots> = i" by (rule xor_scan_gray [OF _ assms(4)]) auto
  finally show ?thesis .
qed

lemma i2c_grid:
  assumes "1 < D" "0 < B"
  shows "length (mfa_hilbert_i2c D B i) = D" "c \<in> set (mfa_hilbert_i2c D B i) \<Longrightarrow> fits B c"
  using assms(1) fits_unpack [OF assms(2)] by (auto simp: mfa_hilbert_i2c_def Let_def split: if_splits)

text \<open>C11: on a space of at least two dimensions \<open>mfa_hilbert_c2i\<close> gives back the index that
  \<open>mfa_hilbert_i2c\<close> was called with, whatever the number of bits, as long as all of them fit
  \<open>bitmask_t\<close>. No two indices share a point of the grid.\<close>

theorem c2i_i2c:
  assumes "1 < D" "0 < B" "D * B \<le> 64" "fits (D * B) i"
  shows "mfa_hilbert_c2i D B (mfa_hilbert_i2c D B i) = i"
  by (rule c2i_of_i2c [OF assms])

theorem c2i_i2c_witness: "mfa_hilbert_c2i 3 5 (mfa_hilbert_i2c 3 5 12345) = 12345"
  by (rule c2i_i2c) (simp_all add: fits_unat)

text \<open>C25: conversely \<open>mfa_hilbert_i2c\<close> recovers every coordinate of the point that
  \<open>mfa_hilbert_c2i\<close> was called with: the curve reaches every point of the grid, so with the converse
  the two functions are bijections between the indices and the grid.\<close>

theorem i2c_c2i:
  assumes "1 < D" "0 < B" "D * B \<le> 64" "length cs = D" "\<forall>c\<in>set cs. fits B c"
  shows "mfa_hilbert_i2c D B (mfa_hilbert_c2i D B cs) = cs"
  by (rule i2c_of_c2i [OF assms])

theorem i2c_c2i_witness: "mfa_hilbert_i2c 2 4 (mfa_hilbert_c2i 2 4 [5, 9]) = [5, 9]"
  by (rule i2c_c2i) (simp_all add: fits_unat)

end
