(* ===== verification/Sfc.thy ===== *)
theory Sfc
  imports QTable Hilbert
begin

text \<open>
  \<open>prefetch/sfc.cpp\<close>: which region to fetch around a request of a spatial data space. \<open>SAlgo\<close> walks the
  cells of the request along the Hilbert curve, \<open>HSAlgo\<close> widens the set of indices on both sides and
  fetches the bounding box of the cells it names. \<open>boost::icl::interval_set\<close> is a parameter, the record
  \<open>iset_ops\<close>, with \<open>iset_ok\<close>: its intervals cover what was inserted. \<open>None\<close> is a process exit, a conversion
  that is undefined, or a loop that does not end.
\<close>

unbundle bit_operations_syntax

record 'i iset_ops =
  is_empty :: 'i
  is_insert :: "u64 \<Rightarrow> u64 \<Rightarrow> 'i \<Rightarrow> 'i"
  is_intervals :: "'i \<Rightarrow> (u64 \<times> u64) list"

definition points :: "('i, 'b) iset_ops_scheme \<Rightarrow> 'i \<Rightarrow> u64 set" where
  "points I s = (\<Union>(lo, hi)\<in>set (is_intervals I s). {lo..hi})"

definition iset_ok :: "('i, 'b) iset_ops_scheme \<Rightarrow> bool" where
  "iset_ok I \<longleftrightarrow> points I (is_empty I) = {} \<and> (\<forall>lo hi s. points I (is_insert I lo hi s) = points I s \<union> {lo..hi})"

text \<open>A plain list of intervals with these laws.\<close>

definition list_iset :: "(u64 \<times> u64) list iset_ops" where
  "list_iset = \<lparr>is_empty = [], is_insert = (\<lambda>lo hi s. s @ [(lo, hi)]), is_intervals = (\<lambda>s. s)\<rparr>"

lemma list_iset_ok: "iset_ok list_iset"
  by (auto simp: iset_ok_def points_def list_iset_def)

subsection \<open>SAlgo\<close>

record 'i salgo =
  sa_lcoor :: coor
  sa_ucoor :: coor
  hilbert_num_bits :: nat
  max_index :: int
  acced_index_interval_set_v :: "'i list"

text \<open>\<open>ceil(log2 n)\<close> for a positive \<open>n\<close>: exact in double precision for an \<open>int\<close>.\<close>

fun ceil_log2 :: "nat \<Rightarrow> nat" where
  "ceil_log2 n = (if n \<le> 1 then 0 else Suc (ceil_log2 ((n + 1) div 2)))"

declare ceil_log2.simps [simp del]

definition salgo_new :: "coor \<Rightarrow> coor \<Rightarrow> 'i salgo option" where
  "salgo_new l u =
     (if \<not> box_valid l u then None
      else let m = foldr max (map (\<lambda>i. to_int (u ! i - l ! i)) [0..<NDIM]) (- (2 ^ 31))
           in if m \<le> 0 then None
           else let bits = ceil_log2 (nat m)
                in if 31 < NDIM * bits then None
                else Some \<lparr>sa_lcoor = l, sa_ucoor = u, hilbert_num_bits = bits,
                           max_index = 2 ^ (NDIM * bits) - 1, acced_index_interval_set_v = []\<rparr>)"

text \<open>\<open>MULTI_FOR\<close>: one nested loop per dimension, with \<open>int\<close> counters.\<close>

fun walk :: "(u64 \<times> u64) list \<Rightarrow> coor list" where
  "walk [] = [[]]"
| "walk ((l, u) # lus) = concat (map (\<lambda>d. map ((#) (word_of_nat d)) (walk lus)) [unat l..<unat u])"

definition MULTI_FOR :: "coor \<Rightarrow> coor \<Rightarrow> coor list option" where
  "MULTI_FOR l u = (if list_all (\<lambda>i. u ! i < 2 ^ 31) [0..<NDIM] then Some (walk (zip (take NDIM l) (take NDIM u))) else None)"

definition coor_to_index_interval_set :: "('i, 'b) iset_ops_scheme \<Rightarrow> coor \<Rightarrow> coor \<Rightarrow> ('i, 'c) salgo_scheme \<Rightarrow> 'i option" where
  "coor_to_index_interval_set I l u s =
     map_option (\<lambda>cs. fold (\<lambda>c is. let index = mfa_hilbert_c2i NDIM (hilbert_num_bits s) c in is_insert I index index is) cs (is_empty I))
       (MULTI_FOR l u)"

text \<open>The loop over the indices of an interval does not end if the upper one is the largest word.\<close>

fun intervals_to_coors :: "nat \<Rightarrow> (u64 \<times> u64) list \<Rightarrow> coor list option" where
  "intervals_to_coors bits [] = Some []"
| "intervals_to_coors bits ((lo, hi) # is) =
     (if lo \<le> hi \<and> hi = - 1 then None
      else map_option (\<lambda>cs. map (\<lambda>i. mfa_hilbert_i2c NDIM bits (word_of_nat i)) [unat lo..<Suc (unat hi)] @ cs)
             (intervals_to_coors bits is))"

definition index_interval_set_to_coor_v :: "('i, 'b) iset_ops_scheme \<Rightarrow> 'i \<Rightarrow> ('i, 'c) salgo_scheme \<Rightarrow> coor list option" where
  "index_interval_set_to_coor_v I is s = intervals_to_coors (hilbert_num_bits s) (is_intervals I is)"

definition expand_interval_set :: "('i, 'b) iset_ops_scheme \<Rightarrow> u64 \<Rightarrow> 'i \<Rightarrow> ('i, 'c) salgo_scheme \<Rightarrow> 'i" where
  "expand_interval_set I n is s =
     fold (\<lambda>(lo, hi) is'.
        let lower = (if lo < n then 0 else lo - n)
        in is_insert I lower (min (word_of_int (max_index s)) (hi + n)) is') (is_intervals I is) (is_empty I)"

definition salgo_add_access :: "('i, 'b) iset_ops_scheme \<Rightarrow> coor \<Rightarrow> coor \<Rightarrow> 'i salgo \<Rightarrow> (rc \<times> 'i salgo) option" where
  "salgo_add_access I l u s =
     map_option (\<lambda>is. (0, s\<lparr>acced_index_interval_set_v := acced_index_interval_set_v s @ [is]\<rparr>))
       (coor_to_index_interval_set I l u s)"

subsection \<open>HSAlgo\<close>

record 'i hsalgo = "'i salgo" +
  sexpand_length :: u64

definition hsalgo_new :: "coor \<Rightarrow> coor \<Rightarrow> u64 \<Rightarrow> 'i hsalgo option" where
  "hsalgo_new l u n = map_option (\<lambda>s. salgo.extend s \<lparr>sexpand_length = n\<rparr>) (salgo_new l u)"

text \<open>The return code is \<open>None\<close> where the function ends without one.\<close>

definition get_to_fetch ::
  "('i, 'b) iset_ops_scheme \<Rightarrow> ('r, int, 'c) rtree_ops_scheme \<Rightarrow> coor \<Rightarrow> coor \<Rightarrow> (coor \<times> coor) list \<Rightarrow> 'i hsalgo \<Rightarrow>
     (rc option \<times> (coor \<times> coor) list) option" where
  "get_to_fetch I R l u out s =
     (if \<not> box_valid l u then Some (Some 1, out)
      else do {
        is \<leftarrow> coor_to_index_interval_set I l u s;
        lcoor_v \<leftarrow> index_interval_set_to_coor_v I (expand_interval_set I (sexpand_length s) is s) s;
        let rtable = fold (\<lambda>c r. snd (rt_add R '''' 0 c (map (\<lambda>x. x + 1) (take NDIM c)) (- 1) r)) lcoor_v (rt_empty R);
        Some (None, out @ [get_bound_lucoor R rtable]) })"

subsection \<open>Bits of the domain\<close>

lemma ceil_log2_bound: "n \<le> 2 ^ ceil_log2 n"
proof (induction n rule: ceil_log2.induct)
  case (1 n)
  show ?case
  proof (cases "n \<le> 1")
    case False
    have "n \<le> 2 * ((n + 1) div 2)" by simp
    also have "\<dots> \<le> 2 * 2 ^ ceil_log2 ((n + 1) div 2)" using 1 False by simp
    finally show ?thesis using False by (simp add: ceil_log2.simps [of n])
  qed (simp add: ceil_log2.simps [of n])
qed

lemma u64_bound: "unat (x :: u64) < 2 ^ 64"
  using unsigned_less [of x, where ?'a = nat] by simp

subsection \<open>The cells of a box\<close>

definition in_box :: "coor \<Rightarrow> coor \<Rightarrow> coor \<Rightarrow> bool" where
  "in_box l u c \<longleftrightarrow> length c = length l \<and> (\<forall>i<length l. l ! i \<le> c ! i \<and> c ! i < u ! i)"

lemma set_walk:
  assumes "length l = length u"
  shows "set (walk (zip l u)) = {c. in_box l u c}"
  using assms
proof (induction l u rule: list_induct2)
  case (Cons x l y u)
  have "(\<exists>d\<in>{unat x..<unat y}. c = word_of_nat d) \<longleftrightarrow> x \<le> c \<and> c < y" for c :: u64
  proof
    assume "\<exists>d\<in>{unat x..<unat y}. c = word_of_nat d"
    then obtain d where d: "unat x \<le> d" "d < unat y" "c = word_of_nat d" by auto
    then have "d < 2 ^ 64" using u64_bound [of y] by simp
    then have "unat c = d" using d by (simp add: unat_of_nat take_bit_nat_eq_self)
    then show "x \<le> c \<and> c < y" using d by (simp add: word_le_nat_alt word_less_nat_alt)
  next
    assume "x \<le> c \<and> c < y"
    then show "\<exists>d\<in>{unat x..<unat y}. c = word_of_nat d"
      by (intro bexI [of _ "unat c"]) (auto simp: word_le_nat_alt word_less_nat_alt)
  qed
  then have *: "walk (zip (x # l) (y # u)) = concat (map (\<lambda>d. map ((#) (word_of_nat d)) (walk (zip l u))) [unat x..<unat y])"
    "word_of_nat ` {unat x..<unat y} = {c. x \<le> c \<and> c < y}" by auto
  have "set (walk (zip (x # l) (y # u))) = (\<Union>c\<in>word_of_nat ` {unat x..<unat y}. (#) c ` set (walk (zip l u)))"
    unfolding *(1) by auto
  also have "\<dots> = {c # cs |c cs. x \<le> c \<and> c < y \<and> in_box l u cs}"
    unfolding *(2) Cons.IH by auto
  also have "\<dots> = {c. in_box (x # l) (y # u) c}"
    by (auto simp: in_box_def length_Suc_conv All_less_Suc2)
  finally show ?case .
qed (auto simp: in_box_def)


subsection \<open>Index sets\<close>

lemma points_fold:
  assumes "iset_ok I"
  shows "points I (fold (\<lambda>x. is_insert I (f x) (g x)) xs s) = points I s \<union> (\<Union>x\<in>set xs. {f x..g x})"
  using assms by (induction xs arbitrary: s) (auto simp: iset_ok_def)

lemma MULTI_FOR_cells:
  assumes "length l = NDIM" "length u = NDIM" "\<forall>i<NDIM. u ! i < 2 ^ 31"
  shows "\<exists>cs. MULTI_FOR l u = Some cs \<and> set cs = {c. in_box l u c}"
  using assms set_walk [of l u] by (auto simp: MULTI_FOR_def list_all_iff)

lemma coor_points:
  assumes "iset_ok I" "length l = NDIM" "length u = NDIM" "\<forall>i<NDIM. u ! i < 2 ^ 31"
  shows "\<exists>is. coor_to_index_interval_set I l u s = Some is \<and>
    points I is = mfa_hilbert_c2i NDIM (hilbert_num_bits s) ` {c. in_box l u c}"
proof -
  obtain cs where cs: "MULTI_FOR l u = Some cs" "set cs = {c. in_box l u c}" using MULTI_FOR_cells assms by blast
  let ?f = "mfa_hilbert_c2i NDIM (hilbert_num_bits s)"
  have "points I (fold (\<lambda>c. is_insert I (?f c) (?f c)) cs (is_empty I)) = ?f ` {c. in_box l u c}"
    unfolding points_fold [OF assms(1)] cs(2) using assms(1) by (auto simp: iset_ok_def)
  then show ?thesis by (simp add: coor_to_index_interval_set_def cs(1) Let_def)
qed

lemma expand_points:
  assumes "iset_ok I"
  shows "points I (expand_interval_set I n is s) =
    (\<Union>(lo, hi)\<in>set (is_intervals I is). {(if lo < n then 0 else lo - n)..min (word_of_int (max_index s)) (hi + n)})"
proof -
  have "points I (expand_interval_set I n is s) = points I (is_empty I) \<union>
      (\<Union>x\<in>set (is_intervals I is). {(if fst x < n then 0 else fst x - n)..min (word_of_int (max_index s)) (snd x + n)})"
    unfolding expand_interval_set_def
    by (subst points_fold [OF assms, symmetric]) (simp only: case_prod_unfold Let_def)
  also have "points I (is_empty I) = {}" using assms by (simp add: iset_ok_def)
  finally show ?thesis by (simp add: case_prod_beta)
qed

lemma expand_grows:
  assumes I: "iset_ok I" and max: "\<forall>p\<in>points I is. p \<le> word_of_int (max_index s)"
    and "unat (word_of_int (max_index s) :: u64) + unat n < 2 ^ 64"
  shows "points I is \<subseteq> points I (expand_interval_set I n is s)"
proof
  fix p
  assume "p \<in> points I is"
  then obtain lo hi where h: "(lo, hi) \<in> set (is_intervals I is)" "lo \<le> p" "p \<le> hi" by (auto simp: points_def)
  then have "hi \<in> points I is" unfolding points_def by (auto intro!: bexI [of _ "(lo, hi)"])
  then have hi: "hi \<le> word_of_int (max_index s)" using max by blast
  then have "unat hi + unat n < 2 ^ 64" using assms(3) by (simp add: word_le_nat_alt)
  then have "hi \<le> hi + n" by (simp add: word_le_nat_alt unat_word_ariths)
  moreover have "(if lo < n then 0 else lo - n) \<le> p"
    using h(2) word_sub_le [of n lo] by (auto simp: not_less)
  ultimately have "p \<in> {(if lo < n then 0 else lo - n)..min (word_of_int (max_index s)) (hi + n)}"
    using h(3) hi by auto
  then show "p \<in> points I (expand_interval_set I n is s)" unfolding expand_points [OF I] using h(1) by blast
qed

lemma expand_0:
  assumes I: "iset_ok I" and max: "\<forall>p\<in>points I is. p \<le> word_of_int (max_index s)"
  shows "points I (expand_interval_set I 0 is s) = points I is"
proof
  show "points I (expand_interval_set I 0 is s) \<subseteq> points I is"
    unfolding expand_points [OF I] by (force simp: points_def)
  show "points I is \<subseteq> points I (expand_interval_set I 0 is s)"
    by (rule expand_grows [OF I max]) (use u64_bound [of "word_of_int (max_index s)"] in simp)
qed

lemma expand_max: "iset_ok I \<Longrightarrow> p \<in> points I (expand_interval_set I n is s) \<Longrightarrow> p \<le> word_of_int (max_index s)"
  by (auto simp: expand_points)

lemma intervals_to_coors_set:
  assumes "\<forall>(lo, hi)\<in>set is. \<not> (lo \<le> hi \<and> hi = - 1)"
  shows "\<exists>cs. intervals_to_coors bits is = Some cs \<and> set cs = mfa_hilbert_i2c NDIM bits ` (\<Union>(lo, hi)\<in>set is. {lo..hi})"
  using assms
proof (induction "is")
  case (Cons x "is")
  obtain lo hi where x: "x = (lo, hi)" by force
  have "word_of_nat ` {unat lo..<Suc (unat hi)} = {lo..hi}"
  proof (intro subset_antisym subsetI)
    fix w :: u64
    assume "w \<in> word_of_nat ` {unat lo..<Suc (unat hi)}"
    then obtain d where d: "unat lo \<le> d" "d \<le> unat hi" "w = word_of_nat d" by auto
    then have "unat w = d" using u64_bound [of hi] by (simp add: unat_of_nat take_bit_nat_eq_self)
    with d show "w \<in> {lo..hi}" by (simp add: word_le_nat_alt)
  next
    fix w :: u64
    assume "w \<in> {lo..hi}"
    then show "w \<in> word_of_nat ` {unat lo..<Suc (unat hi)}"
      by (intro image_eqI [of _ _ "unat w"]) (auto simp: word_le_nat_alt)
  qed
  then have "set (map (\<lambda>i. mfa_hilbert_i2c NDIM bits (word_of_nat i)) [unat lo..<Suc (unat hi)]) = mfa_hilbert_i2c NDIM bits ` {lo..hi}"
    by (metis image_image set_map set_upt)
  moreover obtain cs where "intervals_to_coors bits is = Some cs" "set cs = mfa_hilbert_i2c NDIM bits ` (\<Union>(lo, hi)\<in>set is. {lo..hi})"
    using Cons by auto
  ultimately show ?case using Cons.prems
    by (intro exI [of _ "map (\<lambda>i. mfa_hilbert_i2c NDIM bits (word_of_nat i)) [unat lo..<Suc (unat hi)] @ cs"])
      (auto simp: x image_Un simp del: upt_Suc)
qed simp

lemma to_coors_set:
  assumes "\<forall>p\<in>points I is. p < - 1"
  shows "\<exists>cs. index_interval_set_to_coor_v I is s = Some cs \<and> set cs = mfa_hilbert_i2c NDIM (hilbert_num_bits s) ` points I is"
proof -
  have "\<forall>(lo, hi)\<in>set (is_intervals I is). \<not> (lo \<le> hi \<and> hi = - 1)"
    using assms by (force simp: points_def)
  then show ?thesis using intervals_to_coors_set unfolding index_interval_set_to_coor_v_def points_def by blast
qed

subsection \<open>The bounding box\<close>

lemma to_int_small: "w < 2 ^ 31 \<Longrightarrow> to_int w = uint w"
proof -
  assume "w < 2 ^ 31"
  then have "uint w < 2 ^ 31" by (simp add: word_less_def)
  then show "to_int w = uint w"
    using order_trans [of "- 2147483648" 0 "uint w"]
    by (simp add: to_int_def sint_uint unsigned_ucast_eq take_bit_int_eq_self signed_take_bit_int_eq_self_iff)
qed

lemma Min_to_int:
  assumes "finite S" "S \<noteq> {}" "\<forall>w\<in>S. w < (2 ^ 31 :: u64)"
  shows "word_of_int (Min (to_int ` S)) = Min S" "word_of_int (Max (to_int ` S)) = Max S"
proof -
  have mono: "to_int v \<le> to_int w \<longleftrightarrow> v \<le> w" if "v \<in> S" "w \<in> S" for v w
    using that assms(3) by (simp add: to_int_small word_le_def)
  have "Min (to_int ` S) = to_int (Min S)"
    using assms(1) mono [OF Min_in [OF assms(1,2)]] Min_in [OF assms(1,2)] by (intro Min_eqI) auto
  moreover have "Max (to_int ` S) = to_int (Max S)"
    using assms(1) mono [OF _ Max_in [OF assms(1,2)]] Max_in [OF assms(1,2)] by (intro Max_eqI) auto
  ultimately show "word_of_int (Min (to_int ` S)) = Min S" "word_of_int (Max (to_int ` S)) = Max S"
    using assms Min_in [OF assms(1,2)] Max_in [OF assms(1,2)] by (simp_all add: to_int_small)
qed

definition cell_ok :: "coor \<Rightarrow> bool" where
  "cell_ok c \<longleftrightarrow> length c = NDIM \<and> (\<forall>x\<in>set c. x + 1 < 2 ^ 31 \<and> x < 2 ^ 31)"

lemma cell_ok_nth: "cell_ok c \<Longrightarrow> i < NDIM \<Longrightarrow> c ! i + 1 < 2 ^ 31 \<and> c ! i < 2 ^ 31 \<and> c ! i < c ! i + 1"
proof -
  assume "cell_ok c" "i < NDIM"
  then have c: "c ! i + 1 < 2 ^ 31" "c ! i < 2 ^ 31" by (auto simp: cell_ok_def)
  then have "c ! i < c ! i + 1" by (simp add: word_less_nat_alt unat_word_ariths)
  with c show ?thesis by blast
qed

abbreviation next_cell :: "coor \<Rightarrow> coor" where
  "next_cell c \<equiv> map (\<lambda>x. x + 1) (take NDIM c)"

lemma rtable_cells:
  assumes R: "rtree_ok R" and cs: "\<forall>c\<in>set cs. cell_ok c"
  shows "set (rt_elems R (fold (\<lambda>c r. snd (rt_add R '''' 0 c (next_cell c) v r)) cs r)) =
    (\<lambda>c. (CREATE_BOX c (next_cell c), v)) ` set cs \<union> set (rt_elems R r)"
  using cs
proof (induction cs arbitrary: r)
  case (Cons c cs)
  have "box_valid c (next_cell c)"
    using Cons.prems cell_ok_nth [of c] by (auto simp: box_valid_def list_all_iff cell_ok_def not_le)
  then have "snd (rt_add R '''' 0 c (next_cell c) v r) = rt_insert R (CREATE_BOX c (next_cell c), v) r"
    by (simp add: rt_add_def)
  moreover have "set (rt_elems R (rt_insert R x r)) = insert x (set (rt_elems R r))" for x
    using rtree_laws(1) [OF R, of x r] by (metis set_mset_add_mset_insert set_mset_mset)
  ultimately show ?case using Cons by auto
qed simp

lemma rtable_bounds:
  assumes R: "rtree_ok R" and cs: "\<forall>c\<in>set cs. cell_ok c" and ne: "cs \<noteq> []"
  shows "get_bound_lucoor R (fold (\<lambda>c r. snd (rt_add R '''' 0 c (next_cell c) v r)) cs (rt_empty R)) =
    (map (\<lambda>i. Min ((\<lambda>c. c ! i) ` set cs)) [0..<NDIM], map (\<lambda>i. Max ((\<lambda>c. c ! i + 1) ` set cs)) [0..<NDIM])"
proof -
  let ?r = "fold (\<lambda>c r. snd (rt_add R '''' 0 c (next_cell c) v r)) cs (rt_empty R)"
  have "rt_elems R (rt_empty R) = []" using R by (simp add: rtree_ok_def)
  then have E: "set (rt_elems R ?r) = (\<lambda>c. (CREATE_BOX c (next_cell c), v)) ` set cs"
    using rtable_cells [OF R cs, of v "rt_empty R"] by simp
  then have "set (rt_elems R ?r) \<noteq> {}" using ne by simp
  then have "rt_elems R ?r \<noteq> []" by (simp only: set_empty simp_thms)
  then have b: "rt_bounds R ?r = (min_corner (map (fst \<circ> fst) (rt_elems R ?r)), max_corner (map (snd \<circ> fst) (rt_elems R ?r)))"
    using R unfolding rtree_ok_def by blast
  have lo: "word_of_int (Min ((\<lambda>p. p ! i) ` set (map (fst \<circ> fst) (rt_elems R ?r)))) = Min ((\<lambda>c. c ! i) ` set cs)" if i: "i < NDIM" for i
  proof -
    have "(\<lambda>p. p ! i) ` set (map (fst \<circ> fst) (rt_elems R ?r)) = to_int ` (\<lambda>c. c ! i) ` set cs"
      using cs i unfolding set_map E by (force simp: image_image CREATE_BOX_def cell_ok_def)
    then show ?thesis using Min_to_int(1) [of "(\<lambda>c. c ! i) ` set cs"] ne cs i cell_ok_nth by (simp add: image_image)
  qed
  have hi: "word_of_int (Max ((\<lambda>p. p ! i) ` set (map (snd \<circ> fst) (rt_elems R ?r)))) = Max ((\<lambda>c. c ! i + 1) ` set cs)" if i: "i < NDIM" for i
  proof -
    have "(\<lambda>p. p ! i) ` set (map (snd \<circ> fst) (rt_elems R ?r)) = to_int ` (\<lambda>c. c ! i + 1) ` set cs"
      using cs i unfolding set_map E by (force simp: image_image CREATE_BOX_def cell_ok_def)
    then show ?thesis using Min_to_int(2) [of "(\<lambda>c. c ! i + 1) ` set cs"] ne cs i cell_ok_nth by (simp add: image_image)
  qed
  show ?thesis unfolding get_bound_lucoor_def b min_corner_def max_corner_def map_prod_simp map_map comp_def
    using lo hi by (intro arg_cong2 [of _ _ _ _ Pair] map_cong refl) (simp_all add: comp_def)
qed

subsection \<open>The curve stays in the grid\<close>

lemma fits_c2i:
  assumes "1 < D" "0 < B" "D * B \<le> 64" "length cs = D" "\<forall>c\<in>set cs. fits B c"
  shows "fits (D * B) (mfa_hilbert_c2i D B cs)"
proof -
  have p: "fits (D * B) (pack_coords B cs)" using fits_pack [OF assms(5)] assms(4) by simp
  show ?thesis
  proof (cases "B = 1")
    case True
    then show ?thesis using p assms by (simp add: mfa_hilbert_c2i_def fits_xor_scan)
  next
    case False
    then show ?thesis using assms fits_c2i_loop [of D 0 0 B] fits_nthbits [of D B]
      by (auto simp: mfa_hilbert_c2i_def Let_def mult.commute intro!: fits_xor_scan fits_xor fits_drop_bit)
  qed
qed

lemma i2c_cells:
  assumes "1 < D" "0 < B"
  shows "length (mfa_hilbert_i2c D B i) = D \<and> (\<forall>c\<in>set (mfa_hilbert_i2c D B i). fits B c)"
  using assms fits_unpack [OF assms(2)] by (auto simp: mfa_hilbert_i2c_def Let_def)

lemma salgo_new_bits:
  assumes "salgo_new l u = Some s"
  shows "box_valid l u \<and> hilbert_num_bits s \<le> 10 \<and> max_index s = 2 ^ (NDIM * hilbert_num_bits s) - 1 \<and>
    (\<forall>i<NDIM. to_int (u ! i - l ! i) \<le> 2 ^ hilbert_num_bits s)"
proof -
  let ?m = "foldr max (map (\<lambda>i. to_int (u ! i - l ! i)) [0..<NDIM]) (- (2 ^ 31))"
  have v: "box_valid l u" and m: "0 < ?m" and b: "hilbert_num_bits s = ceil_log2 (nat ?m)" "NDIM * hilbert_num_bits s \<le> 31"
    "max_index s = 2 ^ (NDIM * hilbert_num_bits s) - 1"
    using assms by (auto simp: salgo_new_def Let_def not_less split: if_splits)
  have "x \<le> foldr max xs a" if "x \<in> set xs" for x :: int and xs a
    using that by (induction xs) (auto simp: max.coboundedI2)
  then have le: "to_int (u ! i - l ! i) \<le> ?m" if "i < NDIM" for i using that by auto
  have "?m \<le> 2 ^ hilbert_num_bits s"
  proof -
    have "int (nat ?m) \<le> int (2 ^ ceil_log2 (nat ?m))" using ceil_log2_bound by (simp only: of_nat_le_iff)
    then show ?thesis using m b(1) by simp
  qed
  then show ?thesis using v b(2,3) le by (fastforce simp: NDIM_def)
qed

subsection \<open>Properties\<close>

lemma two_power_word: "b \<le> 31 \<Longrightarrow> unat (2 ^ b :: u64) = 2 ^ b"
  using unat_of_nat [of "2 ^ b", where ?'a = 64] power_strict_increasing [of b 64 "2 :: nat"] by (simp add: take_bit_nat_eq_self)

lemma word_pred: "(a :: u64) < b \<Longrightarrow> a \<le> b - 1 \<and> b - 1 < b"
proof -
  assume "a < b"
  then have "unat a < unat b" by (simp add: word_less_nat_alt)
  moreover from this have "b \<noteq> 0" by auto
  then have "unat (b - 1) = unat b - 1" by (rule unat_minus_one)
  ultimately show ?thesis by (simp add: word_le_nat_alt word_less_nat_alt)
qed

lemma le_two_power:
  assumes "uint (w :: u64) \<le> 2 ^ b" "b \<le> 31"
  shows "w \<le> 2 ^ b"
proof -
  have "uint (2 ^ b :: u64) = int (unat (2 ^ b :: u64))" by (rule uint_nat)
  also have "\<dots> = 2 ^ b" unfolding two_power_word [OF assms(2)] by simp
  finally show ?thesis using assms(1) by (simp add: word_le_def)
qed

text \<open>A domain that starts at the origin: the bits of its curve, and its corner in the grid.\<close>

lemma domain_bits:
  assumes "hsalgo_new dl du n = Some (s :: 'i hsalgo)" "\<forall>i<NDIM. dl ! i = 0" "\<forall>i<NDIM. du ! i < 2 ^ 31"
  shows "hilbert_num_bits s \<le> 10" "max_index s = 2 ^ (NDIM * hilbert_num_bits s) - 1" "sexpand_length s = n"
    "i < NDIM \<Longrightarrow> du ! i \<le> 2 ^ hilbert_num_bits s"
proof -
  obtain s0 :: "'i salgo" where s0: "salgo_new dl du = Some s0" "s = salgo.extend s0 \<lparr>sexpand_length = n\<rparr>"
    using assms(1) by (auto simp: hsalgo_new_def)
  show b: "hilbert_num_bits s \<le> 10" "max_index s = 2 ^ (NDIM * hilbert_num_bits s) - 1" "sexpand_length s = n"
    using salgo_new_bits [OF s0(1)] by (auto simp: s0(2) salgo.extend_def)
  assume i: "i < NDIM"
  have "\<forall>i<NDIM. to_int (du ! i - dl ! i) \<le> 2 ^ hilbert_num_bits s"
    using salgo_new_bits [OF s0(1)] by (auto simp: s0(2) salgo.extend_def)
  then have "uint (du ! i) \<le> 2 ^ hilbert_num_bits s" using assms(2,3) i to_int_small [of "du ! i"] by auto
  then show "du ! i \<le> 2 ^ hilbert_num_bits s" using b(1) by (intro le_two_power) auto
qed

lemma max_index_word:
  assumes "hilbert_num_bits s \<le> 10" "max_index s = 2 ^ (NDIM * hilbert_num_bits s) - 1"
  shows "unat (word_of_int (max_index s) :: u64) = 2 ^ (NDIM * hilbert_num_bits s) - 1" "(2 :: nat) ^ (NDIM * hilbert_num_bits s) \<le> 2 ^ 30"
    "(word_of_int (max_index s) :: u64) < - 1"
proof -
  let ?m = "word_of_int (max_index s) :: u64"
  show p: "(2 :: nat) ^ (NDIM * hilbert_num_bits s) \<le> 2 ^ 30" using assms(1) by (intro power_increasing) (auto simp: NDIM_def)
  have "?m = word_of_nat (2 ^ (NDIM * hilbert_num_bits s) - 1)" by (simp add: assms(2) of_nat_diff)
  then show m: "unat ?m = 2 ^ (NDIM * hilbert_num_bits s) - 1" using p by (simp only: unat_of_nat) (intro mod_less, simp)
  show "?m < - 1" using m p by (simp add: word_less_nat_alt unsigned_minus_1_eq_mask mask_eq_exp_minus_1)
qed

lemma box_cells_fit:
  assumes "in_box l u c" "length l = NDIM" "b \<le> 10" "\<forall>i<NDIM. u ! i \<le> 2 ^ b"
  shows "length c = NDIM \<and> (\<forall>x\<in>set c. fits b x)"
proof -
  have c: "length c = NDIM" "\<forall>i<NDIM. c ! i < u ! i" using assms(1,2) by (auto simp: in_box_def)
  then have "fits b (c ! i)" if "i < NDIM" for i
    using that assms(4) two_power_word [of b] assms(3) by (auto simp: fits_unat word_less_nat_alt word_le_nat_alt intro: less_le_trans)
  with c show ?thesis by (auto simp: in_set_conv_nth)
qed

lemma grid_cell_ok:
  assumes "length c = NDIM" "\<forall>i<NDIM. c ! i < 2 ^ b" "b \<le> 10"
  shows "cell_ok c"
  unfolding cell_ok_def
proof (intro conjI ballI)
  show "length c = NDIM" by fact
  fix x
  assume "x \<in> set c"
  then have "unat x < 2 ^ b" using assms by (auto simp: in_set_conv_nth word_less_nat_alt two_power_word)
  moreover have "(2 :: nat) ^ b \<le> 2 ^ 10" using assms(3) by (intro power_increasing) auto
  ultimately show "x < 2 ^ 31" "x + 1 < 2 ^ 31" by (simp_all add: word_less_nat_alt unat_word_ariths)
qed

text \<open>The bounds of a set of cells.\<close>

definition lowest :: "coor list \<Rightarrow> coor" where
  "lowest cs = map (\<lambda>i. Min ((\<lambda>c. c ! i) ` set cs)) [0..<NDIM]"

definition highest :: "coor list \<Rightarrow> coor" where
  "highest cs = map (\<lambda>i. Max ((\<lambda>c. c ! i + 1) ` set cs)) [0..<NDIM]"

lemma box_corners:
  assumes "box_valid l u" "length l = NDIM" "length u = NDIM"
  shows "in_box l u l" "in_box l u (map (\<lambda>x. x - 1) u)"
  using assms by (auto simp: in_box_def box_valid_def list_all_iff not_le dest: word_pred)

lemma bounds_cover:
  assumes "box_valid l u" "length l = NDIM" "length u = NDIM" "{c. in_box l u c} \<subseteq> set cs" "\<forall>c\<in>set cs. c ! i < 2 ^ b" "i < NDIM"
  shows "lowest cs ! i \<le> l ! i" "u ! i \<le> highest cs ! i" "highest cs ! i \<le> 2 ^ b"
proof -
  note corners = box_corners [OF assms(1-3)]
  show "lowest cs ! i \<le> l ! i" using corners(1) assms(4,6) by (auto simp: lowest_def intro: Min_le)
  have "map (\<lambda>x. x - 1) u ! i + 1 \<le> Max ((\<lambda>c. c ! i + 1) ` set cs)" using corners(2) assms(4) by (intro Max_ge) auto
  then show "u ! i \<le> highest cs ! i" using assms(3,6) by (simp add: highest_def)
  have "set cs \<noteq> {}" using corners(1) assms(4) by auto
  moreover have "c ! i + 1 \<le> 2 ^ b" if "c \<in> set cs" for c using assms(5) that by (simp add: inc_le)
  ultimately show "highest cs ! i \<le> 2 ^ b" using assms(6) by (simp add: highest_def)
qed

lemma bounds_exact:
  assumes "box_valid l u" "length l = NDIM" "length u = NDIM" "set cs = {c. in_box l u c}"
  shows "lowest cs = l" "highest cs = u"
proof -
  note corners = box_corners [OF assms(1-3)]
  have ne: "set cs \<noteq> {}" using corners(1) assms(4) by auto
  have c: "l ! i \<le> c ! i \<and> c ! i + 1 \<le> u ! i" if "c \<in> set cs" "i < NDIM" for c i
    using that assms(2-4) by (auto simp: in_box_def inc_le)
  have "Min ((\<lambda>c. c ! i) ` set cs) = l ! i" if "i < NDIM" for i
    using c [OF _ that] corners(1) assms(4) by (intro Min_eqI) auto
  moreover have "Max ((\<lambda>c. c ! i + 1) ` set cs) = u ! i" if "i < NDIM" for i
    using c [OF _ that] corners(2) assms(3,4) that by (intro Max_eqI) (auto intro!: rev_image_eqI [of "map (\<lambda>x. x - 1) u"])
  ultimately show "lowest cs = l" "highest cs = u" using assms(2,3) by (auto simp: lowest_def highest_def intro!: nth_equalityI)
qed

text \<open>The indices of a request, before and after the expansion.\<close>

lemma request_indices:
  fixes s :: "'i hsalgo" and I :: "('i, 'b) iset_ops_scheme"
  assumes I: "iset_ok I" and b: "hilbert_num_bits s \<le> 10" "0 < hilbert_num_bits s" "max_index s = 2 ^ (NDIM * hilbert_num_bits s) - 1"
    and box: "length l = NDIM" "length u = NDIM" "\<forall>i<NDIM. u ! i \<le> 2 ^ hilbert_num_bits s" and n: "unat n < 2 ^ 63"
  obtains "is" where "coor_to_index_interval_set I l u s = Some is"
    "points I is = mfa_hilbert_c2i NDIM (hilbert_num_bits s) ` {c. in_box l u c}" "points I is \<subseteq> points I (expand_interval_set I n is s)"
    "\<forall>p\<in>points I (expand_interval_set I n is s). p < - 1" "n = 0 \<longrightarrow> points I (expand_interval_set I n is s) = points I is"
proof -
  let ?b = "hilbert_num_bits s" and ?m = "word_of_int (max_index s) :: u64"
  note mi = max_index_word [OF b(1,3)]
  have "u ! i < 2 ^ 31" if "i < NDIM" for i
  proof -
    have "(2 :: nat) ^ ?b \<le> 2 ^ 10" using b(1) by (intro power_increasing) auto
    moreover have "unat (u ! i) \<le> 2 ^ ?b" using box(3) that b(1) two_power_word [of ?b] by (auto simp: word_le_nat_alt)
    ultimately show ?thesis by (simp add: word_less_nat_alt)
  qed
  then obtain "is" where iss: "coor_to_index_interval_set I l u s = Some is" "points I is = mfa_hilbert_c2i NDIM ?b ` {c. in_box l u c}"
    using coor_points [OF I box(1,2), of s] by blast
  have D: "1 < NDIM" "NDIM * ?b \<le> 64" using b(1) by (auto simp: NDIM_def)
  have max: "\<forall>p\<in>points I is. p \<le> ?m"
  proof
    fix p
    assume "p \<in> points I is"
    then obtain c where c: "in_box l u c" "p = mfa_hilbert_c2i NDIM ?b c" using iss(2) by auto
    then have "fits (NDIM * ?b) p" using fits_c2i [OF D(1) b(2) D(2)] box_cells_fit [OF c(1) box(1) b(1) box(3)] by blast
    then show "p \<le> ?m" by (auto simp: fits_unat word_le_nat_alt mi(1))
  qed
  have "points I is \<subseteq> points I (expand_interval_set I n is s)"
    using expand_grows [OF I, of "is" s n] max n mi(1,2) by simp
  moreover have "\<forall>p\<in>points I (expand_interval_set I n is s). p < - 1"
    using expand_max [OF I] mi(3) by (meson le_less_trans)
  moreover have "n = 0 \<longrightarrow> points I (expand_interval_set I n is s) = points I is"
    using expand_0 [OF I, of "is" s] max by simp
  ultimately show ?thesis by (intro that [OF iss]) 
qed


definition sample_domain :: "(u64 \<times> u64) list hsalgo" where
  "sample_domain = the (hsalgo_new [0,0,0] [4,4,3] 1)"

lemma sample_domain: "hsalgo_new [0,0,0] [4,4,3] 1 = Some sample_domain" "hilbert_num_bits sample_domain = 2"
proof -
  have "map_option (\<lambda>s. (hilbert_num_bits s, sexpand_length s)) (hsalgo_new [0,0,0] [4,4,3] 1 :: (u64 \<times> u64) list hsalgo option) = Some (2, 1)"
    by code_simp
  then show "hsalgo_new [0,0,0] [4,4,3] 1 = Some sample_domain" "hilbert_num_bits sample_domain = 2"
    by (auto simp: sample_domain_def)
qed


text \<open>The curve is not shifted to the lower corner of the domain: in a domain that does not start at the
  origin the cells of a request lie outside the grid, and no cell is left to bound.\<close>

lemma shifted_domain_missed:
  "map_option (\<lambda>s. do { is \<leftarrow> coor_to_index_interval_set list_iset [8,8,8] [9,9,9] s;
       index_interval_set_to_coor_v list_iset (expand_interval_set list_iset (sexpand_length s) is s) s })
     (hsalgo_new [8,8,8] [10,10,10] 0) = Some (Some [])"
  by code_simp

end
