(* ===== verification/SDM_Node.thy ===== *)
theory SDM_Node
  imports Packet Syncer
begin

text \<open>
  \<open>sdm_control/sdm_node.cpp\<close> and \<open>sdm_client.cpp\<close>: the peers a node is connected to (\<open>Commer\<close>) and the
  join protocol (\<open>SDMNode\<close>). The sockets are boost's: the record \<open>net\<close> says which hosts can be connected
  to and which sends go through. What a node sends is returned as a list of messages, in order; what it
  hands up to the control layer and to the remote interaction manager as a list of up-calls. A map
  lookup that yields a null client, and a number that cannot be read (the exception ends the thread's
  process), are \<open>None\<close>.
\<close>

subsection \<open>SDMClient\<close>

record net =
  connect_ok :: "string \<Rightarrow> int \<Rightarrow> bool"
  send_ok :: "string \<Rightarrow> int \<Rightarrow> bool"

record client =
  cl_name :: string
  cl_lip :: string
  cl_lport :: int
  cl_connected :: bool
  cl_closed :: bool

record out_msg =
  o_lip :: string
  o_lport :: int
  o_type :: char
  o_map :: msg_map

definition client_new :: "string \<Rightarrow> string \<Rightarrow> int \<Rightarrow> client" where
  "client_new nm lip lport = \<lparr>cl_name = nm, cl_lip = lip, cl_lport = lport, cl_connected = False, cl_closed = False\<rparr>"

definition client_connect :: "net \<Rightarrow> client \<Rightarrow> rc \<times> client" where
  "client_connect N c = (if connect_ok N (cl_lip c) (cl_lport c) then (0, c\<lparr>cl_connected := True\<rparr>) else (1, c))"

definition client_send :: "net \<Rightarrow> char \<Rightarrow> msg_map \<Rightarrow> client \<Rightarrow> rc \<times> out_msg list" where
  "client_send N t m c =
     (if cl_connected c \<and> \<not> cl_closed c \<and> send_ok N (cl_lip c) (cl_lport c)
      then (0, [\<lparr>o_lip = cl_lip c, o_lport = cl_lport c, o_type = t, o_map = m\<rparr>])
      else (1, []))"

definition client_close :: "client \<Rightarrow> rc \<times> client" where
  "client_close c = (if cl_closed c then (2, c) else (0, c\<lparr>cl_closed := True\<rparr>))"

subsection \<open>Commer\<close>

record peer_info =
  pi_name :: string
  pi_lip :: string
  pi_lport :: int

record commer =
  peer_id__client_map :: "(int, client) smap"
  peer_id__peer_info_map :: "(int, peer_info) smap"

definition commer_new :: commer where
  "commer_new = \<lparr>peer_id__client_map = [], peer_id__peer_info_map = []\<rparr>"

fun close_clients :: "(int, client) smap \<Rightarrow> bool \<times> (int, client) smap" where
  "close_clients [] = (False, [])"
| "close_clients ((i, c) # cs) =
     (let (r, c) = client_close c; (e, cs) = close_clients cs in (r \<noteq> 0 \<or> e, (i, c) # cs))"

definition commer_close :: "commer \<Rightarrow> rc \<times> commer" where
  "commer_close s =
     (let (e, cs) = close_clients (peer_id__client_map s) in (if e then 1 else 0, s\<lparr>peer_id__client_map := cs\<rparr>))"

definition get_num_peers :: "commer \<Rightarrow> nat" where
  "get_num_peers s = length (peer_id__peer_info_map s)"

definition is_peer :: "int \<Rightarrow> commer \<Rightarrow> bool" where
  "is_peer i s = smap_contains i (peer_id__client_map s)"

text \<open>The return code of \<open>connect\<close> is ignored: a peer that cannot be reached is added all the same.\<close>

definition add_peer :: "net \<Rightarrow> int \<Rightarrow> string \<Rightarrow> string \<Rightarrow> int \<Rightarrow> commer \<Rightarrow> rc \<times> commer" where
  "add_peer N i nm lip lport s =
     (if smap_contains i (peer_id__peer_info_map s) then (1, s)
      else
        let s = s\<lparr>peer_id__peer_info_map :=
                   smap_put i \<lparr>pi_name = nm, pi_lip = lip, pi_lport = lport\<rparr> (peer_id__peer_info_map s)\<rparr>;
            (_, c) = client_connect N (client_new nm lip lport)
        in (0, s\<lparr>peer_id__client_map := smap_put i c (peer_id__client_map s)\<rparr>))"

definition rm_peer :: "int \<Rightarrow> commer \<Rightarrow> (rc \<times> commer) option" where
  "rm_peer i s =
     (if \<not> smap_contains i (peer_id__peer_info_map s) then Some (1, s)
      else do { cs \<leftarrow> tsmap_del i (peer_id__client_map s);
                is \<leftarrow> tsmap_del i (peer_id__peer_info_map s);
                Some (0, s\<lparr>peer_id__client_map := cs, peer_id__peer_info_map := is\<rparr>) })"

definition send_to_peer :: "net \<Rightarrow> int \<Rightarrow> char \<Rightarrow> msg_map \<Rightarrow> commer \<Rightarrow> (rc \<times> out_msg list) option" where
  "send_to_peer N i t m s = map_option (client_send N t m) (map_of (peer_id__client_map s) i)"

fun send_each :: "net \<Rightarrow> int \<Rightarrow> char \<Rightarrow> msg_map \<Rightarrow> (int, client) smap \<Rightarrow> bool \<times> out_msg list" where
  "send_each N except_id t m [] = (False, [])"
| "send_each N except_id t m ((i, c) # cs) =
     (let (e, os) = send_each N except_id t m cs in
      if i \<noteq> except_id then let (r, o1) = client_send N t m c in (r \<noteq> 0 \<or> e, o1 @ os) else (e, os))"

definition send_to_all_peers :: "net \<Rightarrow> int \<Rightarrow> char \<Rightarrow> msg_map \<Rightarrow> commer \<Rightarrow> rc \<times> out_msg list" where
  "send_to_all_peers N except_id t m s =
     (let (e, os) = send_each N except_id t m (peer_id__client_map s) in (if e then 1 else 0, os))"

definition connect_send_to :: "net \<Rightarrow> string \<Rightarrow> int \<Rightarrow> char \<Rightarrow> msg_map \<Rightarrow> rc \<times> out_msg list" where
  "connect_send_to N lip lport t m =
     (let (_, c) = client_connect N (client_new ''c'' lip lport);
          (r, os) = client_send N t m c
      in if r \<noteq> 0 then (1, os) else (0, os))"

subsection \<open>SDMNode\<close>

record sdm_node =
  nd_type :: string
  nd_master_slave :: bool
  nd_id :: int
  nd_lip :: string
  nd_lport :: int
  nd_joinhost_lip :: string
  nd_joinhost_lport :: int
  nd_commer :: commer
  sdm_master_id :: int
  nd_syncer :: "int syncer"

datatype up_call = UpRIMsg msg_map | UpCMsg char msg_map

definition node_new :: "string \<Rightarrow> bool \<Rightarrow> int \<Rightarrow> string \<Rightarrow> int \<Rightarrow> string \<Rightarrow> int \<Rightarrow> sdm_node" where
  "node_new t ms i lip lport jlip jlport = \<lparr>nd_type = t, nd_master_slave = ms, nd_id = i, nd_lip = lip, nd_lport = lport,
     nd_joinhost_lip = jlip, nd_joinhost_lport = jlport, nd_commer = commer_new, sdm_master_id = - 1, nd_syncer = syncer_new\<rparr>"

definition gen_packet :: "msg_map \<Rightarrow> sdm_node \<Rightarrow> msg_map" where
  "gen_packet m s = smap_put ''node_type'' (nd_type s) (smap_put ''id'' (dec_int (nd_id s)) m)"

definition gen_join_req :: "sdm_node \<Rightarrow> msg_map" where
  "gen_join_req s = gen_packet (smap_put ''lport'' (dec_int (nd_lport s)) (smap_put ''lip'' (nd_lip s) [])) s"

text \<open>The peers a new one should connect to, numbered from \<open>count\<close>.\<close>

fun list_peers :: "int \<Rightarrow> nat \<Rightarrow> (int, peer_info) smap \<Rightarrow> msg_map \<Rightarrow> msg_map" where
  "list_peers peer_id count [] m = m"
| "list_peers peer_id count ((i, p) # ps) m =
     (if i \<noteq> peer_id then
        let tl = dec count
        in list_peers peer_id (Suc count) ps
             (smap_put (''lport_'' @ tl) (dec_int (pi_lport p))
               (smap_put (''lip_'' @ tl) (pi_lip p)
                 (smap_put (''id_'' @ tl) (dec_int i) m)))
      else list_peers peer_id count ps m)"

definition gen_join_reply :: "int \<Rightarrow> bool \<Rightarrow> sdm_node \<Rightarrow> msg_map" where
  "gen_join_reply peer_id pos s =
     (let m = smap_put ''lport'' (dec_int (nd_lport s)) (smap_put ''lip'' (nd_lip s) []);
          m = smap_put ''ack'' (if pos then ''a'' else ''n'') m;
          m = (if pos \<and> \<not> nd_master_slave s then list_peers peer_id 0 (peer_id__peer_info_map (nd_commer s)) m else m)
      in gen_packet m s)"

definition send_msg :: "net \<Rightarrow> int \<Rightarrow> char \<Rightarrow> msg_map \<Rightarrow> sdm_node \<Rightarrow> (rc \<times> out_msg list) option" where
  "send_msg N to_id t m s = send_to_peer N to_id t (gen_packet m s) (nd_commer s)"

definition send_msg_to_master :: "net \<Rightarrow> char \<Rightarrow> msg_map \<Rightarrow> sdm_node \<Rightarrow> (rc \<times> out_msg list) option" where
  "send_msg_to_master N t m s =
     (if sdm_master_id s \<noteq> - 1 then send_msg N (sdm_master_id s) t m s else Some (1, []))"

text \<open>The id left out is that of the character \<open>' '\<close>.\<close>

definition broadcast_msg :: "net \<Rightarrow> char \<Rightarrow> msg_map \<Rightarrow> sdm_node \<Rightarrow> rc \<times> out_msg list" where
  "broadcast_msg N t m s = send_to_all_peers N 32 t (gen_packet m s) (nd_commer s)"

definition broadcast_msg_to_slaves :: "net \<Rightarrow> char \<Rightarrow> msg_map \<Rightarrow> sdm_node \<Rightarrow> rc \<times> out_msg list" where
  "broadcast_msg_to_slaves N t m s = send_to_all_peers N (sdm_master_id s) t (gen_packet m s) (nd_commer s)"

subsection \<open>Joining\<close>

text \<open>The loop of \<open>join\<close>: one attempt per second, the network may differ from one to the next.\<close>

partial_function (option) join_attempts :: "(nat \<Rightarrow> net) \<Rightarrow> nat \<Rightarrow> sdm_node \<Rightarrow> out_msg list option" where
  "join_attempts Ns i s =
     (let (r, os) = connect_send_to (Ns i) (nd_joinhost_lip s) (nd_joinhost_lport s) PACKET_JOIN_REQUEST (gen_join_req s)
      in if r \<noteq> 0 then join_attempts Ns (Suc i) s else Some os)"

text \<open>\<open>join\<close> up to the point where its thread \<open>t\<close> sleeps (\<open>False\<close>), or to its end for the first node
  (\<open>True\<close>); and the rest of it, after the thread is woken.\<close>

definition join_start :: "(nat \<Rightarrow> net) \<Rightarrow> tid \<Rightarrow> sdm_node \<Rightarrow> (bool \<times> out_msg list \<times> sdm_node) option" where
  "join_start Ns t s =
     (if nd_joinhost_lip s = [] then Some (True, [], s)
      else do {
        os \<leftarrow> join_attempts Ns 0 s;
        y \<leftarrow> sync_wait 0 t (snd (add_sync_point 0 1 (nd_syncer s)));
        Some (False, os, s\<lparr>nd_syncer := y\<rparr>) })"

definition join_resume :: "sdm_node \<Rightarrow> sdm_node option" where
  "join_resume s = map_option (\<lambda>(_, y). s\<lparr>nd_syncer := y\<rparr>) (del_sync_point 0 (nd_syncer s))"

subsection \<open>Handlers\<close>

definition handle_join_req :: "lexer \<Rightarrow> net \<Rightarrow> msg_map \<Rightarrow> sdm_node \<Rightarrow> (out_msg list \<times> sdm_node) option" where
  "handle_join_req L N m s =
     do { from_id \<leftarrow> lex_int L (msg_get ''id'' m);
          let from_lip = msg_get ''lip'' m;
          from_lport \<leftarrow> lex_int L (msg_get ''lport'' m);
          let (err, c) = add_peer N from_id (''peer_'' @ dec_int from_id) from_lip from_lport (nd_commer s);
          let s = s\<lparr>nd_commer := c\<rparr>;
          if err \<noteq> 0
          then Some (snd (connect_send_to N from_lip from_lport PACKET_JOIN_REPLY (gen_join_reply from_id False s)), s)
          else do { (_, os) \<leftarrow> send_to_peer N from_id PACKET_JOIN_REPLY (gen_join_reply from_id True s) c;
                    Some (os, s) } }"

text \<open>The loop that joins the other peers a reply lists. A peer that is known already is skipped by
  \<open>continue\<close>, without counting up: the loop does not end then.\<close>

partial_function (option) join_others ::
  "lexer \<Rightarrow> net \<Rightarrow> msg_map \<Rightarrow> sdm_node \<Rightarrow> nat \<Rightarrow> out_msg list option" where
  "join_others L N m s count =
     (if \<not> smap_contains (''id_'' @ dec count) m then Some []
      else do {
        ppeer_id \<leftarrow> lex_int L (msg_get (''id_'' @ dec count) m);
        if is_peer ppeer_id (nd_commer s) then join_others L N m s count
        else do {
          ppeer_lport \<leftarrow> lex_int L (msg_get (''lport_'' @ dec count) m);
          let os = snd (connect_send_to N (msg_get (''lip_'' @ dec count) m) ppeer_lport PACKET_JOIN_REQUEST (gen_join_req s));
          os' \<leftarrow> join_others L N m s (Suc count);
          Some (os @ os') } })"

definition handle_join_reply ::
  "lexer \<Rightarrow> net \<Rightarrow> (tid list \<Rightarrow> tid) \<Rightarrow> msg_map \<Rightarrow> sdm_node \<Rightarrow> (out_msg list \<times> tid option \<times> sdm_node) option" where
  "handle_join_reply L N pick m s =
     (if msg_get ''ack'' m = ''a'' then do {
        from_id \<leftarrow> lex_int L (msg_get ''id'' m);
        let s = (if msg_get ''node_type'' m = ''m'' then s\<lparr>sdm_master_id := from_id\<rparr> else s);
        from_lport \<leftarrow> lex_int L (msg_get ''lport'' m);
        let (err, c) = add_peer N from_id (''peer_'' @ dec_int from_id) (msg_get ''lip'' m) from_lport (nd_commer s);
        let s = s\<lparr>nd_commer := c\<rparr>;
        if err \<noteq> 0
        then do { (_, os) \<leftarrow> send_to_peer N from_id PACKET_JOIN_NACK (gen_packet [] s) c; Some (os, None, s) }
        else do {
          (_, acks) \<leftarrow> send_to_peer N from_id PACKET_JOIN_ACK (gen_packet [] s) c;
          (_, woken, y) \<leftarrow> notify pick 0 (nd_syncer s);
          let s = s\<lparr>nd_syncer := y\<rparr>;
          (_, pings) \<leftarrow> send_to_peer N from_id PACKET_PING (gen_packet [] s) c;
          os \<leftarrow> join_others L N m s 0;
          Some (acks @ pings @ os, woken, s) } }
      else Some ([], None, s))"

definition handle_join_nack :: "lexer \<Rightarrow> msg_map \<Rightarrow> sdm_node \<Rightarrow> sdm_node option" where
  "handle_join_nack L m s =
     do { from_id \<leftarrow> lex_int L (msg_get ''id'' m);
          (_, c) \<leftarrow> rm_peer from_id (nd_commer s);
          Some (s\<lparr>nd_commer := c\<rparr>) }"

definition handle_ping :: "lexer \<Rightarrow> net \<Rightarrow> msg_map \<Rightarrow> sdm_node \<Rightarrow> out_msg list option" where
  "handle_ping L N m s =
     do { from_id \<leftarrow> lex_int L (msg_get ''id'' m);
          (_, os) \<leftarrow> send_to_peer N from_id PACKET_PONG (gen_packet [] s) (nd_commer s);
          Some os }"

definition node_handle_recv ::
  "lexer \<Rightarrow> net \<Rightarrow> (tid list \<Rightarrow> tid) \<Rightarrow> char \<Rightarrow> msg_map \<Rightarrow> sdm_node \<Rightarrow> (out_msg list \<times> up_call list \<times> sdm_node) option" where
  "node_handle_recv L N pick t m s =
     (if t = PACKET_JOIN_REQUEST then map_option (\<lambda>(os, s). (os, [], s)) (handle_join_req L N m s)
      else if t = PACKET_JOIN_REPLY then map_option (\<lambda>(os, _, s). (os, [], s)) (handle_join_reply L N pick m s)
      else if t = PACKET_JOIN_ACK then Some ([], [UpCMsg t m], s)
      else if t = PACKET_JOIN_NACK then map_option (\<lambda>s. ([], [], s)) (handle_join_nack L m s)
      else if t = PACKET_PING then map_option (\<lambda>os. (os, [], s)) (handle_ping L N m s)
      else if t = PACKET_PONG then Some ([], [], s)
      else if t = PACKET_RIMSG then Some ([], [UpRIMsg m], s)
      else if t = PACKET_CMSG then Some ([], [UpCMsg t m], s)
      else Some ([], [], s))"


subsection \<open>The two maps of peers agree\<close>

definition commer_ok :: "commer \<Rightarrow> bool" where
  "commer_ok s \<longleftrightarrow> smap_ok (peer_id__client_map s) \<and> smap_ok (peer_id__peer_info_map s) \<and>
     map fst (peer_id__client_map s) = map fst (peer_id__peer_info_map s)"

lemma keys_put: "map fst m = map fst m' \<Longrightarrow> map fst (smap_put k v m) = map fst (smap_put k v' m')"
  by (induction m arbitrary: m') (auto simp: map_eq_Cons_conv)

lemma keys_erase: "map fst (smap_erase k m) = filter (\<lambda>i. i \<noteq> k) (map fst m)"
  by (induction m) (auto simp: smap_erase_def)

lemma keys_contains: "map fst m = map fst m' \<Longrightarrow> smap_contains k m = smap_contains k m'"
  by (metis smap_contains_def map_of_eq_None_iff list.set_map)

lemma commer_ok_contains: "commer_ok s \<Longrightarrow> smap_contains k (peer_id__client_map s) = smap_contains k (peer_id__peer_info_map s)"
  using keys_contains [of "peer_id__client_map s" "peer_id__peer_info_map s" k] by (simp add: commer_ok_def)

lemma commer_ok_add: "commer_ok s \<Longrightarrow> commer_ok (snd (add_peer N i nm lip lport s))"
  by (auto simp: commer_ok_def add_peer_def Let_def smap_ok_put split: prod.split intro!: keys_put)

lemma commer_ok_rm:
  assumes "commer_ok s"
  shows "\<exists>r c. rm_peer i s = Some (r, c) \<and> commer_ok c"
  using assms commer_ok_contains [OF assms, of i]
  by (auto simp: rm_peer_def tsmap_del_def commer_ok_def smap_ok_erase keys_erase)

lemma add_peer_contains: "smap_contains i (peer_id__peer_info_map (snd (add_peer N i nm lip lport s)))"
  by (auto simp: add_peer_def Let_def split: prod.split)

lemma send_to_peer_defined:
  assumes "commer_ok s" "smap_contains i (peer_id__peer_info_map s)"
  shows "\<exists>r os. send_to_peer N i t m s = Some (r, os)"
  using assms commer_ok_contains [OF assms(1), of i] by (auto simp: send_to_peer_def smap_contains_def)

lemma handle_join_req_ok:
  assumes "commer_ok (nd_commer s)" "lex_int L (msg_get ''id'' m) \<noteq> None" "lex_int L (msg_get ''lport'' m) \<noteq> None"
  shows "\<exists>os s'. handle_join_req L N m s = Some (os, s') \<and> commer_ok (nd_commer s')"
proof -
  obtain i p where i: "lex_int L (msg_get ''id'' m) = Some i" "lex_int L (msg_get ''lport'' m) = Some p"
    using assms(2,3) by auto
  obtain e c where a: "add_peer N i (''peer_'' @ dec_int i) (msg_get ''lip'' m) p (nd_commer s) = (e, c)"
    by (cases "add_peer N i (''peer_'' @ dec_int i) (msg_get ''lip'' m) p (nd_commer s)")
  have c: "commer_ok c" "smap_contains i (peer_id__peer_info_map c)"
    using commer_ok_add [OF assms(1)] add_peer_contains a by (metis snd_conv)+
  then obtain r os where "send_to_peer N i PACKET_JOIN_REPLY (gen_join_reply i True (s\<lparr>nd_commer := c\<rparr>)) c = Some (r, os)"
    using send_to_peer_defined by blast
  then show ?thesis using c a by (simp add: handle_join_req_def i Let_def)
qed

subsection \<open>The peers a reply lists\<close>

definition other_peers :: "int \<Rightarrow> (int, peer_info) smap \<Rightarrow> (int \<times> peer_info) list" where
  "other_peers i ps = filter (\<lambda>(j, _). j \<noteq> i) ps"

lemma list_peers_other:
  assumes "\<And>j. c \<le> j \<Longrightarrow> key \<noteq> ''id_'' @ dec j \<and> key \<noteq> ''lip_'' @ dec j \<and> key \<noteq> ''lport_'' @ dec j"
  shows "map_of (list_peers pid c ps m) key = map_of m key"
  using assms
proof (induction pid c ps m rule: list_peers.induct)
  case (2 pid c i p ps m)
  then show ?case by (auto simp: Let_def dest: Suc_leD)
qed simp

lemma list_peers_nth:
  assumes "k < length (other_peers pid ps)"
  shows "map_of (list_peers pid c ps m) (''id_'' @ dec (c + k)) = Some (dec_int (fst (other_peers pid ps ! k))) \<and>
    map_of (list_peers pid c ps m) (''lip_'' @ dec (c + k)) = Some (pi_lip (snd (other_peers pid ps ! k))) \<and>
    map_of (list_peers pid c ps m) (''lport_'' @ dec (c + k)) = Some (dec_int (pi_lport (snd (other_peers pid ps ! k))))"
  using assms
proof (induction pid c ps m arbitrary: k rule: list_peers.induct)
  case (2 pid c i p ps m)
  show ?case
  proof (cases "i = pid")
    case True
    then show ?thesis using 2 by (simp add: other_peers_def)
  next
    case i: False
    show ?thesis
    proof (cases k)
      case 0
      have get: "map_of (list_peers pid (Suc c) ps m') (f @ dec c) = map_of m' (f @ dec c)"
        if "f \<in> {''id_'', ''lip_'', ''lport_''}" for f m'
        by (rule list_peers_other) (use that in auto)
      show ?thesis using i 0 get [of "''id_''"] get [of "''lip_''"] get [of "''lport_''"]
        by (simp add: other_peers_def Let_def)
    next
      case (Suc k')
      have "k' < length (other_peers pid ps)" using 2(3) i Suc by (simp add: other_peers_def)
      from 2(1) [OF i refl this] show ?thesis using i Suc by (simp add: other_peers_def Let_def)
    qed
  qed
qed (simp add: other_peers_def)

lemma list_peers_end:
  assumes "\<And>j. c \<le> j \<Longrightarrow> map_of m (''id_'' @ dec j) = None"
  shows "map_of (list_peers pid c ps m) (''id_'' @ dec (c + length (other_peers pid ps))) = None"
  using assms
proof (induction pid c ps m rule: list_peers.induct)
  case (2 pid c i p ps m)
  then show ?case by (auto simp: other_peers_def Let_def)
qed (simp add: other_peers_def)

text \<open>What the joiner reads of a positive reply of a node that keeps its peers connected to each other.\<close>

lemma join_reply_fields:
  "msg_get ''id'' (gen_join_reply i pos h) = dec_int (nd_id h)"
  "msg_get ''node_type'' (gen_join_reply i pos h) = nd_type h"
  "msg_get ''ack'' (gen_join_reply i pos h) = (if pos then ''a'' else ''n'')"
  "msg_get ''lip'' (gen_join_reply i pos h) = nd_lip h"
  "msg_get ''lport'' (gen_join_reply i pos h) = dec_int (nd_lport h)"
proof -
  have other: "smap_get [] key (list_peers i 0 ps m) = smap_get [] key m"
    if "key \<in> {''ack'', ''lip'', ''lport''}" for key ps m
    using that unfolding smap_get_def by (subst list_peers_other) auto
  show "msg_get ''id'' (gen_join_reply i pos h) = dec_int (nd_id h)"
    "msg_get ''node_type'' (gen_join_reply i pos h) = nd_type h"
    by (simp_all add: msg_get_def gen_join_reply_def gen_packet_def Let_def)
  show "msg_get ''ack'' (gen_join_reply i pos h) = (if pos then ''a'' else ''n'')"
    "msg_get ''lip'' (gen_join_reply i pos h) = nd_lip h"
    "msg_get ''lport'' (gen_join_reply i pos h) = dec_int (nd_lport h)"
    by (simp_all add: msg_get_def gen_join_reply_def gen_packet_def Let_def other) (auto simp: smap_get_def)
qed

definition listed :: "int \<Rightarrow> sdm_node \<Rightarrow> (int \<times> peer_info) list" where
  "listed i h = (if nd_master_slave h then [] else other_peers i (peer_id__peer_info_map (nd_commer h)))"

lemma join_reply_lists:
  assumes "k < length (listed i h)"
  shows "smap_contains (''id_'' @ dec k) (gen_join_reply i True h)"
    "msg_get (''id_'' @ dec k) (gen_join_reply i True h) = dec_int (fst (listed i h ! k))"
    "msg_get (''lip_'' @ dec k) (gen_join_reply i True h) = pi_lip (snd (listed i h ! k))"
    "msg_get (''lport_'' @ dec k) (gen_join_reply i True h) = dec_int (pi_lport (snd (listed i h ! k)))"
proof -
  have h: "\<not> nd_master_slave h" "k < length (other_peers i (peer_id__peer_info_map (nd_commer h)))"
    using assms by (auto simp: listed_def split: if_splits)
  note n = list_peers_nth [OF h(2), of 0]
  show "smap_contains (''id_'' @ dec k) (gen_join_reply i True h)"
    "msg_get (''id_'' @ dec k) (gen_join_reply i True h) = dec_int (fst (listed i h ! k))"
    "msg_get (''lip_'' @ dec k) (gen_join_reply i True h) = pi_lip (snd (listed i h ! k))"
    "msg_get (''lport_'' @ dec k) (gen_join_reply i True h) = dec_int (pi_lport (snd (listed i h ! k)))"
    using n h(1) by (auto simp: msg_get_def smap_get_def smap_contains_def gen_join_reply_def gen_packet_def Let_def listed_def)
qed

lemma join_reply_lists_end: "\<not> smap_contains (''id_'' @ dec (length (listed i h))) (gen_join_reply i True h)"
  using list_peers_end [of 0 "smap_put ''ack'' ''a'' (smap_put ''lport'' (dec_int (nd_lport h)) (smap_put ''lip'' (nd_lip h) []))"
      i "peer_id__peer_info_map (nd_commer h)"]
  by (auto simp: smap_contains_def gen_join_reply_def gen_packet_def Let_def listed_def)

subsection \<open>Joining the others\<close>

definition int_ok :: "int \<Rightarrow> bool" where
  "int_ok i \<longleftrightarrow> - (2 ^ 31) \<le> i \<and> i < 2 ^ 31"

lemma lex_dec_int: "lexer_ok L \<Longrightarrow> int_ok i \<Longrightarrow> lex_int L (dec_int i) = Some i"
  by (simp add: lexer_ok_def int_ok_def)

definition peer_readable :: "int \<times> peer_info \<Rightarrow> bool" where
  "peer_readable x \<longleftrightarrow> int_ok (fst x) \<and> int_ok (pi_lport (snd x))"

lemma join_others_all:
  assumes L: "lexer_ok L" and new: "\<And>x. x \<in> set (listed i h) \<Longrightarrow> peer_readable x \<and> \<not> is_peer (fst x) (nd_commer s)"
    and k: "k \<le> length (listed i h)"
  shows "join_others L N (gen_join_reply i True h) s k =
    Some (concat (map (\<lambda>(_, p). snd (connect_send_to N (pi_lip p) (pi_lport p) PACKET_JOIN_REQUEST (gen_join_req s)))
      (drop k (listed i h))))"
  using k
proof (induction k rule: inc_induct)
  case base
  then show ?case
    using join_reply_lists_end [of i h] by (simp add: join_others.simps [of L N _ s "length (listed i h)"])
next
  case (step k)
  obtain j p where x: "listed i h ! k = (j, p)" by (cases "listed i h ! k")
  then have "(j, p) \<in> set (listed i h)" using step(2) by (metis nth_mem)
  then have jp: "int_ok j" "int_ok (pi_lport p)" "\<not> is_peer j (nd_commer s)" using new [of "(j, p)"] by (auto simp: peer_readable_def)
  have d: "drop k (listed i h) = (j, p) # drop (Suc k) (listed i h)"
    using step(2) x by (metis Cons_nth_drop_Suc)
  show ?case
    using join_reply_lists [OF step(2)] step(3) jp lex_dec_int [OF L]
    by (simp add: join_others.simps [of L N _ s k] x d Let_def)
qed

lemma join_others_stuck:
  assumes "join_others L N m s c = Some os" and "c \<le> k" and "\<And>j. c \<le> j \<Longrightarrow> j \<le> k \<Longrightarrow> smap_contains (''id_'' @ dec j) m"
    and "lex_int L (msg_get (''id_'' @ dec k) m) = Some i" and "is_peer i (nd_commer s)"
  shows False
proof -
  have "c \<le> k \<longrightarrow> (\<forall>j. c \<le> j \<and> j \<le> k \<longrightarrow> smap_contains (''id_'' @ dec j) m) \<longrightarrow>
      lex_int L (msg_get (''id_'' @ dec k) m) = Some i \<longrightarrow> is_peer i (nd_commer s) \<longrightarrow> False"
  proof (rule join_others.raw_induct [where P = "\<lambda>L N m s c r. c \<le> k \<longrightarrow> (\<forall>j. c \<le> j \<and> j \<le> k \<longrightarrow> smap_contains (''id_'' @ dec j) m) \<longrightarrow>
      lex_int L (msg_get (''id_'' @ dec k) m) = Some i \<longrightarrow> is_peer i (nd_commer s) \<longrightarrow> False", OF _ assms(1)])
    fix f :: "lexer \<Rightarrow> net \<Rightarrow> msg_map \<Rightarrow> sdm_node \<Rightarrow> nat \<Rightarrow> out_msg list option"
      and L :: lexer and N m s and c :: nat and y
    assume IH: "\<And>L N m s c y. f L N m s c = Some y \<Longrightarrow> c \<le> k \<longrightarrow> (\<forall>j. c \<le> j \<and> j \<le> k \<longrightarrow> smap_contains (''id_'' @ dec j) m) \<longrightarrow>
      lex_int L (msg_get (''id_'' @ dec k) m) = Some i \<longrightarrow> is_peer i (nd_commer s) \<longrightarrow> False"
    assume eq: "(if \<not> smap_contains (''id_'' @ dec c) m then Some []
      else do {
        ppeer_id \<leftarrow> lex_int L (msg_get (''id_'' @ dec c) m);
        if is_peer ppeer_id (nd_commer s) then f L N m s c
        else do {
          ppeer_lport \<leftarrow> lex_int L (msg_get (''lport_'' @ dec c) m);
          let os = snd (connect_send_to N (msg_get (''lip_'' @ dec c) m) ppeer_lport PACKET_JOIN_REQUEST (gen_join_req s));
          os' \<leftarrow> f L N m s (Suc c);
          Some (os @ os') } }) = Some y"
    show "c \<le> k \<longrightarrow> (\<forall>j. c \<le> j \<and> j \<le> k \<longrightarrow> smap_contains (''id_'' @ dec j) m) \<longrightarrow>
      lex_int L (msg_get (''id_'' @ dec k) m) = Some i \<longrightarrow> is_peer i (nd_commer s) \<longrightarrow> False"
    proof (intro impI)
      assume h: "c \<le> k" "\<forall>j. c \<le> j \<and> j \<le> k \<longrightarrow> smap_contains (''id_'' @ dec j) m"
        "lex_int L (msg_get (''id_'' @ dec k) m) = Some i" "is_peer i (nd_commer s)"
      show False
      proof (cases "c = k")
        case True
        then show ?thesis using eq h IH [of L N m s c] by auto
      next
        case False
        then have "Suc c \<le> k" "\<forall>j. Suc c \<le> j \<and> j \<le> k \<longrightarrow> smap_contains (''id_'' @ dec j) m" using h by auto
        with False show ?thesis using eq h IH [of L N m s c] IH [of L N m s "Suc c"]
          by (auto simp: bind_eq_Some_conv Let_def split: if_splits)
      qed
    qed
  qed
  with assms show False by blast
qed

lemma add_peer_new:
  assumes "\<not> smap_contains i (peer_id__peer_info_map c)" "connect_ok N lip lport"
  shows "add_peer N i nm lip lport c =
    (0, \<lparr>peer_id__client_map = smap_put i (client_new nm lip lport\<lparr>cl_connected := True\<rparr>) (peer_id__client_map c),
         peer_id__peer_info_map = smap_put i \<lparr>pi_name = nm, pi_lip = lip, pi_lport = lport\<rparr> (peer_id__peer_info_map c)\<rparr>)"
  using assms by (simp add: add_peer_def Let_def client_connect_def client_new_def)

lemma add_peer_0: "\<not> smap_contains i (peer_id__peer_info_map c) \<Longrightarrow> \<exists>c'. add_peer N i nm lip lport c = (0, c')"
  by (cases "client_connect N (client_new nm lip lport)") (simp add: add_peer_def Let_def)

lemma send_to_new_peer:
  assumes "send_ok N lip lport"
  shows "send_to_peer N i t m
      \<lparr>peer_id__client_map = smap_put i (client_new nm lip lport\<lparr>cl_connected := True\<rparr>) cs, peer_id__peer_info_map = is\<rparr> =
    Some (0, [\<lparr>o_lip = lip, o_lport = lport, o_type = t, o_map = m\<rparr>])"
  using assms by (simp add: send_to_peer_def client_send_def client_new_def)

lemma is_peer_put: "is_peer j \<lparr>peer_id__client_map = smap_put i x cs, peer_id__peer_info_map = is\<rparr> = (j = i \<or> smap_contains j cs)"
  by (simp add: is_peer_def)

lemma wake_joiner:
  assumes "map_of (point_cv_map y) 0 = Some (Some [t])" "smap_get 0 0 (point__num_peers_map y) = 1" "pick [t] = t"
  shows "\<exists>y'. notify pick 0 y = Some (0, Some t, y')"
  using notify_last [of 0 y "[t]" pick] assms by (auto simp: smap_contains_def)

lemma join_req_fields:
  "msg_get ''id'' (gen_join_req a) = dec_int (nd_id a)" "msg_get ''lip'' (gen_join_req a) = nd_lip a"
  "msg_get ''lport'' (gen_join_req a) = dec_int (nd_lport a)"
  by (simp_all add: msg_get_def gen_join_req_def gen_packet_def) (auto simp: smap_get_def)

lemma handle_first_join_req:
  assumes L: "lexer_ok L" and ids: "int_ok (nd_id a)" "int_ok (nd_lport a)"
    and fresh: "\<not> smap_contains (nd_id a) (peer_id__peer_info_map (nd_commer h))"
    and net: "connect_ok N (nd_lip a) (nd_lport a)" "send_ok N (nd_lip a) (nd_lport a)"
  shows "\<exists>h'. handle_join_req L N (gen_join_req a) h =
      Some ([\<lparr>o_lip = nd_lip a, o_lport = nd_lport a, o_type = PACKET_JOIN_REPLY, o_map = gen_join_reply (nd_id a) True h'\<rparr>], h') \<and>
    nd_commer h' = snd (add_peer N (nd_id a) (''peer_'' @ dec_int (nd_id a)) (nd_lip a) (nd_lport a) (nd_commer h)) \<and>
    h' = h\<lparr>nd_commer := nd_commer h'\<rparr>"
  unfolding handle_join_req_def join_req_fields
  by (simp add: lex_dec_int [OF L ids(1)] lex_dec_int [OF L ids(2)] add_peer_new [OF fresh net(1)] Let_def
      send_to_new_peer [of N "nd_lip a" "nd_lport a" "nd_id a" _ _ "''peer_'' @ dec_int (nd_id a)", simplified, OF net(2)])

text \<open>Everything the joiner does with the reply of a node it does not know yet.\<close>

lemma handle_first_join_reply:
  assumes L: "lexer_ok L" and ids: "int_ok (nd_id h)" "int_ok (nd_lport h)"
    and fresh: "\<not> smap_contains (nd_id h) (peer_id__peer_info_map (nd_commer a))"
    and net: "connect_ok N (nd_lip h) (nd_lport h)" "send_ok N (nd_lip h) (nd_lport h)"
    and sleeping: "map_of (point_cv_map (nd_syncer a)) 0 = Some (Some [t])" "smap_get 0 0 (point__num_peers_map (nd_syncer a)) = 1"
      "pick [t] = t"
    and others: "\<And>x. x \<in> set (listed i h) \<Longrightarrow>
      peer_readable x \<and> fst x \<noteq> nd_id h \<and> \<not> is_peer (fst x) (nd_commer a)"
  shows "\<exists>a'. handle_join_reply L N pick (gen_join_reply i True h) a =
      Some (map (\<lambda>(t, m). \<lparr>o_lip = nd_lip h, o_lport = nd_lport h, o_type = t, o_map = m\<rparr>)
              [(PACKET_JOIN_ACK, gen_packet [] a), (PACKET_PING, gen_packet [] a)] @
            concat (map (\<lambda>(_, p). snd (connect_send_to N (pi_lip p) (pi_lport p) PACKET_JOIN_REQUEST (gen_join_req a))) (listed i h)),
          Some t, a') \<and>
    nd_commer a' = snd (add_peer N (nd_id h) (''peer_'' @ dec_int (nd_id h)) (nd_lip h) (nd_lport h) (nd_commer a)) \<and>
    sdm_master_id a' = (if nd_type h = ''m'' then nd_id h else sdm_master_id a)"
proof -
  let ?nm = "''peer_'' @ dec_int (nd_id h)"
  let ?a1 = "if nd_type h = ''m'' then a\<lparr>sdm_master_id := nd_id h\<rparr> else a"
  let ?c = "\<lparr>peer_id__client_map = smap_put (nd_id h) (client_new ?nm (nd_lip h) (nd_lport h)\<lparr>cl_connected := True\<rparr>) (peer_id__client_map (nd_commer a)),
    peer_id__peer_info_map = smap_put (nd_id h) \<lparr>pi_name = ?nm, pi_lip = nd_lip h, pi_lport = nd_lport h\<rparr> (peer_id__peer_info_map (nd_commer a))\<rparr>"
  obtain y where y: "notify pick 0 (nd_syncer a) = Some (0, Some t, y)" using wake_joiner sleeping by blast
  let ?a2 = "?a1\<lparr>nd_commer := ?c, nd_syncer := y\<rparr>"
  have add: "add_peer N (nd_id h) ?nm (nd_lip h) (nd_lport h) (nd_commer ?a1) = (0, ?c)"
    using add_peer_new [OF fresh net(1)] by simp
  have send: "send_to_peer N (nd_id h) t m ?c = Some (0, [\<lparr>o_lip = nd_lip h, o_lport = nd_lport h, o_type = t, o_map = m\<rparr>])" for t m
    by (rule send_to_new_peer [OF net(2)])
  have same: "gen_join_req ?a2 = gen_join_req a" "gen_packet m ?a2 = gen_packet m a" "gen_packet m (?a1\<lparr>nd_commer := ?c\<rparr>) = gen_packet m a" for m
    by (simp_all add: gen_join_req_def gen_packet_def)
  have "is_peer j (nd_commer ?a2) = (j = nd_id h \<or> is_peer j (nd_commer a))" for j
    by (simp add: is_peer_put) (simp add: is_peer_def)
  then have joins: "join_others L N (gen_join_reply i True h) ?a2 0 =
      Some (concat (map (\<lambda>(_, p). snd (connect_send_to N (pi_lip p) (pi_lport p) PACKET_JOIN_REQUEST (gen_join_req ?a2))) (drop 0 (listed i h))))"
    using join_others_all [OF L, of i h ?a2 0 N] others by blast
  have "handle_join_reply L N pick (gen_join_reply i True h) a =
      Some ([\<lparr>o_lip = nd_lip h, o_lport = nd_lport h, o_type = PACKET_JOIN_ACK, o_map = gen_packet [] a\<rparr>] @
        [\<lparr>o_lip = nd_lip h, o_lport = nd_lport h, o_type = PACKET_PING, o_map = gen_packet [] a\<rparr>] @
        concat (map (\<lambda>(_, p). snd (connect_send_to N (pi_lip p) (pi_lport p) PACKET_JOIN_REQUEST (gen_join_req a))) (listed i h)), Some t, ?a2)"
    unfolding handle_join_reply_def join_reply_fields lex_dec_int [OF L ids(1)] lex_dec_int [OF L ids(2)]
    using add joins y same
    by (simp add: send [simplified] del: append_Cons append_Nil) (auto simp: send [simplified])
  then show ?thesis using add_peer_new [OF fresh net(1), of ?nm] by auto
qed

lemma handle_join_reply_ok:
  assumes "commer_ok (nd_commer s)" "handle_join_reply L N pick m s = Some (os, w, s')"
  shows "commer_ok (nd_commer s')"
proof (cases "msg_get ''ack'' m = ''a''")
  case True
  then obtain i p where ip: "lex_int L (msg_get ''id'' m) = Some i" "lex_int L (msg_get ''lport'' m) = Some p"
    using assms(2) by (auto simp: handle_join_reply_def bind_eq_Some_conv Let_def)
  obtain e c where c: "add_peer N i (''peer_'' @ dec_int i) (msg_get ''lip'' m) p (nd_commer s) = (e, c)"
    by (cases "add_peer N i (''peer_'' @ dec_int i) (msg_get ''lip'' m) p (nd_commer s)")
  have "commer_ok c" using commer_ok_add [OF assms(1)] c by (metis snd_conv)
  moreover have "nd_commer s' = c"
    using assms(2) True ip c
    by (auto simp: handle_join_reply_def bind_eq_Some_conv Let_def split: if_splits)
  ultimately show ?thesis by simp
qed (use assms in \<open>simp add: handle_join_reply_def\<close>)

subsection \<open>Properties\<close>

definition all_up :: net where
  "all_up = \<lparr>connect_ok = (\<lambda>_ _. True), send_ok = (\<lambda>_ _. True)\<rparr>"

text \<open>C28: the join handshake between a node \<open>a\<close> that sleeps in \<open>join\<close> and its host \<open>h\<close>, neither knowing the
  other. The host adds \<open>a\<close> and answers with one reply; on the reply \<open>a\<close> adds the host (and takes it for its
  master when it says it is), acknowledges, wakes the thread that called \<open>join\<close>, pings the host and asks
  every other peer of the host (none if the host is a master that keeps its slaves apart) once, in the
  order of their ids, to let it join.\<close>

theorem join_handshake:
  assumes "lexer_ok L" "int_ok (nd_id a)" "int_ok (nd_lport a)" "int_ok (nd_id h)" "int_ok (nd_lport h)"
    and "\<not> smap_contains (nd_id a) (peer_id__peer_info_map (nd_commer h))"
    and "\<not> smap_contains (nd_id h) (peer_id__peer_info_map (nd_commer a))"
    and "connect_ok N (nd_lip a) (nd_lport a)" "send_ok N (nd_lip a) (nd_lport a)"
    and "connect_ok N (nd_lip h) (nd_lport h)" "send_ok N (nd_lip h) (nd_lport h)"
    and "map_of (point_cv_map (nd_syncer a)) 0 = Some (Some [t])" "smap_get 0 0 (point__num_peers_map (nd_syncer a)) = 1"
    and "pick [t] = t"
    and "\<And>x. x \<in> set (peer_id__peer_info_map (nd_commer h)) \<Longrightarrow> peer_readable x \<and> fst x \<noteq> nd_id h \<and> \<not> is_peer (fst x) (nd_commer a)"
  shows "\<exists>h' reply a' acks.
    handle_join_req L N (gen_join_req a) h =
      Some ([\<lparr>o_lip = nd_lip a, o_lport = nd_lport a, o_type = PACKET_JOIN_REPLY, o_map = reply\<rparr>], h') \<and>
    map_of (peer_id__peer_info_map (nd_commer h')) (nd_id a) =
      Some \<lparr>pi_name = ''peer_'' @ dec_int (nd_id a), pi_lip = nd_lip a, pi_lport = nd_lport a\<rparr> \<and>
    handle_join_reply L N pick reply a = Some (acks @
      concat (map (\<lambda>(_, p). snd (connect_send_to N (pi_lip p) (pi_lport p) PACKET_JOIN_REQUEST (gen_join_req a))) (listed (nd_id a) h')),
      Some t, a') \<and>
    map o_type acks = [PACKET_JOIN_ACK, PACKET_PING] \<and>
    map_of (peer_id__peer_info_map (nd_commer a')) (nd_id h) =
      Some \<lparr>pi_name = ''peer_'' @ dec_int (nd_id h), pi_lip = nd_lip h, pi_lport = nd_lport h\<rparr> \<and>
    sdm_master_id a' = (if nd_type h = ''m'' then nd_id h else sdm_master_id a)"
proof -
  obtain h' where h': "handle_join_req L N (gen_join_req a) h =
      Some ([\<lparr>o_lip = nd_lip a, o_lport = nd_lport a, o_type = PACKET_JOIN_REPLY, o_map = gen_join_reply (nd_id a) True h'\<rparr>], h')"
    "nd_commer h' = snd (add_peer N (nd_id a) (''peer_'' @ dec_int (nd_id a)) (nd_lip a) (nd_lport a) (nd_commer h))"
    "h' = h\<lparr>nd_commer := nd_commer h'\<rparr>"
    using handle_first_join_req [of L a h N] assms by blast
  have same: "nd_id h' = nd_id h" "nd_lport h' = nd_lport h" "nd_lip h' = nd_lip h" "nd_type h' = nd_type h"
    by (subst h'(3), simp)+
  have c: "peer_id__peer_info_map (nd_commer h') =
      smap_put (nd_id a) \<lparr>pi_name = ''peer_'' @ dec_int (nd_id a), pi_lip = nd_lip a, pi_lport = nd_lport a\<rparr> (peer_id__peer_info_map (nd_commer h))"
    using add_peer_new [OF assms(6,8)] h'(2) by simp
  have "set (smap_put k v m) \<subseteq> insert (k, v) (set m)" for k :: int and v :: peer_info and m
    by (induction k v m rule: smap_put.induct) auto
  then have "x \<in> set (peer_id__peer_info_map (nd_commer h))" if "x \<in> set (listed (nd_id a) h')" for x
    using that by (force simp: listed_def other_peers_def c split: if_splits)
  then have "\<And>x. x \<in> set (listed (nd_id a) h') \<Longrightarrow> peer_readable x \<and> fst x \<noteq> nd_id h' \<and> \<not> is_peer (fst x) (nd_commer a)"
    using assms(15) same by simp
  from handle_first_join_reply [OF assms(1), of h' a N t pick "nd_id a", unfolded same, OF assms(4,5,7,10-14) this [unfolded same]]
  obtain a' where a': "handle_join_reply L N pick (gen_join_reply (nd_id a) True h') a =
      Some (map (\<lambda>(t, m). \<lparr>o_lip = nd_lip h, o_lport = nd_lport h, o_type = t, o_map = m\<rparr>)
              [(PACKET_JOIN_ACK, gen_packet [] a), (PACKET_PING, gen_packet [] a)] @
            concat (map (\<lambda>(_, p). snd (connect_send_to N (pi_lip p) (pi_lport p) PACKET_JOIN_REQUEST (gen_join_req a))) (listed (nd_id a) h')),
          Some t, a')"
    "nd_commer a' = snd (add_peer N (nd_id h) (''peer_'' @ dec_int (nd_id h)) (nd_lip h) (nd_lport h) (nd_commer a))"
    "sdm_master_id a' = (if nd_type h = ''m'' then nd_id h else sdm_master_id a)"
    by blast
  show ?thesis
    by (rule exI [of _ h'], rule exI [of _ "gen_join_reply (nd_id a) True h'"], rule exI [of _ a'], rule exI, intro conjI,
        rule h'(1), simp add: c, rule a'(1), simp, simp add: a'(2) add_peer_new [OF assms(7,10)], rule a'(3))
qed

definition host_node :: sdm_node where
  "host_node = node_new ''m'' False 0 ''10.0.0.1'' 7000 [] 0"

definition joining_node :: sdm_node where
  "joining_node = (node_new ''s'' False 1 ''10.0.0.2'' 7001 ''10.0.0.1'' 7000)
     \<lparr>nd_syncer := the (sync_wait 0 9 (snd (add_sync_point 0 1 syncer_new)))\<rparr>"

definition third_peer :: peer_info where
  "third_peer = \<lparr>pi_name = ''peer_2'', pi_lip = ''10.0.0.3'', pi_lport = 7002\<rparr>"

definition host_with_peer :: sdm_node where
  "host_with_peer = host_node\<lparr>nd_commer := snd (add_peer all_up 2 ''peer_2'' ''10.0.0.3'' 7002 commer_new)\<rparr>"

lemma sample_nodes:
  "nd_id joining_node = 1" "nd_lip joining_node = ''10.0.0.2''" "nd_lport joining_node = 7001"
  "nd_id host_with_peer = 0" "nd_lip host_with_peer = ''10.0.0.1''" "nd_lport host_with_peer = 7000" "nd_type host_with_peer = ''m''"
  "nd_commer joining_node = commer_new" "peer_id__peer_info_map (nd_commer host_with_peer) = [(2, third_peer)]"
  "\<not> nd_master_slave host_with_peer"
  "map_of (point_cv_map (nd_syncer joining_node)) 0 = Some (Some [9])" "smap_get 0 0 (point__num_peers_map (nd_syncer joining_node)) = 1"
  by (simp_all add: joining_node_def host_with_peer_def host_node_def node_new_def add_peer_def commer_new_def third_peer_def
      client_connect_def all_up_def sync_wait_def add_sync_point_def syncer_new_def smap_get_def smap_contains_def Let_def)

theorem join_handshake_witness:
  "\<exists>h' reply a' acks.
    handle_join_req std_lexer all_up (gen_join_req joining_node) host_with_peer =
      Some ([\<lparr>o_lip = ''10.0.0.2'', o_lport = 7001, o_type = PACKET_JOIN_REPLY, o_map = reply\<rparr>], h') \<and>
    map_of (peer_id__peer_info_map (nd_commer h')) 1 =
      Some \<lparr>pi_name = ''peer_'' @ dec_int 1, pi_lip = ''10.0.0.2'', pi_lport = 7001\<rparr> \<and>
    handle_join_reply std_lexer all_up hd reply joining_node = Some (acks @
      concat (map (\<lambda>(_, p). snd (connect_send_to all_up (pi_lip p) (pi_lport p) PACKET_JOIN_REQUEST (gen_join_req joining_node)))
        (listed 1 h')), Some 9, a') \<and>
    map o_type acks = [PACKET_JOIN_ACK, PACKET_PING] \<and>
    map_of (peer_id__peer_info_map (nd_commer a')) 0 =
      Some \<lparr>pi_name = ''peer_'' @ dec_int 0, pi_lip = ''10.0.0.1'', pi_lport = 7000\<rparr> \<and>
    sdm_master_id a' = (if ''m'' = ''m'' then 0 else sdm_master_id joining_node)"
  by (rule join_handshake [OF std_lexer_ok, of joining_node host_with_peer all_up 9 hd, unfolded sample_nodes])
    (simp_all add: int_ok_def smap_contains_def commer_new_def third_peer_def all_up_def peer_readable_def is_peer_def)

text \<open>C38: a joiner that is already connected to one of the peers its reply lists never gets out of the loop
  that joins them: the reply of a second host, which knows the first one, is never done with, however it
  numbers its peers and whatever the network does (every number in the reply is readable).\<close>

theorem third_node_join_hangs:
  assumes "lexer_ok L" "int_ok (nd_id h)" "int_ok (nd_lport h)"
    and "\<not> smap_contains (nd_id h) (peer_id__peer_info_map (nd_commer a))"
    and "x \<in> set (listed i h)" "peer_readable x" "is_peer (fst x) (nd_commer a)"
  shows "handle_join_reply L N pick (gen_join_reply i True h) a = None"
proof -
  obtain k where k: "k < length (listed i h)" "listed i h ! k = x" using assms(5) by (metis in_set_conv_nth)
  have hang: "join_others L N (gen_join_reply i True h) s 0 = None" if "is_peer (fst x) (nd_commer s)" for s
  proof (rule ccontr)
    assume "join_others L N (gen_join_reply i True h) s 0 \<noteq> None"
    then obtain os where "join_others L N (gen_join_reply i True h) s 0 = Some os" by blast
    from join_others_stuck [OF this, of k "fst x"] show False
      using join_reply_lists k that lex_dec_int [OF assms(1)] assms(6) by (auto simp: peer_readable_def)
  qed
  let ?nm = "''peer_'' @ dec_int (nd_id h)"
  obtain c where c: "add_peer N (nd_id h) ?nm (nd_lip h) (nd_lport h) (nd_commer a) = (0, c)"
    using add_peer_0 [OF assms(4)] by blast
  then have "is_peer (fst x) c"
    using assms(4,7) by (auto simp: add_peer_def is_peer_def Let_def split: prod.splits)
  then show ?thesis
    unfolding handle_join_reply_def join_reply_fields lex_dec_int [OF assms(1,2)] lex_dec_int [OF assms(1,3)]
    using c by (auto simp: hang Let_def split: Option.bind_splits)
qed

definition second_host :: sdm_node where
  "second_host = host_with_peer\<lparr>nd_id := 3, nd_type := ''s'', nd_lip := ''10.0.0.4''\<rparr>"

theorem third_node_join_hangs_witness:
  "handle_join_reply std_lexer all_up hd (gen_join_reply 1 True second_host)
     (joining_node\<lparr>nd_commer := snd (add_peer all_up 2 ''peer_2'' ''10.0.0.3'' 7002 commer_new)\<rparr>) = None"
  by (rule third_node_join_hangs [OF std_lexer_ok, where x = "(2, third_peer)"])
    (simp_all add: second_host_def sample_nodes int_ok_def all_up_def commer_new_def add_peer_def smap_contains_def
      is_peer_def peer_readable_def listed_def other_peers_def third_peer_def client_connect_def client_new_def Let_def)



end
