(* ===== verification/SDM_Slave.thy ===== *)
theory SDM_Slave
  imports SDM_Node QTable
begin

text \<open>
  \<open>SDMSlave\<close> (\<open>sdm_control/sdm_control.cpp\<close>): the control process of a data space that is not the master.
  A call that blocks is split where its thread goes to sleep: the first part returns \<open>Sleep\<close> with the
  sync point, the part after the wake-up is a function of its own. Whatever an operation sends, whom it
  wakes and which data movements it asks the remote interaction manager for (\<open>dm_act_cb\<close>) is a list of
  effects, in order. The query table is called through the record \<open>qtable_ops\<close>, the virtual functions of
  \<open>QTable\<close>.
\<close>

subsection \<open>Message types\<close>

definition SDM_QUERY :: string where "SDM_QUERY = ''sdm_q''"
definition SDM_MQUERY :: string where "SDM_MQUERY = ''sdm_mq''"
definition SDM_MQUERY_REPLY :: string where "SDM_MQUERY_REPLY = ''sdm_mqr''"
definition SDM_SQUERY :: string where "SDM_SQUERY = ''sdm_sq''"
definition SDM_SQUERY_REPLY :: string where "SDM_SQUERY_REPLY = ''sdm_sqr''"
definition SDM_REG_APP :: string where "SDM_REG_APP = ''sdm_ra''"
definition SDM_REG_APP_REPLY :: string where "SDM_REG_APP_REPLY = ''sdm_rar''"
definition SDM_PUT_NOTIFICATION :: string where "SDM_PUT_NOTIFICATION = ''sdm_pn''"
definition SDM_MOVE :: string where "SDM_MOVE = ''sdm_m''"
definition SDM_MOVE_REPLY :: string where "SDM_MOVE_REPLY = ''sdm_mr''"
definition SDM_DEL :: string where "SDM_DEL = ''sdm_d''"
definition SDM_DEL_REPLY :: string where "SDM_DEL_REPLY = ''sdm_dr''"
definition SDM_ACCESS :: string where "SDM_ACCESS = ''sdm_a''"

lemmas sdm_types = SDM_QUERY_def SDM_MQUERY_def SDM_MQUERY_REPLY_def SDM_SQUERY_def SDM_SQUERY_REPLY_def SDM_REG_APP_def
  SDM_REG_APP_REPLY_def SDM_PUT_NOTIFICATION_def SDM_MOVE_def SDM_MOVE_REPLY_def SDM_DEL_def SDM_DEL_REPLY_def SDM_ACCESS_def

subsection \<open>State\<close>

record 't qtable_ops =
  qt_add :: "string \<Rightarrow> u32 \<Rightarrow> coor \<Rightarrow> coor \<Rightarrow> int \<Rightarrow> 't \<Rightarrow> rc \<times> 't"
  qt_query :: "string \<Rightarrow> u32 \<Rightarrow> coor \<Rightarrow> coor \<Rightarrow> int list \<Rightarrow> 't \<Rightarrow> rc \<times> int list"

record 't sdm_slave =
  sl_node :: sdm_node
  data_id_t :: char
  sl_qtable :: 't
  app_id_v :: "int list"
  sdm_s_syncer :: "u32 syncer"
  num_get_req :: int
  num_hit :: int

datatype task = TAccess int string u32 coor coor | TWaitMove int int msg_map

datatype sdm_effect = ESend out_msg | EWake tid | EDmAct msg_map | ESpawn task

definition wakes :: "tid option \<Rightarrow> sdm_effect list" where
  "wakes w = (case w of None \<Rightarrow> [] | Some t \<Rightarrow> [EWake t])"

datatype 'k flow = Done rc | Sleep u32 'k

definition slave_new :: "char \<Rightarrow> string \<Rightarrow> int \<Rightarrow> string \<Rightarrow> int \<Rightarrow> string \<Rightarrow> int \<Rightarrow> 't \<Rightarrow> 't sdm_slave" where
  "slave_new dt ty ds_id lip lport jlip jlport tab = \<lparr>sl_node = node_new ty False ds_id lip lport jlip jlport,
     data_id_t = dt, sl_qtable = tab, app_id_v = [], sdm_s_syncer = syncer_new, num_get_req = 0, num_hit = 0\<rparr>"

definition kvt_ops :: "int kvtable qtable_ops" where
  "kvt_ops = \<lparr>qt_add = kvt_add, qt_query = kvt_query\<rparr>"

definition rt_ops :: "('r, int, 'b) rtree_ops_scheme \<Rightarrow> 'r qtable_ops" where
  "rt_ops R = \<lparr>qt_add = rt_add R, qt_query = rt_query R\<rparr>"

definition msdm_slave_new :: "int \<Rightarrow> string \<Rightarrow> int \<Rightarrow> string \<Rightarrow> int \<Rightarrow> int kvtable sdm_slave" where
  "msdm_slave_new ds_id lip lport jlip jlport = slave_new KV_DATA_ID ''s'' ds_id lip lport jlip jlport []"

definition ssdm_slave_new :: "('r, int, 'b) rtree_ops_scheme \<Rightarrow> int \<Rightarrow> string \<Rightarrow> int \<Rightarrow> string \<Rightarrow> int \<Rightarrow> 'r sdm_slave" where
  "ssdm_slave_new R ds_id lip lport jlip jlport = slave_new LUCOOR_DATA_ID ''s'' ds_id lip lport jlip jlport (rt_empty R)"

definition slave_close :: "'t sdm_slave \<Rightarrow> rc \<times> 't sdm_slave" where
  "slave_close s =
     (let (r, c) = commer_close (nd_commer (sl_node s))
      in (r, s\<lparr>sl_node := (sl_node s)\<lparr>nd_commer := c\<rparr>, sdm_s_syncer := syncer_close (sdm_s_syncer s)\<rparr>))"

subsection \<open>Messages and sync points\<close>

definition send_cmsg_to_master :: "net \<Rightarrow> msg_map \<Rightarrow> ('t, 'x) sdm_slave_scheme \<Rightarrow> (rc \<times> sdm_effect list) option" where
  "send_cmsg_to_master N m s = map_option (\<lambda>(r, os). (r, map ESend os)) (send_msg_to_master N PACKET_CMSG m (sl_node s))"

definition send_cmsg :: "net \<Rightarrow> int \<Rightarrow> msg_map \<Rightarrow> ('t, 'x) sdm_slave_scheme \<Rightarrow> (rc \<times> sdm_effect list) option" where
  "send_cmsg N to_id m s = map_option (\<lambda>(r, os). (r, map ESend os)) (send_msg N to_id PACKET_CMSG m (sl_node s))"

definition sync_point :: "string \<Rightarrow> string \<Rightarrow> u32" where
  "sync_point t data_id = hash_str (t @ ''_'' @ data_id)"

text \<open>\<open>add_sync_point\<close> (whose return code no caller reads) and \<open>wait\<close>.\<close>

definition fall_asleep :: "u32 \<Rightarrow> tid \<Rightarrow> u32 syncer \<Rightarrow> u32 syncer option" where
  "fall_asleep p t y = sync_wait p t (snd (add_sync_point p 1 y))"

definition encode_item :: "string \<Rightarrow> u32 \<Rightarrow> coor \<Rightarrow> coor \<Rightarrow> msg_map \<Rightarrow> msg_map" where
  "encode_item key ver l u m = snd (encode_msg_map (int NDIM) key ver l u m)"

text \<open>The arrays a message carries are read up to \<open>NDIM\<close>.\<close>

definition decode_item :: "lexer \<Rightarrow> msg_map \<Rightarrow> (string \<times> u32 \<times> coor \<times> coor) option option" where
  "decode_item L m =
     do { r \<leftarrow> decode_msg_map L m;
          (case r of
             None \<Rightarrow> Some None
           | Some (ndim, key, ver, l, u) \<Rightarrow> if length l < NDIM then None else Some (Some (key, ver, l, u))) }"

subsection \<open>Operations\<close>

definition slave_reg_app ::
  "net \<Rightarrow> tid \<Rightarrow> int \<Rightarrow> 't sdm_slave \<Rightarrow> (unit flow \<times> sdm_effect list \<times> 't sdm_slave) option" where
  "slave_reg_app N t app_id s =
     (if app_id \<in> set (app_id_v s) then Some (Done 1, [], s)
      else
        let s = s\<lparr>app_id_v := app_id_v s @ [app_id]\<rparr>;
            m = smap_put ''app_id'' (dec_int app_id) (smap_put ''type'' SDM_REG_APP [])
        in do {
          (err, es) \<leftarrow> send_cmsg_to_master N m s;
          if err \<noteq> 0 then Some (Done 1, es, s)
          else do {
            let p = sync_point SDM_REG_APP (dec_int app_id);
            y \<leftarrow> fall_asleep p t (sdm_s_syncer s);
            Some (Sleep p (), es, s\<lparr>sdm_s_syncer := y\<rparr>) } })"

definition slave_reg_app_resume :: "int \<Rightarrow> 't sdm_slave \<Rightarrow> (rc \<times> 't sdm_slave) option" where
  "slave_reg_app_resume app_id s =
     do { (_, y) \<leftarrow> del_sync_point (sync_point SDM_REG_APP (dec_int app_id)) (sdm_s_syncer s);
          Some (0, s\<lparr>sdm_s_syncer := y\<rparr>) }"

definition slave_add_access ::
  "net \<Rightarrow> int \<Rightarrow> string \<Rightarrow> u32 \<Rightarrow> coor \<Rightarrow> coor \<Rightarrow> 't sdm_slave \<Rightarrow> (rc \<times> sdm_effect list) option" where
  "slave_add_access N c_id key ver l u s =
     do { (err, es) \<leftarrow> send_cmsg_to_master N
            (encode_item key ver l u (smap_put ''app_id'' (dec_int c_id) (smap_put ''type'' SDM_ACCESS []))) s;
          Some (if err \<noteq> 0 then 1 else 0, es) }"

definition slave_put ::
  "'t qtable_ops \<Rightarrow> net \<Rightarrow> bool \<Rightarrow> string \<Rightarrow> u32 \<Rightarrow> coor \<Rightarrow> coor \<Rightarrow> int \<Rightarrow> 't sdm_slave \<Rightarrow>
     (rc \<times> sdm_effect list \<times> 't sdm_slave) option" where
  "slave_put Q N ntf key ver l u p_id s =
     (let s = s\<lparr>sl_qtable := snd (qt_add Q key ver l u p_id (sl_qtable s))\<rparr> in
      if ntf
      then do { (err, es) \<leftarrow> send_cmsg_to_master N
                  (encode_item key ver l u (smap_put ''p_id'' (dec_int p_id) (smap_put ''type'' SDM_PUT_NOTIFICATION []))) s;
                Some (if err \<noteq> 0 then 1 else 0, es, s) }
      else Some (0, [], s))"

definition slave_get ::
  "'t qtable_ops \<Rightarrow> net \<Rightarrow> tid \<Rightarrow> int \<Rightarrow> bool \<Rightarrow> string \<Rightarrow> u32 \<Rightarrow> coor \<Rightarrow> coor \<Rightarrow> 't sdm_slave \<Rightarrow>
     (unit flow \<times> sdm_effect list \<times> 't sdm_slave) option" where
  "slave_get Q N t app_id blocking key ver l u s =
     (let s = s\<lparr>num_get_req := num_get_req s + 1\<rparr> in
      if fst (qt_query Q key ver l u [] (sl_qtable s)) \<noteq> 0
      then
        let m = smap_put ''app_id'' (dec_int app_id) (smap_put ''type'' SDM_SQUERY []);
            m = (if blocking then smap_put ''blocking'' [] m else m)
        in do {
          (err, es) \<leftarrow> send_cmsg_to_master N (encode_item key ver l u m) s;
          if err \<noteq> 0 then Some (Done 1, es, s)
          else do {
            data_id \<leftarrow> get_data_id (data_id_t s) key ver l u;
            let p = sync_point SDM_SQUERY data_id;
            y \<leftarrow> fall_asleep p t (sdm_s_syncer s);
            Some (Sleep p (), es, s\<lparr>sdm_s_syncer := y\<rparr>) } }
      else do {
        (err, es) \<leftarrow> slave_add_access N app_id key ver l u s;
        if err \<noteq> 0 then Some (Done err, es, s)
        else Some (Done 0, es, s\<lparr>num_hit := num_hit s + 1\<rparr>) })"

definition slave_get_resume ::
  "'t qtable_ops \<Rightarrow> string \<Rightarrow> u32 \<Rightarrow> coor \<Rightarrow> coor \<Rightarrow> 't sdm_slave \<Rightarrow> (rc \<times> 't sdm_slave) option" where
  "slave_get_resume Q key ver l u s =
     do { data_id \<leftarrow> get_data_id (data_id_t s) key ver l u;
          (_, y) \<leftarrow> del_sync_point (sync_point SDM_SQUERY data_id) (sdm_s_syncer s);
          let s = s\<lparr>sdm_s_syncer := y\<rparr>;
          Some (if fst (qt_query Q key ver l u [] (sl_qtable s)) \<noteq> 0 then 1 else 0, s) }"

definition slave_stop_get :: "(tid list \<Rightarrow> tid) \<Rightarrow> string \<Rightarrow> ('t, 'x) sdm_slave_scheme \<Rightarrow> (rc \<times> sdm_effect list \<times> ('t, 'x) sdm_slave_scheme) option" where
  "slave_stop_get pick data_id s =
     do { (_, w, y) \<leftarrow> notify pick (sync_point SDM_SQUERY data_id) (sdm_s_syncer s);
          Some (0, wakes w, s\<lparr>sdm_s_syncer := y\<rparr>) }"

definition slave_query :: "'t qtable_ops \<Rightarrow> string \<Rightarrow> u32 \<Rightarrow> coor \<Rightarrow> coor \<Rightarrow> ('t, 'x) sdm_slave_scheme \<Rightarrow> rc" where
  "slave_query Q key ver l u s = fst (qt_query Q key ver l u [] (sl_qtable s))"

definition slave_notify_remote_get_done ::
  "net \<Rightarrow> string \<Rightarrow> u32 \<Rightarrow> coor \<Rightarrow> coor \<Rightarrow> 't sdm_slave \<Rightarrow> (rc \<times> sdm_effect list) option" where
  "slave_notify_remote_get_done N key ver l u s =
     send_cmsg_to_master N (smap_put ''type'' SDM_MOVE_REPLY (encode_item key ver l u [])) s"

subsection \<open>Handlers\<close>

definition handle_sdm_mquery ::
  "'t qtable_ops \<Rightarrow> lexer \<Rightarrow> net \<Rightarrow> msg_map \<Rightarrow> ('t, 'x) sdm_slave_scheme \<Rightarrow> sdm_effect list option" where
  "handle_sdm_mquery Q L N m s =
     do { r \<leftarrow> decode_item L m;
          (case r of
             None \<Rightarrow> Some []
           | Some (key, ver, l, u) \<Rightarrow>
               let m = smap_put ''type'' SDM_MQUERY_REPLY m;
                   (err, p_id_v) = qt_query Q key ver l u [] (sl_qtable s)
               in if err \<noteq> 0 then map_option snd (send_cmsg_to_master N (smap_put ''ack'' ''n'' m) s)
               else do {
                 p \<leftarrow> tsvec_at p_id_v 0;
                 map_option snd (send_cmsg_to_master N (smap_put ''p_id'' (dec_int p) (smap_put ''ack'' ''a'' m)) s) }) }"

definition handle_sdm_squery_reply ::
  "(tid list \<Rightarrow> tid) \<Rightarrow> msg_map \<Rightarrow> ('t, 'x) sdm_slave_scheme \<Rightarrow> (sdm_effect list \<times> ('t, 'x) sdm_slave_scheme) option" where
  "handle_sdm_squery_reply pick m s =
     do { data_id \<leftarrow> get_data_id_msg (data_id_t s) m;
          (_, w, y) \<leftarrow> notify pick (sync_point SDM_SQUERY data_id) (sdm_s_syncer s);
          Some (wakes w, s\<lparr>sdm_s_syncer := y\<rparr>) }"

definition handle_sdm_reg_app_reply ::
  "(tid list \<Rightarrow> tid) \<Rightarrow> msg_map \<Rightarrow> ('t, 'x) sdm_slave_scheme \<Rightarrow> (sdm_effect list \<times> ('t, 'x) sdm_slave_scheme) option" where
  "handle_sdm_reg_app_reply pick m s =
     do { (_, w, y) \<leftarrow> notify pick (sync_point SDM_REG_APP (msg_get ''app_id'' m)) (sdm_s_syncer s);
          Some (wakes w, s\<lparr>sdm_s_syncer := y\<rparr>) }"

definition handle_sdm_move :: "msg_map \<Rightarrow> sdm_effect list" where
  "handle_sdm_move m = [EDmAct m]"

definition handle_sdm_del :: "net \<Rightarrow> msg_map \<Rightarrow> ('t, 'x) sdm_slave_scheme \<Rightarrow> sdm_effect list option" where
  "handle_sdm_del N m s =
     map_option (\<lambda>(_, es). EDmAct m # es) (send_cmsg_to_master N (smap_put ''type'' SDM_DEL_REPLY m) s)"

definition slave_handle_msg_in ::
  "'t qtable_ops \<Rightarrow> lexer \<Rightarrow> net \<Rightarrow> (tid list \<Rightarrow> tid) \<Rightarrow> msg_map \<Rightarrow> ('t, 'x) sdm_slave_scheme \<Rightarrow>
     (sdm_effect list \<times> ('t, 'x) sdm_slave_scheme) option" where
  "slave_handle_msg_in Q L N pick m s =
     (let ty = msg_get ''type'' m in
      if ty = SDM_MQUERY then map_option (\<lambda>es. (es, s)) (handle_sdm_mquery Q L N m s)
      else if ty = SDM_SQUERY_REPLY then handle_sdm_squery_reply pick m s
      else if ty = SDM_REG_APP_REPLY then handle_sdm_reg_app_reply pick m s
      else if ty = SDM_MOVE then Some (handle_sdm_move m, s)
      else if ty = SDM_DEL then map_option (\<lambda>es. (es, s)) (handle_sdm_del N m s)
      else Some ([], s))"

end
