(* ===== verification/WASpace.thy ===== *)
theory WASpace
  imports MPBuffer_Steps Sfc
begin

text \<open>
  The master's view of where every item is (\<open>WASpace\<close> in \<open>prefetch/prefetch.cpp\<close>). \<open>MWASpace\<close> keeps for
  every data space the items it holds and the \<open>MPBuffer\<close> that prefetches for it; \<open>SWASpace\<close> keeps an
  \<open>RTable\<close> of regions. An application is registered at one data space. A null pointer to a buffer or to a
  coordinate array that is dereferenced is \<open>None\<close>. The coordinates of an item are a pair of arrays, \<open>None\<close>
  for the null pointers \<open>operator[]\<close> creates. What \<open>handle_data_act_cb\<close> is called with is returned as a
  list; as it may query the space while it runs, each call comes with the space at that moment.
\<close>

type_synonym lucoor = "coor \<times> coor"

subsection \<open>WASpace\<close>

record waspace =
  ws_ds_id_v :: "int list"
  ws_has_cb :: bool
  app_id__ds_id_map :: "(int, int) smap"

definition ws_reg_ds :: "int \<Rightarrow> ('a) waspace_scheme \<Rightarrow> rc \<times> 'a waspace_scheme" where
  "ws_reg_ds ds_id w =
     (if ds_id \<in> set (ws_ds_id_v w) then (1, w) else (0, w\<lparr>ws_ds_id_v := ws_ds_id_v w @ [ds_id]\<rparr>))"

definition ws_reg_app :: "int \<Rightarrow> int \<Rightarrow> 'a waspace_scheme \<Rightarrow> rc \<times> 'a waspace_scheme" where
  "ws_reg_app app_id ds_id w =
     (if tsmap_contains app_id (app_id__ds_id_map w) then (1, w)
      else (0, w\<lparr>app_id__ds_id_map := smap_put app_id ds_id (app_id__ds_id_map w)\<rparr>))"

subsection \<open>MWASpace\<close>

record 'f mwaspace = waspace +
  max_num_key_ver_in_mpbuffer :: int
  ws_palgo_t :: char
  ws_w_prefetch :: bool
  ws_kv_v :: "key_ver list"
  ds_id__kv_map :: "(int, key_ver list) smap"
  ds_id__mpbuffer_map :: "(int, 'f mpbuffer) smap"
  ws_kv__p_id_map :: "(key_ver, int) smap"
  kv__lucoor_map :: "(key_ver, lucoor option) smap"

definition mwa_add_ds :: "int \<Rightarrow> 'f mwaspace \<Rightarrow> 'f mwaspace option" where
  "mwa_add_ds d w =
     do { b \<leftarrow> mpbuffer_new d (max_num_key_ver_in_mpbuffer w) (ws_palgo_t w) (ws_w_prefetch w) True;
          Some (w\<lparr>ds_id__kv_map := smap_put d [] (ds_id__kv_map w),
                  ds_id__mpbuffer_map := smap_put d b (ds_id__mpbuffer_map w)\<rparr>) }"

definition mwaspace_new :: "int list \<Rightarrow> char \<Rightarrow> int \<Rightarrow> bool \<Rightarrow> bool \<Rightarrow> 'f mwaspace option" where
  "mwaspace_new ds_id_v t n wp cb =
     ops_run mwa_add_ds ds_id_v
       \<lparr>ws_ds_id_v = ds_id_v, ws_has_cb = cb, app_id__ds_id_map = [], max_num_key_ver_in_mpbuffer = n, ws_palgo_t = t,
        ws_w_prefetch = wp, ws_kv_v = [], ds_id__kv_map = [], ds_id__mpbuffer_map = [], ws_kv__p_id_map = [],
        kv__lucoor_map = []\<rparr>"

text \<open>A data space that joins late is told of every item.\<close>

definition mwa_reg_ds :: "int \<Rightarrow> 'f mwaspace \<Rightarrow> (rc \<times> 'f mwaspace) option" where
  "mwa_reg_ds ds_id w =
     (let (err, w) = ws_reg_ds ds_id w in
      if err \<noteq> 0 then Some (1, w)
      else do {
        w \<leftarrow> mwa_add_ds ds_id w;
        b \<leftarrow> map_of (ds_id__mpbuffer_map w) ds_id;
        let b = fold (\<lambda>kv b. snd (reg_key_ver (smap_get 0 kv (ws_kv__p_id_map w)) kv b)) (ws_kv_v w) b;
        Some (0, w\<lparr>ds_id__mpbuffer_map := smap_put ds_id b (ds_id__mpbuffer_map w),
                   ws_kv__p_id_map := fold (smap_touch 0) (ws_kv_v w) (ws_kv__p_id_map w)\<rparr>) })"

text \<open>The character \<open>'*'\<close>, which is also the number 42, asks for the whole space.\<close>

definition mwa_contains :: "int \<Rightarrow> key_ver \<Rightarrow> 'f mwaspace \<Rightarrow> bool option" where
  "mwa_contains ds_id kv w =
     (if ds_id = 42 then Some (tsvec_contains kv (ws_kv_v w))
      else do {
        kvs \<leftarrow> map_of (ds_id__kv_map w) ds_id;
        if tsvec_contains kv kvs then Some True
        else map_option (mb_contains kv) (map_of (ds_id__mpbuffer_map w) ds_id) })"

fun mwa_holders :: "key_ver \<Rightarrow> 'f mwaspace \<Rightarrow> int list \<Rightarrow> int list option" where
  "mwa_holders kv w [] = Some []"
| "mwa_holders kv w (d # ds) =
     do { c \<leftarrow> mwa_contains d kv w;
          rest \<leftarrow> mwa_holders kv w ds;
          Some (if c then d # rest else rest) }"

definition mwa_query :: "key_ver \<Rightarrow> int list \<Rightarrow> 'f mwaspace \<Rightarrow> (rc \<times> int list) option" where
  "mwa_query kv out w =
     do { c \<leftarrow> mwa_contains 42 kv w;
          if \<not> c then Some (1, out)
          else map_option (\<lambda>ds. (0, out @ ds)) (mwa_holders kv w (ws_ds_id_v w)) }"

definition mwa_put :: "int \<Rightarrow> key_ver \<Rightarrow> coor \<Rightarrow> coor \<Rightarrow> int \<Rightarrow> 'f mwaspace \<Rightarrow> (rc \<times> 'f mwaspace) option" where
  "mwa_put p_id kv l u ds_id w =
     do { already \<leftarrow> (if ds_id \<noteq> - 1 then mwa_contains ds_id kv w else Some False);
          if already then Some (1, w)
          else if ds_id = - 1 \<and> \<not> tsmap_contains p_id (app_id__ds_id_map w) then Some (1, w)
          else
            let (ds_id, w) =
              (if ds_id = - 1
               then (smap_get 0 p_id (app_id__ds_id_map w),
                     w\<lparr>ds_id__mpbuffer_map := map (\<lambda>(d, b). (d, snd (reg_key_ver p_id kv b))) (ds_id__mpbuffer_map w),
                       ws_kv__p_id_map := smap_put kv p_id (ws_kv__p_id_map w),
                       kv__lucoor_map := smap_put kv (Some (take NDIM l, take NDIM u)) (kv__lucoor_map w),
                       ws_kv_v := tsvec_push_back kv (ws_kv_v w)\<rparr>)
               else (ds_id, w))
            in do { kvs \<leftarrow> map_of (ds_id__kv_map w) ds_id;
                    Some (0, w\<lparr>ds_id__kv_map := smap_put ds_id (tsvec_push_back kv kvs) (ds_id__kv_map w)\<rparr>) } }"

text \<open>\<open>handle_mpbuffer_data_act\<close>: the log dereferences the coordinates.\<close>

type_synonym data_act = "act \<times> int \<times> key_ver \<times> lucoor"

definition handle_mpbuffer_data_act :: "'f mwaspace \<Rightarrow> mb_act \<Rightarrow> data_act list option" where
  "handle_mpbuffer_data_act w a =
     (let (t, d, kv) = a in
      if ws_has_cb w then map_option (\<lambda>lu. [(t, d, kv, lu)]) (smap_get None kv (kv__lucoor_map w)) else Some [])"

fun with_space :: "('f mpbuffer \<Rightarrow> 'f mwaspace) \<Rightarrow> (mb_act \<times> 'f mpbuffer) list \<Rightarrow> (data_act \<times> 'f mwaspace) list option" where
  "with_space f [] = Some []"
| "with_space f ((a, b) # tr) =
     do { as \<leftarrow> handle_mpbuffer_data_act (f b) a;
          rest \<leftarrow> with_space f tr;
          Some (map (\<lambda>a. (a, f b)) as @ rest) }"

text \<open>\<open>MPBuffer::add_access\<close> again, with the buffer at every callback.\<close>

fun push_trace :: "key_ver list \<Rightarrow> 'f mpbuffer \<Rightarrow> ((mb_act \<times> 'f mpbuffer) list \<times> 'f mpbuffer) option" where
  "push_trace [] s = Some ([], s)"
| "push_trace (kv # kvs) s =
     (if \<not> has_act_cb s then push_trace kvs s
      else if int (length (cache_deq (mb_cache s))) < max_num_key_ver s
      then do {
        let s0 = s;
        let s = s\<lparr>kv__p_id_map := smap_touch 0 kv (kv__p_id_map s)\<rparr>;
        (_, deled, c) \<leftarrow> cache_push 0 (smap_get 0 kv (kv__p_id_map s)) kv (mb_cache s);
        let acts = concat (map (handle_data_del s) deled);
        (tr, s') \<leftarrow> push_trace kvs (s\<lparr>mb_cache := c\<rparr>);
        Some (((ActPrefetch, mb_ds_id s', kv), s0) # map (\<lambda>a. (a, s)) acts @ tr, s') }
      else Some ([((ActPrefetch, mb_ds_id s, kv), s)], s))"

definition mb_access_trace ::
  "('f::linorder, 'b) tops_scheme \<Rightarrow> timeval \<Rightarrow> (nat \<Rightarrow> nat \<Rightarrow> 'f) \<Rightarrow> key_ver \<Rightarrow> 'f mpbuffer \<Rightarrow>
     (rc \<times> (mb_act \<times> 'f mpbuffer) list \<times> 'f mpbuffer) option" where
  "mb_access_trace fo now rnd kv s =
     (if \<not> smap_contains kv (kv__p_id_map s) then Some (1, [], s)
      else do {
        let s0 = s;
        (_, acts, s) \<leftarrow> mb_del kv s;
        let p_id = smap_get 0 kv (kv__p_id_map s);
        let s = s\<lparr>p_id__last_acced_step_map := smap_touch (- 1) p_id (p_id__last_acced_step_map s)\<rparr>;
        let s = s\<lparr>p_id__last_acced_step_map :=
                  smap_put p_id (smap_get 0 p_id (p_id__last_acced_step_map s) + 1) (p_id__last_acced_step_map s)\<rparr>;
        (_, a) \<leftarrow> app_add_access fo now p_id (palgo_to_pick_app s);
        (_, kvs, s) \<leftarrow> mb_get_to_prefetch fo rnd 1 (s\<lparr>palgo_to_pick_app := a\<rparr>);
        (tr, s) \<leftarrow> (if w_prefetch s then push_trace kvs s else Some ([], s));
        Some (0, map (\<lambda>a. (a, s0)) acts @ tr, s) })"

definition put_buffer :: "int \<Rightarrow> 'f mwaspace \<Rightarrow> 'f mpbuffer \<Rightarrow> 'f mwaspace" where
  "put_buffer d w b = w\<lparr>ds_id__mpbuffer_map := smap_put d b (ds_id__mpbuffer_map w)\<rparr>"

definition mwa_del :: "key_ver \<Rightarrow> int \<Rightarrow> 'f mwaspace \<Rightarrow> (rc \<times> (data_act \<times> 'f mwaspace) list \<times> 'f mwaspace) option" where
  "mwa_del kv ds_id w =
     (if \<not> tsvec_contains kv (ws_kv_v w) then Some (1, [], w)
      else do {
        kvs \<leftarrow> map_of (ds_id__kv_map w) ds_id;
        (_, kvs) \<leftarrow> tsvec_del kv kvs;
        let w = w\<lparr>ds_id__kv_map := smap_put ds_id kvs (ds_id__kv_map w)\<rparr>;
        b \<leftarrow> map_of (ds_id__mpbuffer_map w) ds_id;
        (_, acts, b') \<leftarrow> mb_del kv b;
        acts \<leftarrow> with_space (put_buffer ds_id w) (map (\<lambda>a. (a, b)) acts);
        let w = put_buffer ds_id w b';
        ps \<leftarrow> tsmap_del kv (ws_kv__p_id_map w);
        lus \<leftarrow> tsmap_del kv (smap_touch None kv (kv__lucoor_map w));
        (_, v) \<leftarrow> tsvec_del kv (ws_kv_v w);
        Some (0, acts, w\<lparr>ws_kv__p_id_map := ps, kv__lucoor_map := lus, ws_kv_v := v\<rparr>) })"

definition mwa_add_access ::
  "('f::linorder, 'b) tops_scheme \<Rightarrow> timeval \<Rightarrow> (nat \<Rightarrow> nat \<Rightarrow> 'f) \<Rightarrow> int \<Rightarrow> key_ver \<Rightarrow> 'f mwaspace \<Rightarrow>
     (rc \<times> (data_act \<times> 'f mwaspace) list \<times> 'f mwaspace) option" where
  "mwa_add_access fo now rnd c_id kv w =
     (let w = w\<lparr>ws_kv__p_id_map := smap_touch 0 kv (ws_kv__p_id_map w)\<rparr>;
          p_id = smap_get 0 kv (ws_kv__p_id_map w);
          w = w\<lparr>app_id__ds_id_map := smap_touch 0 c_id (smap_touch 0 p_id (app_id__ds_id_map w))\<rparr>;
          ds_id = smap_get 0 c_id (app_id__ds_id_map w)
      in if smap_get 0 p_id (app_id__ds_id_map w) = ds_id then Some (1, [], w)
      else do {
        b \<leftarrow> map_of (ds_id__mpbuffer_map w) ds_id;
        (err, tr, b) \<leftarrow> mb_access_trace fo now rnd kv b;
        acts \<leftarrow> with_space (put_buffer ds_id w) tr;
        Some (err, acts, put_buffer ds_id w b) })"

subsection \<open>SWASpace\<close>

record ('r, 'i) swaspace = waspace +
  sws_w_prefetch :: bool
  sws_qtable :: 'r
  sws_salgo :: "'i hsalgo"

definition SALGO_H :: char where "SALGO_H = CHR ''h''"
definition NULL_P_ID :: int where "NULL_P_ID = - 1"

definition swaspace_new ::
  "('r, int, 'b) rtree_ops_scheme \<Rightarrow> int list \<Rightarrow> char \<Rightarrow> coor \<Rightarrow> coor \<Rightarrow> int \<Rightarrow> bool \<Rightarrow> bool \<Rightarrow> ('r, 'i) swaspace option" where
  "swaspace_new R ds_id_v t l u n wp cb =
     (if t = SALGO_H
      then map_option (\<lambda>a. \<lparr>ws_ds_id_v = ds_id_v, ws_has_cb = cb, app_id__ds_id_map = [], sws_w_prefetch = wp,
             sws_qtable = rt_empty R, sws_salgo = a\<rparr>) (hsalgo_new l u (word_of_int n))
      else None)"

definition swa_put ::
  "('r, int, 'b) rtree_ops_scheme \<Rightarrow> int \<Rightarrow> key_ver \<Rightarrow> coor \<Rightarrow> coor \<Rightarrow> int \<Rightarrow> ('r, 'i) swaspace \<Rightarrow> rc \<times> ('r, 'i) swaspace" where
  "swa_put R p_id kv l u ds_id w =
     (if p_id \<noteq> NULL_P_ID \<and> \<not> tsmap_contains p_id (app_id__ds_id_map w) then (1, w)
      else
        let (ds_id, w) = (if ds_id = - 1
               then (smap_get 0 p_id (app_id__ds_id_map w), w\<lparr>app_id__ds_id_map := smap_touch 0 p_id (app_id__ds_id_map w)\<rparr>)
               else (ds_id, w));
            (err, r) = rt_add R (fst kv) (snd kv) l u ds_id (sws_qtable w)
        in if err \<noteq> 0 then (1, w) else (0, w\<lparr>sws_qtable := r\<rparr>))"

definition swa_query :: "('r, int, 'b) rtree_ops_scheme \<Rightarrow> key_ver \<Rightarrow> coor \<Rightarrow> coor \<Rightarrow> int list \<Rightarrow> ('r, 'i) swaspace \<Rightarrow> rc \<times> int list" where
  "swa_query R kv l u out w = rt_query R (fst kv) (snd kv) l u out (sws_qtable w)"

definition swa_del :: "('r, int, 'b) rtree_ops_scheme \<Rightarrow> key_ver \<Rightarrow> coor \<Rightarrow> coor \<Rightarrow> ('r, 'i) swaspace \<Rightarrow> rc \<times> ('r, 'i) swaspace" where
  "swa_del R kv l u w =
     (if fst (swa_query R kv l u [] w) \<noteq> 0 then (1, w)
      else let (err, r) = rt_del R (fst kv) (snd kv) l u (sws_qtable w) in (err, w\<lparr>sws_qtable := r\<rparr>))"

definition swa_get_to_fetch ::
  "('i, 'c) iset_ops_scheme \<Rightarrow> ('r, int, 'b) rtree_ops_scheme \<Rightarrow> coor \<Rightarrow> coor \<Rightarrow> (coor \<times> coor) list \<Rightarrow> ('r, 'i) swaspace \<Rightarrow>
     (rc option \<times> (coor \<times> coor) list) option" where
  "swa_get_to_fetch I R l u out w = get_to_fetch I R l u out (sws_salgo w)"

subsection \<open>What the buffers call back with\<close>

lemma push_trace_acts: "push_all kvs s = map_option (\<lambda>(tr, s'). (map fst tr, s')) (push_trace kvs s)"
  by (induction kvs s rule: push_trace.induct)
    (auto simp: Let_def comp_def bind_eq_None_conv split: Option.bind_splits prod.splits)

lemma mb_access_trace_acts:
  "mb_add_access fo now rnd kv s = map_option (\<lambda>(r, tr, s'). (r, map fst tr, s')) (mb_access_trace fo now rnd kv s)"
  by (auto simp: mb_add_access_def mb_access_trace_def push_trace_acts Let_def comp_def split: Option.bind_splits prod.splits)

lemma fetch_one_regs: "fetch_one p s = (kvs, s') \<Longrightarrow> kv__p_id_map s' = kv__p_id_map s"
  by (auto simp: fetch_one_def Let_def split: prod.splits list.splits if_splits)

lemma fetch_all_regs: "fetch_all ps s = (kvs, s') \<Longrightarrow> kv__p_id_map s' = kv__p_id_map s"
  by (induction ps s arbitrary: kvs s' rule: fetch_all.induct) (auto split: prod.splits dest: fetch_one_regs)

lemma push_all_regs:
  assumes "push_all kvs s = Some (acts, s')"
  shows "(\<forall>k. smap_contains k (kv__p_id_map s) \<longrightarrow> smap_contains k (kv__p_id_map s')) \<and>
    (\<forall>a\<in>set acts. fst a = ActDel \<longrightarrow> smap_contains (snd (snd a)) (kv__p_id_map s'))"
  using assms
proof (induction kvs s arbitrary: acts s' rule: push_all.induct)
  case (2 kv kvs s)
  show ?case
  proof (cases "has_act_cb s \<and> int (length (cache_deq (mb_cache s))) < max_num_key_ver s")
    case True
    let ?s = "s\<lparr>kv__p_id_map := smap_touch 0 kv (kv__p_id_map s)\<rparr>"
    obtain r deled c acts' where st: "cache_push 0 (smap_get 0 kv (kv__p_id_map ?s)) kv (mb_cache s) = Some (r, deled, c)"
      "push_all kvs (?s\<lparr>mb_cache := c\<rparr>) = Some (acts', s')"
      "acts = (ActPrefetch, mb_ds_id s', kv) # concat (map (handle_data_del ?s) deled) @ acts'"
      using 2(3) True by (auto simp: bind_eq_Some_conv Let_def)
    have "(\<forall>k. smap_contains k (kv__p_id_map (?s\<lparr>mb_cache := c\<rparr>)) \<longrightarrow> smap_contains k (kv__p_id_map s')) \<and>
        (\<forall>a\<in>set acts'. fst a = ActDel \<longrightarrow> smap_contains (snd (snd a)) (kv__p_id_map s'))"
      using 2(2) [OF _ _ refl] True st by auto
    then show ?thesis unfolding st(3) by (auto simp: handle_data_del_def split: if_splits)
  qed (use 2 in \<open>auto split: if_splits\<close>)
qed simp

lemma get_regs: "mb_get_to_prefetch fo rnd n s = Some (m, kvs, s') \<Longrightarrow> kv__p_id_map s' = kv__p_id_map s"
  by (auto simp: mb_get_to_prefetch_def bind_eq_Some_conv split: prod.splits dest: fetch_all_regs)

lemma dels_registered: "a \<in> set (concat (map (handle_data_del s) kvs)) \<Longrightarrow> smap_contains (snd (snd a)) (kv__p_id_map s)"
  by (auto simp: handle_data_del_def split: if_splits)

lemma mb_del_regs:
  assumes "mb_del kv s = Some (r, acts, s')"
  shows "kv__p_id_map s' = kv__p_id_map s \<and> (\<forall>a\<in>set acts. smap_contains (snd (snd a)) (kv__p_id_map s))"
proof -
  have "\<exists>deled. acts = concat (map (handle_data_del s) deled) \<and> kv__p_id_map s' = kv__p_id_map s"
  proof (cases "smap_contains kv (kv__p_id_map s)")
    case False
    then show ?thesis using assms by (intro exI [of _ "[]"]) (simp add: mb_del_def)
  next
    case True
    then obtain e deled c where "cache_del (smap_get 0 kv (kv__p_id_map s)) kv (mb_cache s) = Some (e, deled, c)"
      using assms by (cases "cache_del (smap_get 0 kv (kv__p_id_map s)) kv (mb_cache s)") (auto simp: mb_del_def)
    then show ?thesis using assms True by (intro exI [of _ deled]) (auto simp: mb_del_def)
  qed
  then show ?thesis using dels_registered [of _ s] by blast
qed

lemma access_dels_registered:
  assumes run: "mb_add_access fo now rnd kv s = Some (r, acts, s')" and a: "a \<in> set acts" and del: "fst a = ActDel"
  shows "smap_contains (snd (snd a)) (kv__p_id_map s')"
proof (cases "smap_contains kv (kv__p_id_map s)")
  case True
  show ?thesis
    using run a del
    by (auto simp: mb_add_access_def True bind_eq_Some_conv Let_def split: if_split_asm
        simp del: split_paired_All dest!: get_regs mb_del_regs push_all_regs)
qed (use run a in \<open>simp add: mb_add_access_def\<close>)

lemma access_acts_registered:
  assumes inv: "mb_inv R s" and run: "mb_add_access fo now rnd kv s = Some (r, acts, s')" and a: "a \<in> set acts"
  shows "smap_contains (snd (snd a)) (kv__p_id_map s)"
proof -
  have good: "mb_good R R s acts s'" using mb_good_access [OF inv, of fo now rnd kv] run by auto
  then have R: "smap_contains k (kv__p_id_map s') \<longleftrightarrow> smap_contains k (kv__p_id_map s)" for k
    using inv registered_iff by (metis mb_good_def mb_inv_def)
  show ?thesis
  proof (cases "fst a")
    case ActPrefetch
    then have "snd (snd a) \<in> set (prefetched acts)" using a by (force simp: prefetched_def)
    then have "\<exists>p. next_item R (acced_of s') p (snd (snd a))" using good by (simp add: mb_good_def)
    then have "\<exists>p. snd (snd a) \<in> set (R p)" unfolding next_item_def using nth_mem by metis
    then show ?thesis using inv registered_iff by (metis mb_inv_def)
  next
    case ActDel
    then have "smap_contains (snd (snd a)) (kv__p_id_map s')"
      using access_dels_registered [OF run a] by blast
    then show ?thesis by (simp add: R)
  qed
qed

subsection \<open>The invariant of the space\<close>

definition buffer_ok :: "'f mwaspace \<Rightarrow> 'f mpbuffer \<Rightarrow> bool" where
  "buffer_ok w b \<longleftrightarrow> (\<exists>R. mb_inv R b) \<and>
     (\<forall>kv. smap_contains kv (kv__p_id_map b) \<longrightarrow> smap_get None kv (kv__lucoor_map w) \<noteq> None)"

text \<open>\<open>held w kv d\<close>: the data space \<open>d\<close> of the item's producer holds it.\<close>

definition held :: "'f mwaspace \<Rightarrow> key_ver \<Rightarrow> int \<Rightarrow> bool" where
  "held w kv d \<longleftrightarrow> (\<exists>p kvs. map_of (ws_kv__p_id_map w) kv = Some p \<and> map_of (app_id__ds_id_map w) p = Some d \<and>
     map_of (ds_id__kv_map w) d = Some kvs \<and> kv \<in> set kvs)"

definition mwa_ok :: "'f mwaspace \<Rightarrow> bool" where
  "mwa_ok w \<longleftrightarrow> 0 < max_num_key_ver_in_mpbuffer w \<and> (app_algo_new (ws_palgo_t w) :: 'f app_algo option) \<noteq> None \<and>
     (\<forall>d. smap_contains d (ds_id__kv_map w) \<longleftrightarrow> d \<in> set (ws_ds_id_v w)) \<and>
     (\<forall>d. smap_contains d (ds_id__mpbuffer_map w) \<longleftrightarrow> d \<in> set (ws_ds_id_v w)) \<and>
     (\<forall>d b. map_of (ds_id__mpbuffer_map w) d = Some b \<longrightarrow> buffer_ok w b) \<and>
     (\<forall>a d. map_of (app_id__ds_id_map w) a = Some d \<longrightarrow> d \<in> set (ws_ds_id_v w)) \<and>
     (\<forall>kv\<in>set (ws_kv_v w). (\<exists>d. held w kv d) \<and> smap_get None kv (kv__lucoor_map w) \<noteq> None)"

lemma mwa_okD:
  assumes "mwa_ok w"
  shows "d \<in> set (ws_ds_id_v w) \<Longrightarrow> \<exists>kvs. map_of (ds_id__kv_map w) d = Some kvs"
    "d \<in> set (ws_ds_id_v w) \<Longrightarrow> \<exists>b. map_of (ds_id__mpbuffer_map w) d = Some b \<and> buffer_ok w b"
    "map_of (app_id__ds_id_map w) a = Some d \<Longrightarrow> d \<in> set (ws_ds_id_v w)"
    "kv \<in> set (ws_kv_v w) \<Longrightarrow> \<exists>d. held w kv d"
  using assms unfolding mwa_ok_def smap_contains_def by (auto, blast+)

lemma mb_inv_reg: "\<exists>R. mb_inv R b \<Longrightarrow> \<exists>R. mb_inv R (snd (reg_key_ver p kv b))"
proof (cases "smap_contains kv (kv__p_id_map b)")
  case False
  assume "\<exists>R. mb_inv R b"
  then show ?thesis using mb_good_reg [OF _ False] by (metis mb_good_def)
qed (simp add: reg_key_ver_def)

lemma reg_regs: "smap_contains k (kv__p_id_map (snd (reg_key_ver p kv b))) \<longleftrightarrow> k = kv \<or> smap_contains k (kv__p_id_map b)"
  by (auto simp: reg_key_ver_def Let_def)

lemma buffer_ok_reg:
  "buffer_ok w b \<Longrightarrow> smap_get None kv (kv__lucoor_map w) \<noteq> None \<Longrightarrow> buffer_ok w (snd (reg_key_ver p kv b))"
  unfolding buffer_ok_def reg_regs using mb_inv_reg by blast

lemma buffer_ok_regs:
  "buffer_ok w b \<Longrightarrow> \<forall>kv\<in>set kvs. smap_get None kv (kv__lucoor_map w) \<noteq> None \<Longrightarrow>
   buffer_ok w (fold (\<lambda>kv b. snd (reg_key_ver (f kv) kv b)) kvs b)"
  by (induction kvs arbitrary: b) (simp_all add: buffer_ok_reg)

lemma buffer_ok_cong: "kv__lucoor_map w' = kv__lucoor_map w \<Longrightarrow> buffer_ok w' b = buffer_ok w b"
  by (simp add: buffer_ok_def)

lemma buffer_ok_new:
  assumes "0 < n" "mpbuffer_new d n t wp cb = Some b"
  shows "buffer_ok w b"
proof -
  have "kv__p_id_map b = []" using assms(2) by (auto simp: mpbuffer_new_def)
  then show ?thesis using mb_inv_new [OF assms] by (auto simp: buffer_ok_def)
qed

lemma mpbuffer_new_defined: "(app_algo_new t :: 'f app_algo option) \<noteq> None \<Longrightarrow> \<exists>b :: 'f mpbuffer. mpbuffer_new d n t wp cb = Some b"
  by (auto simp: mpbuffer_new_def)

lemma held_cong:
  "ws_kv__p_id_map w' = ws_kv__p_id_map w \<Longrightarrow> app_id__ds_id_map w' = app_id__ds_id_map w \<Longrightarrow>
    ds_id__kv_map w' = ds_id__kv_map w \<Longrightarrow> held w' = held w"
  by (simp add: held_def fun_eq_iff)

text \<open>Adding to what the maps hold keeps an item located.\<close>

lemma held_mono:
  assumes "held w kv d"
    and "map_of (ws_kv__p_id_map w') kv = map_of (ws_kv__p_id_map w) kv"
    and "\<And>a d. map_of (app_id__ds_id_map w) a = Some d \<Longrightarrow> map_of (app_id__ds_id_map w') a = Some d"
    and "\<And>d kvs. map_of (ds_id__kv_map w) d = Some kvs \<Longrightarrow> \<exists>kvs'. map_of (ds_id__kv_map w') d = Some kvs' \<and> set kvs \<subseteq> set kvs'"
  shows "held w' kv d"
proof -
  obtain p kvs where h: "map_of (ws_kv__p_id_map w) kv = Some p" "map_of (app_id__ds_id_map w) p = Some d"
    "map_of (ds_id__kv_map w) d = Some kvs" "kv \<in> set kvs"
    using assms(1) by (auto simp: held_def)
  moreover obtain kvs' where "map_of (ds_id__kv_map w') d = Some kvs'" "kv \<in> set kvs'" using assms(4) [OF h(3)] h(4) by blast
  ultimately show ?thesis using assms(2,3) by (auto simp: held_def)
qed

lemma mwa_okI:
  fixes w :: "'f mwaspace"
  assumes "0 < max_num_key_ver_in_mpbuffer w" "(app_algo_new (ws_palgo_t w) :: 'f app_algo option) \<noteq> None"
    "\<And>d. smap_contains d (ds_id__kv_map w) \<longleftrightarrow> d \<in> set (ws_ds_id_v w)"
    "\<And>d. smap_contains d (ds_id__mpbuffer_map w) \<longleftrightarrow> d \<in> set (ws_ds_id_v w)"
    "\<And>d b. map_of (ds_id__mpbuffer_map w) d = Some b \<Longrightarrow> buffer_ok w b"
    "\<And>a d. map_of (app_id__ds_id_map w) a = Some d \<Longrightarrow> d \<in> set (ws_ds_id_v w)"
    "\<And>kv. kv \<in> set (ws_kv_v w) \<Longrightarrow> (\<exists>d. held w kv d) \<and> smap_get None kv (kv__lucoor_map w) \<noteq> None"
  shows "mwa_ok w"
  unfolding mwa_ok_def using assms by blast

lemma fold_touch: "\<forall>k\<in>set ks. smap_contains k m \<Longrightarrow> fold (smap_touch d) ks m = m"
  by (induction ks) (simp_all add: smap_touch_def)

lemma mwa_okE:
  fixes w :: "'f mwaspace"
  assumes "mwa_ok w"
  obtains "0 < max_num_key_ver_in_mpbuffer w" "(app_algo_new (ws_palgo_t w) :: 'f app_algo option) \<noteq> None"
    "\<And>d. smap_contains d (ds_id__kv_map w) \<longleftrightarrow> d \<in> set (ws_ds_id_v w)"
    "\<And>d. smap_contains d (ds_id__mpbuffer_map w) \<longleftrightarrow> d \<in> set (ws_ds_id_v w)"
    "\<And>d b. map_of (ds_id__mpbuffer_map w) d = Some b \<Longrightarrow> buffer_ok w b"
    "\<And>a d. map_of (app_id__ds_id_map w) a = Some d \<Longrightarrow> d \<in> set (ws_ds_id_v w)"
    "\<And>kv. kv \<in> set (ws_kv_v w) \<Longrightarrow> \<exists>d. held w kv d"
    "\<And>kv. kv \<in> set (ws_kv_v w) \<Longrightarrow> smap_get None kv (kv__lucoor_map w) \<noteq> None"
  using assms unfolding mwa_ok_def by blast

lemma still_held:
  assumes "mwa_ok w" "kv \<in> set (ws_kv_v w)" "\<And>e. held w kv e \<Longrightarrow> held w' kv e"
    and "kv__lucoor_map w' = kv__lucoor_map w"
  shows "(\<exists>e. held w' kv e) \<and> smap_get None kv (kv__lucoor_map w') \<noteq> None"
proof -
  obtain e where "held w kv e" "smap_get None kv (kv__lucoor_map w) \<noteq> None"
    using assms(1,2) unfolding mwa_ok_def by blast
  then show ?thesis using assms(3,4) by auto
qed

subsection \<open>Every operation keeps it\<close>

lemma mwa_ok_reg_app:
  assumes ok: "mwa_ok w" and d: "d \<in> set (ws_ds_id_v w)"
  shows "mwa_ok (snd (ws_reg_app a d w))"
proof (cases "smap_contains a (app_id__ds_id_map w)")
  case False
  let ?w = "w\<lparr>app_id__ds_id_map := smap_put a d (app_id__ds_id_map w)\<rparr>"
  have held: "held ?w kv d'" if "held w kv d'" for kv d'
    by (rule held_mono [OF that]) (use False in \<open>auto simp: smap_contains_def\<close>)
  note D = mwa_okE [OF ok]
  have "mwa_ok ?w"
    by (rule D, rule mwa_okI) (use held d in \<open>simp_all add: buffer_ok_def split: if_splits\<close>, blast+)
  then show ?thesis using False by (simp add: ws_reg_app_def)
qed (use assms in \<open>simp add: ws_reg_app_def\<close>)

lemma mwa_ok_put_buffer:
  assumes ok: "mwa_ok w" and d: "d \<in> set (ws_ds_id_v w)" and b: "buffer_ok w b"
  shows "mwa_ok (put_buffer d w b)"
proof -
  note D = mwa_okE [OF ok]
  have h: "held (put_buffer d w b) = held w" by (rule held_cong) (simp_all add: put_buffer_def)
  have K: "(\<exists>e. held (put_buffer d w b) kv e) \<and> smap_get None kv (kv__lucoor_map (put_buffer d w b)) \<noteq> None" if "kv \<in> set (ws_kv_v w)" for kv
    unfolding h using that ok by (simp add: mwa_ok_def put_buffer_def)
  show ?thesis
    by (rule D, rule mwa_okI)
      (use d b K in \<open>auto simp: put_buffer_def buffer_ok_def simp del: split_paired_All split_paired_Ex split: if_splits\<close>)
qed

lemma mwa_ok_reg_ds:
  fixes w :: "'f mwaspace"
  assumes ok: "mwa_ok w"
  shows "\<exists>r w'. mwa_reg_ds d w = Some (r, w') \<and> mwa_ok w'"
proof (cases "d \<in> set (ws_ds_id_v w)")
  case True
  then show ?thesis using ok by (simp add: mwa_reg_ds_def ws_reg_ds_def)
next
  case False
  note D = mwa_okE [OF ok]
  let ?n = "max_num_key_ver_in_mpbuffer w"
  obtain b :: "'f mpbuffer" where b: "mpbuffer_new d ?n (ws_palgo_t w) (ws_w_prefetch w) True = Some b"
    by (rule D) (use mpbuffer_new_defined in blast)
  let ?f = "\<lambda>kv b. snd (reg_key_ver (smap_get 0 kv (ws_kv__p_id_map w)) kv b)"
  let ?b = "fold ?f (ws_kv_v w) b"
  let ?w = "w\<lparr>ws_ds_id_v := ws_ds_id_v w @ [d], ds_id__kv_map := smap_put d [] (ds_id__kv_map w),
     ds_id__mpbuffer_map := smap_put d ?b (smap_put d b (ds_id__mpbuffer_map w))\<rparr>"
  have "smap_contains kv (ws_kv__p_id_map w)" if "kv \<in> set (ws_kv_v w)" for kv
    using mwa_okD(4) [OF ok that] by (auto simp: held_def smap_contains_def)
  then have "fold (smap_touch 0) (ws_kv_v w) (ws_kv__p_id_map w) = ws_kv__p_id_map w" by (intro fold_touch) blast
  then have run: "mwa_reg_ds d w = Some (0, ?w)"
    using False b by (simp add: mwa_reg_ds_def ws_reg_ds_def mwa_add_ds_def)
  have buf: "buffer_ok w ?b"
    by (rule D, rule buffer_ok_regs, rule buffer_ok_new [OF _ b]) blast+
  have none: "map_of (ds_id__kv_map w) d = None"
    using ok False unfolding mwa_ok_def smap_contains_def by blast
  have held: "held ?w kv d'" if "held w kv d'" for kv d'
    by (rule held_mono [OF that]) (use none in auto)
  have K: "(\<exists>e. held ?w kv e) \<and> smap_get None kv (kv__lucoor_map ?w) \<noteq> None" if "kv \<in> set (ws_kv_v w)" for kv
    by (rule still_held [OF ok that held]) simp_all
  have "mwa_ok ?w"
    by (rule D, rule mwa_okI) (use K buf in \<open>auto simp: buffer_ok_def simp del: split_paired_All split_paired_Ex split: if_splits\<close>)
  with run show ?thesis by blast
qed

lemma mwa_contains_defined:
  "mwa_ok w \<Longrightarrow> d \<in> set (ws_ds_id_v w) \<Longrightarrow> \<exists>c. mwa_contains d kv w = Some c"
  using mwa_okD(1,2) [of w d] by (auto simp: mwa_contains_def)

lemma mwa_put_moved:
  assumes ok: "mwa_ok w" and d: "d \<in> set (ws_ds_id_v w)" "d \<noteq> - 1"
  shows "\<exists>r w'. mwa_put p kv l u d w = Some (r, w') \<and> mwa_ok w'"
proof -
  note D = mwa_okE [OF ok]
  obtain c where c: "mwa_contains d kv w = Some c" using mwa_contains_defined [OF ok d(1)] by blast
  obtain kvs where kvs: "map_of (ds_id__kv_map w) d = Some kvs" using mwa_okD(1) [OF ok d(1)] by blast
  let ?w = "w\<lparr>ds_id__kv_map := smap_put d (kvs @ [kv]) (ds_id__kv_map w)\<rparr>"
  have held: "held ?w k d'" if "held w k d'" for k d'
    by (rule held_mono [OF that]) (use kvs in auto)
  have K: "(\<exists>e. held ?w kv e) \<and> smap_get None kv (kv__lucoor_map ?w) \<noteq> None" if "kv \<in> set (ws_kv_v w)" for kv
    by (rule still_held [OF ok that held]) simp_all
  have "mwa_ok ?w"
    by (rule D, rule mwa_okI) (use K d in \<open>auto simp: buffer_ok_def simp del: split_paired_All split_paired_Ex split: if_splits\<close>)
  then show ?thesis using ok c kvs d by (cases c) (simp_all add: mwa_put_def)
qed

lemma mwa_put_new:
  assumes ok: "mwa_ok w" and p: "map_of (app_id__ds_id_map w) p = Some d"
  shows "\<exists>w'. mwa_put p kv l u (- 1) w = Some (0, w') \<and> mwa_ok w' \<and> held w' kv d \<and>
    set (ws_kv_v w') = insert kv (set (ws_kv_v w)) \<and> ws_ds_id_v w' = ws_ds_id_v w"
proof -
  note D = mwa_okE [OF ok]
  have d: "d \<in> set (ws_ds_id_v w)" using mwa_okD(3) [OF ok p] .
  obtain kvs where kvs: "map_of (ds_id__kv_map w) d = Some kvs" using mwa_okD(1) [OF ok d] by blast
  let ?w = "w\<lparr>ds_id__mpbuffer_map := map (\<lambda>(d, b). (d, snd (reg_key_ver p kv b))) (ds_id__mpbuffer_map w),
       ws_kv__p_id_map := smap_put kv p (ws_kv__p_id_map w),
       kv__lucoor_map := smap_put kv (Some (take NDIM l, take NDIM u)) (kv__lucoor_map w),
       ws_kv_v := ws_kv_v w @ [kv], ds_id__kv_map := smap_put d (kvs @ [kv]) (ds_id__kv_map w)\<rparr>"
  have run: "mwa_put p kv l u (- 1) w = Some (0, ?w)"
    using p kvs by (simp add: mwa_put_def smap_contains_def smap_get_def)
  have bufs: "map_of (ds_id__mpbuffer_map ?w) e = map_option (\<lambda>b. snd (reg_key_ver p kv b)) (map_of (ds_id__mpbuffer_map w) e)" for e
    using map_of_map [of "\<lambda>b. snd (reg_key_ver p kv b)" "ds_id__mpbuffer_map w"] by (simp add: fun_eq_iff)
  have new: "held ?w kv d" using p kvs by (simp add: held_def)
  have held: "held ?w k d'" if "held w k d'" "k \<noteq> kv" for k d'
    by (rule held_mono [OF that(1)]) (use that(2) kvs in auto)
  have buf: "buffer_ok ?w (snd (reg_key_ver p kv b))" if "buffer_ok w b" for b
    using that by (intro buffer_ok_reg) (auto simp: buffer_ok_def)
  have "mwa_ok ?w"
  proof (rule D, rule mwa_okI)
    fix e b
    assume "map_of (ds_id__mpbuffer_map ?w) e = Some b"
      and "\<And>d b. map_of (ds_id__mpbuffer_map w) d = Some b \<Longrightarrow> buffer_ok w b"
    then show "buffer_ok ?w b" using buf unfolding bufs by auto
  next
    fix k
    assume k: "k \<in> set (ws_kv_v ?w)"
    show "(\<exists>d. held ?w k d) \<and> smap_get None k (kv__lucoor_map ?w) \<noteq> None"
    proof (cases "k = kv")
      case True
      then show ?thesis using new by auto
    next
      case False
      then have "k \<in> set (ws_kv_v w)" using k by simp
      then obtain e where "held w k e" "smap_get None k (kv__lucoor_map w) \<noteq> None"
        using ok unfolding mwa_ok_def by blast
      then show ?thesis using held [of k e] False by auto
    qed
  qed (use d bufs in \<open>auto simp: smap_contains_def\<close>)
  with run new show ?thesis by auto
qed

lemma with_space_defined:
  assumes "\<And>a b. (a, b) \<in> set tr \<Longrightarrow> smap_get None (snd (snd a)) (kv__lucoor_map (f b)) \<noteq> None"
  shows "\<exists>as. with_space f tr = Some as"
  using assms
proof (induction tr)
  case (Cons x tr)
  obtain t d k b where x: "x = ((t, d, k), b)" by (metis surj_pair)
  have "smap_get None k (kv__lucoor_map (f b)) \<noteq> None" using Cons.prems [of "(t, d, k)" b] x by simp
  moreover obtain as where "with_space f tr = Some as"
    using Cons.IH Cons.prems by (meson list.set_intros(2))
  ultimately show ?case by (auto simp: x handle_mpbuffer_data_act_def)
qed simp

lemma mwa_access:
  assumes ok: "mwa_ok w" and kv: "kv \<in> set (ws_kv_v w)" and c: "smap_contains c (app_id__ds_id_map w)"
  shows "\<exists>r acts w'. mwa_add_access fo now rnd c kv w = Some (r, acts, w') \<and> mwa_ok w' \<and> ws_kv_v w' = ws_kv_v w \<and> held w' = held w"
proof -
  obtain p e where p: "map_of (ws_kv__p_id_map w) kv = Some p" "map_of (app_id__ds_id_map w) p = Some e"
    using mwa_okD(4) [OF ok kv] by (auto simp: held_def)
  obtain d where d: "map_of (app_id__ds_id_map w) c = Some d" using c by (auto simp: smap_contains_def)
  obtain b where b: "map_of (ds_id__mpbuffer_map w) d = Some b" "buffer_ok w b"
    using mwa_okD(2,3) [OF ok] d by blast
  have same: "smap_touch 0 kv (ws_kv__p_id_map w) = ws_kv__p_id_map w" "smap_touch 0 p (app_id__ds_id_map w) = app_id__ds_id_map w"
    "smap_touch 0 c (app_id__ds_id_map w) = app_id__ds_id_map w" "smap_get 0 kv (ws_kv__p_id_map w) = p"
    "smap_get 0 p (app_id__ds_id_map w) = e" "smap_get 0 c (app_id__ds_id_map w) = d"
    using p d by (simp_all add: smap_touch_def smap_contains_def smap_get_def)
  show ?thesis
  proof (cases "e = d")
    case True
    then show ?thesis using ok by (simp add: mwa_add_access_def same)
  next
    case False
    obtain R where R: "mb_inv R b" using b(2) by (auto simp: buffer_ok_def)
    obtain r acts b' where run: "mb_add_access fo now rnd kv b = Some (r, acts, b')" "mb_good R R b acts b'"
      using mb_good_access [OF R] by blast
    then obtain tr where tr: "mb_access_trace fo now rnd kv b = Some (r, tr, b')" "acts = map fst tr"
      by (auto simp: mb_access_trace_acts)
    have "\<exists>as. with_space (put_buffer d w) tr = Some as"
    proof (rule with_space_defined)
      fix a x
      assume "(a, x) \<in> set tr"
      then have "a \<in> set acts" by (force simp: tr(2))
      then show "smap_get None (snd (snd a)) (kv__lucoor_map (put_buffer d w x)) \<noteq> None"
        using access_acts_registered [OF R run(1)] b(2) by (simp add: buffer_ok_def put_buffer_def del: split_paired_All)
    qed
    then obtain as where "with_space (put_buffer d w) tr = Some as" by blast
    then have "mwa_add_access fo now rnd c kv w = Some (r, as, put_buffer d w b')"
      using False b(1) tr(1) by (simp add: mwa_add_access_def same)
    moreover have "buffer_ok w b'"
    proof -
      have inv: "mb_inv R b'" using run(2) by (simp add: mb_good_def)
      then have "smap_contains k (kv__p_id_map b') \<longleftrightarrow> smap_contains k (kv__p_id_map b)" for k
        using R registered_iff by (metis mb_inv_def)
      with inv b(2) show ?thesis unfolding buffer_ok_def by blast
    qed
    moreover have "held (put_buffer d w b') = held w" by (rule held_cong) (simp_all add: put_buffer_def)
    ultimately show ?thesis
      using mwa_ok_put_buffer [OF ok] mwa_okD(3) [OF ok d] by (fastforce simp: put_buffer_def)
  qed
qed

lemma mwa_holders_filter:
  assumes "mwa_ok w" "set ds \<subseteq> set (ws_ds_id_v w)"
  shows "mwa_holders kv w ds = Some (filter (\<lambda>d. mwa_contains d kv w = Some True) ds)"
  using assms(2)
proof (induction ds)
  case (Cons d ds)
  obtain c where "mwa_contains d kv w = Some c" using mwa_contains_defined [OF assms(1)] Cons.prems by fastforce
  then show ?case using Cons by simp
qed simp

lemma mwa_query_spec:
  assumes ok: "mwa_ok w"
  shows "mwa_query kv [] w = Some (if kv \<in> set (ws_kv_v w) then (0, filter (\<lambda>d. mwa_contains d kv w = Some True) (ws_ds_id_v w)) else (1, []))"
  using mwa_holders_filter [OF ok order_refl, of kv] by (auto simp: mwa_query_def mwa_contains_def)

lemma held_contains: "held w kv d \<Longrightarrow> kv \<in> set (ws_kv_v w) \<Longrightarrow> mwa_contains d kv w = Some True"
  by (auto simp: held_def mwa_contains_def)

subsection \<open>Properties\<close>

datatype 'f ws_op = WRegDs int | WRegApp int int | WPut int key_ver coor coor int
  | WAccess timeval "nat \<Rightarrow> nat \<Rightarrow> 'f" int key_ver

fun ws_step :: "('f::linorder, 'b) tops_scheme \<Rightarrow> 'f ws_op \<Rightarrow> 'f mwaspace \<Rightarrow> 'f mwaspace option" where
  "ws_step fo (WRegDs d) w = map_option snd (mwa_reg_ds d w)"
| "ws_step fo (WRegApp a d) w = Some (snd (ws_reg_app a d w))"
| "ws_step fo (WPut p kv l u d) w = map_option snd (mwa_put p kv l u d w)"
| "ws_step fo (WAccess now rnd c kv) w = map_option (\<lambda>(_, _, w). w) (mwa_add_access fo now rnd c kv w)"

text \<open>What the master sees to: applications and moved items are at registered data spaces, accesses are to
  known items by registered applications.\<close>

fun ws_allowed :: "'f ws_op \<Rightarrow> 'f mwaspace \<Rightarrow> bool" where
  "ws_allowed (WRegDs d) w = True"
| "ws_allowed (WRegApp a d) w = (d \<in> set (ws_ds_id_v w))"
| "ws_allowed (WPut p kv l u d) w = (d = - 1 \<or> d \<in> set (ws_ds_id_v w))"
| "ws_allowed (WAccess now rnd c kv) w = (kv \<in> set (ws_kv_v w) \<and> smap_contains c (app_id__ds_id_map w))"

inductive ws_reach :: "('f::linorder, 'b) tops_scheme \<Rightarrow> char \<Rightarrow> int \<Rightarrow> bool \<Rightarrow> bool \<Rightarrow> 'f mwaspace \<Rightarrow> bool"
  for fo t n wp cb where
  start: "mwaspace_new [] t n wp cb = Some w \<Longrightarrow> ws_reach fo t n wp cb w"
| step: "ws_reach fo t n wp cb w \<Longrightarrow> ws_allowed op w \<Longrightarrow> ws_step fo op w = Some w' \<Longrightarrow> ws_reach fo t n wp cb w'"

lemma ws_step_ok:
  assumes ok: "mwa_ok w" and op: "ws_allowed op w"
  shows "\<exists>w'. ws_step fo op w = Some w' \<and> mwa_ok w'"
proof (cases op)
  case (WRegDs d)
  then show ?thesis using mwa_ok_reg_ds [OF ok, of d] by auto
next
  case (WRegApp a d)
  then show ?thesis using mwa_ok_reg_app [OF ok] op by auto
next
  case (WPut p kv l u d)
  show ?thesis
  proof (cases "d = - 1")
    case True
    show ?thesis
    proof (cases "map_of (app_id__ds_id_map w) p")
      case None
      then show ?thesis using ok WPut True by (simp add: mwa_put_def smap_contains_def)
    next
      case (Some e)
      then show ?thesis using mwa_put_new [OF ok Some, of kv l u] WPut True by auto
    qed
  next
    case False
    then show ?thesis using mwa_put_moved [OF ok, of d p kv l u] op WPut by auto
  qed
next
  case (WAccess now rnd c kv)
  then show ?thesis using mwa_access [OF ok, of kv c fo now rnd] op by auto
qed

lemma ws_reach_ok:
  fixes w :: "'f::linorder mwaspace"
  assumes "ws_reach fo t n wp cb w" "0 < n" "(app_algo_new t :: 'f app_algo option) \<noteq> None"
  shows "mwa_ok w"
  using assms(1)
proof induction
  case (start w)
  then show ?case using assms(2,3) by (auto simp: mwaspace_new_def mwa_ok_def)
next
  case (step w op w')
  then show ?case using ws_step_ok [OF step.IH step.hyps(2), of fo] by auto
qed



fun ws_steps :: "('f::linorder, 'b) tops_scheme \<Rightarrow> 'f ws_op list \<Rightarrow> 'f mwaspace \<Rightarrow> 'f mwaspace option" where
  "ws_steps fo [] w = Some w"
| "ws_steps fo (op # ops) w = (if ws_allowed op w then do { w \<leftarrow> ws_step fo op w; ws_steps fo ops w } else None)"

lemma ws_steps_reach: "ws_reach fo t n wp cb w \<Longrightarrow> ws_steps fo ops w = Some w' \<Longrightarrow> ws_reach fo t n wp cb w'"
  by (induction ops arbitrary: w) (auto simp: bind_eq_Some_conv split: if_splits intro: ws_reach.step)

definition sample_ws_ops :: "int ws_op list" where
  "sample_ws_ops = [WRegDs 1, WRegDs 2, WRegApp 10 1, WRegApp 20 2, WPut 10 (''a'', 0) [0,0,0] [1,1,1] (- 1),
     WPut 10 (''b'', 0) [0,0,0] [1,1,1] (- 1), WPut 10 (''c'', 0) [0,0,0] [1,1,1] (- 1),
     WAccess (0, 0) (\<lambda>_ _. 0) 20 (''a'', 0)]"

definition sample_space :: "int mwaspace" where
  "sample_space = the (ws_steps int_tops sample_ws_ops (the (mwaspace_new [] MALGO_W_LZ 2 True True)))"

lemma sample_space_facts:
  "map_option (\<lambda>w. (ws_kv_v w, smap_contains 20 (app_id__ds_id_map w), mwa_query (''c'', 0) [] w))
     (ws_steps int_tops sample_ws_ops (the (mwaspace_new [] MALGO_W_LZ 2 True True))) =
   Some ([(''a'', 0), (''b'', 0), (''c'', 0)], True, Some (0, [1]))"
  by code_simp

lemma sample_space_reach: "ws_reach int_tops MALGO_W_LZ 2 True True sample_space"
proof (rule ws_steps_reach)
  show "ws_reach int_tops MALGO_W_LZ 2 True True (the (mwaspace_new [] MALGO_W_LZ 2 True True))"
    by (rule ws_reach.start) (simp add: mwaspace_new_def)
  show "ws_steps int_tops sample_ws_ops (the (mwaspace_new [] MALGO_W_LZ 2 True True)) = Some sample_space"
    using sample_space_facts by (auto simp: sample_space_def)
qed

lemma lz_known: "(app_algo_new MALGO_W_LZ :: int app_algo option) \<noteq> None"
  by (simp add: app_algo_new_def)



text \<open>After an item has been deleted from the space the buffers of the other data spaces still know it: the
  access that prefetches it dereferences the null pointer left in place of its coordinates, whereas the
  same access is fine without the deletion.\<close>

lemma deleted_prefetch_undefined:
  "mwa_add_access int_tops (1, 0) (\<lambda>_ _. 0) 20 (''b'', 0) sample_space \<noteq> None \<and>
   (case mwa_del (''c'', 0) 1 sample_space of
      Some (r, acts, w) \<Rightarrow> r = 0 \<and> mwa_add_access int_tops (1, 0) (\<lambda>_ _. 0) 20 (''b'', 0) w = None
    | None \<Rightarrow> False)"
  by code_simp

end
