(* ===== verification/SDM_Master.thy ===== *)
theory SDM_Master
  imports SDM_Slave WASpace
begin

text \<open>
  \<open>SDMMaster\<close> (\<open>sdm_control/sdm_control.cpp\<close>): the control process that also keeps the space. Its blocking
  calls are split as the slave's are; what a sleeping thread still has to do is the argument of \<open>Sleep\<close>.
  The space is called through the record \<open>wa_ops\<close>, the virtual functions of \<open>WASpace\<close>; the movements an
  access sets off (\<open>handle_wa_space_data_act\<close>) come with the space they query. A buffer finishes its access
  before the movements it asked for are carried out: a wait for a deletion does not hold it up.
\<close>

subsection \<open>State\<close>

record 'w wa_ops =
  wa_reg_ds :: "int \<Rightarrow> 'w \<Rightarrow> (rc \<times> 'w) option"
  wa_reg_app :: "int \<Rightarrow> int \<Rightarrow> 'w \<Rightarrow> rc \<times> 'w"
  wa_put :: "int \<Rightarrow> key_ver \<Rightarrow> coor \<Rightarrow> coor \<Rightarrow> int \<Rightarrow> 'w \<Rightarrow> (rc \<times> 'w) option"
  wa_query :: "key_ver \<Rightarrow> coor \<Rightarrow> coor \<Rightarrow> int list \<Rightarrow> 'w \<Rightarrow> (rc \<times> int list) option"
  wa_add_access :: "int \<Rightarrow> key_ver \<Rightarrow> coor \<Rightarrow> coor \<Rightarrow> 'w \<Rightarrow> (rc \<times> (data_act \<times> 'w) list \<times> 'w) option"

definition mwa_ops :: "('f::linorder, 'b) tops_scheme \<Rightarrow> timeval \<Rightarrow> (nat \<Rightarrow> nat \<Rightarrow> 'f) \<Rightarrow> 'f mwaspace wa_ops" where
  "mwa_ops fo now rnd = \<lparr>wa_reg_ds = mwa_reg_ds, wa_reg_app = ws_reg_app, wa_put = mwa_put,
     wa_query = (\<lambda>kv _ _. mwa_query kv), wa_add_access = (\<lambda>c kv _ _. mwa_add_access fo now rnd c kv)\<rparr>"

text \<open>\<open>SWASpace::add_access\<close> ends without the return code it declares: its only statement is a comment.\<close>

definition swa_ops :: "('r, int, 'b) rtree_ops_scheme \<Rightarrow> ('r, 'i) swaspace wa_ops" where
  "swa_ops R = \<lparr>wa_reg_ds = (\<lambda>d w. Some (ws_reg_ds d w)), wa_reg_app = ws_reg_app,
     wa_put = (\<lambda>p kv l u d w. Some (swa_put R p kv l u d w)), wa_query = (\<lambda>kv l u out w. Some (swa_query R kv l u out w)),
     wa_add_access = (\<lambda>_ _ _ _ _. None)\<rparr>"

record ('t, 'w) sdm_master = "'t sdm_slave" +
  wa_space :: 'w
  num_slaves :: int
  sdm_m_syncer :: "u32 syncer"
  ds_id__moving_data_id_v_map :: "(int, string list) smap"

datatype 'w wait = WQuery | WMove | WDel rc "(data_act \<times> 'w) list"

definition master_id :: "('t, 'x) sdm_slave_scheme \<Rightarrow> int" where
  "master_id s = nd_id (sl_node s)"

definition master_new ::
  "'w wa_ops \<Rightarrow> char \<Rightarrow> int \<Rightarrow> string \<Rightarrow> int \<Rightarrow> string \<Rightarrow> int \<Rightarrow> 't \<Rightarrow> 'w \<Rightarrow> ('t, 'w) sdm_master option" where
  "master_new W dt ds_id lip lport jlip jlport tab w =
     do { (_, w) \<leftarrow> wa_reg_ds W ds_id w;
          Some (sdm_slave.extend (slave_new dt ''m'' ds_id lip lport jlip jlport tab)
            \<lparr>wa_space = w, num_slaves = 0, sdm_m_syncer = syncer_new, ds_id__moving_data_id_v_map = []\<rparr>) }"

definition master_sleep :: "u32 \<Rightarrow> tid \<Rightarrow> ('t, 'w) sdm_master \<Rightarrow> ('t, 'w) sdm_master option" where
  "master_sleep p t s = map_option (\<lambda>y. s\<lparr>sdm_m_syncer := y\<rparr>) (fall_asleep p t (sdm_m_syncer s))"

definition master_awake :: "u32 \<Rightarrow> ('t, 'w) sdm_master \<Rightarrow> ('t, 'w) sdm_master option" where
  "master_awake p s = map_option (\<lambda>(_, y). s\<lparr>sdm_m_syncer := y\<rparr>) (del_sync_point p (sdm_m_syncer s))"

definition master_notify :: "(tid list \<Rightarrow> tid) \<Rightarrow> u32 \<Rightarrow> ('t, 'w) sdm_master \<Rightarrow> (sdm_effect list \<times> ('t, 'w) sdm_master) option" where
  "master_notify pick p s = map_option (\<lambda>(_, w, y). (wakes w, s\<lparr>sdm_m_syncer := y\<rparr>)) (notify pick p (sdm_m_syncer s))"

definition blocked_point :: "string \<Rightarrow> u32" where
  "blocked_point data_id = hash_str (''B'' @ SDM_QUERY @ ''_'' @ data_id)"

text \<open>The list of the items on their way to \<open>to_id\<close>; reading it creates it.\<close>

definition moving :: "int \<Rightarrow> ('t, 'w) sdm_master \<Rightarrow> string list" where
  "moving to_id s = smap_get [] to_id (ds_id__moving_data_id_v_map s)"

definition add_moving :: "int \<Rightarrow> string \<Rightarrow> ('t, 'w) sdm_master \<Rightarrow> ('t, 'w) sdm_master" where
  "add_moving to_id data_id s =
     s\<lparr>ds_id__moving_data_id_v_map := smap_put to_id (moving to_id s @ [data_id]) (ds_id__moving_data_id_v_map s)\<rparr>"

subsection \<open>Data movements\<close>

text \<open>\<open>Some p\<close>: the thread sleeps on \<open>p\<close>.\<close>

definition handle_wa_space_data_act ::
  "'w wa_ops \<Rightarrow> net \<Rightarrow> tid \<Rightarrow> data_act \<times> 'w \<Rightarrow> ('t, 'w) sdm_master \<Rightarrow>
     (u32 option \<times> sdm_effect list \<times> ('t, 'w) sdm_master) option" where
  "handle_wa_space_data_act W N t a s =
     (let ((act, to_id, (ky, ver), (l, u)), w) = a;
          m = encode_item ky ver l u []
      in do {
        data_id \<leftarrow> get_data_id (data_id_t s) ky ver l u;
        (case act of
           ActPrefetch \<Rightarrow>
             if data_id \<in> set (moving to_id s)
             then Some (None, [], s\<lparr>ds_id__moving_data_id_v_map := smap_touch [] to_id (ds_id__moving_data_id_v_map s)\<rparr>)
             else
               let s = add_moving to_id data_id s
               in do {
                 (err, ds_id_v) \<leftarrow> wa_query W (ky, ver) l u [] w;
                 if err \<noteq> 0 then Some (None, [], s)
                 else do {
                   from_id \<leftarrow> tsvec_at ds_id_v 0;
                   let spawn = ESpawn (TWaitMove from_id to_id m);
                   let m = smap_put ''to_id'' (dec_int to_id) (smap_put ''id'' (dec_int from_id) (smap_put ''type'' SDM_MOVE m));
                   if from_id = master_id s then Some (None, [spawn, EDmAct m], s)
                   else map_option (\<lambda>(_, es). (None, spawn # es, s)) (send_cmsg N from_id m s) } }
         | ActDel \<Rightarrow>
             let m = smap_put ''type'' SDM_DEL m
             in if to_id = master_id s then Some (None, [EDmAct m], s)
             else do {
               (err, es) \<leftarrow> send_cmsg N to_id m s;
               if err \<noteq> 0 then Some (None, es, s)
               else let p = sync_point SDM_DEL data_id
                    in map_option (\<lambda>s. (Some p, es, s)) (master_sleep p t s) }) })"

fun run_acts ::
  "'w wa_ops \<Rightarrow> net \<Rightarrow> tid \<Rightarrow> rc \<Rightarrow> (data_act \<times> 'w) list \<Rightarrow> ('t, 'w) sdm_master \<Rightarrow>
     ('w wait flow \<times> sdm_effect list \<times> ('t, 'w) sdm_master) option" where
  "run_acts W N t r [] s = Some (Done r, [], s)"
| "run_acts W N t r (a # as) s =
     do { (p, es, s) \<leftarrow> handle_wa_space_data_act W N t a s;
          (case p of
             Some p \<Rightarrow> Some (Sleep p (WDel r as), es, s)
           | None \<Rightarrow> map_option (\<lambda>(f, es', s). (f, es @ es', s)) (run_acts W N t r as s)) }"

definition master_add_access ::
  "'w wa_ops \<Rightarrow> net \<Rightarrow> tid \<Rightarrow> int \<Rightarrow> string \<Rightarrow> u32 \<Rightarrow> coor \<Rightarrow> coor \<Rightarrow> ('t, 'w) sdm_master \<Rightarrow>
     ('w wait flow \<times> sdm_effect list \<times> ('t, 'w) sdm_master) option" where
  "master_add_access W N t c_id ky ver l u s =
     do { (r, acts, w) \<leftarrow> wa_add_access W c_id (ky, ver) l u (wa_space s);
          run_acts W N t r acts (s\<lparr>wa_space := w\<rparr>) }"

text \<open>The thread that waited for a deletion goes on.\<close>

definition acts_resume ::
  "'w wa_ops \<Rightarrow> net \<Rightarrow> tid \<Rightarrow> u32 \<Rightarrow> rc \<Rightarrow> (data_act \<times> 'w) list \<Rightarrow> ('t, 'w) sdm_master \<Rightarrow>
     ('w wait flow \<times> sdm_effect list \<times> ('t, 'w) sdm_master) option" where
  "acts_resume W N t p r as s = do { s \<leftarrow> master_awake p s; run_acts W N t r as s }"

subsection \<open>Operations\<close>

definition master_reg_app :: "'w wa_ops \<Rightarrow> int \<Rightarrow> ('t, 'w) sdm_master \<Rightarrow> rc \<times> ('t, 'w) sdm_master" where
  "master_reg_app W app_id s =
     (if app_id \<in> set (app_id_v s) then (1, s)
      else let (err, w) = wa_reg_app W app_id (master_id s) (wa_space s) in
        if err \<noteq> 0 then (1, s\<lparr>wa_space := w\<rparr>)
        else (0, s\<lparr>wa_space := w, app_id_v := app_id_v s @ [app_id]\<rparr>))"

definition master_put ::
  "'t qtable_ops \<Rightarrow> 'w wa_ops \<Rightarrow> (tid list \<Rightarrow> tid) \<Rightarrow> string \<Rightarrow> u32 \<Rightarrow> coor \<Rightarrow> coor \<Rightarrow> int \<Rightarrow> ('t, 'w) sdm_master \<Rightarrow>
     (rc \<times> sdm_effect list \<times> ('t, 'w) sdm_master) option" where
  "master_put Q W pick ky ver l u p_id s =
     (let (err, tab) = qt_add Q ky ver l u p_id (sl_qtable s); s = s\<lparr>sl_qtable := tab\<rparr> in
      if err \<noteq> 0 then Some (1, [], s)
      else do {
        data_id \<leftarrow> get_data_id (data_id_t s) ky ver l u;
        (es, s) \<leftarrow> master_notify pick (blocked_point data_id) s;
        (err, w) \<leftarrow> wa_put W p_id (ky, ver) l u (- 1) (wa_space s);
        Some (err, es, s\<lparr>wa_space := w\<rparr>) })"

text \<open>\<open>sdm_mquery\<close> once the item is known to be at \<open>ds_id_v\<close>.\<close>

definition mquery_move ::
  "net \<Rightarrow> tid \<Rightarrow> int \<Rightarrow> string \<Rightarrow> u32 \<Rightarrow> coor \<Rightarrow> coor \<Rightarrow> int list \<Rightarrow> ('t, 'w) sdm_master \<Rightarrow>
     ('w wait flow \<times> sdm_effect list \<times> ('t, 'w) sdm_master) option" where
  "mquery_move N t c_id ky ver l u ds_id_v s =
     do { data_id \<leftarrow> get_data_id (data_id_t s) ky ver l u;
          from_id \<leftarrow> tsvec_at ds_id_v 0;
          let spawn = ESpawn (TAccess c_id ky ver l u);
          if from_id = master_id s then Some (Done 0, [spawn], s)
          else
            let m = smap_put ''to_id'' (dec_int (master_id s)) (smap_put ''id'' (dec_int from_id)
                      (smap_put ''type'' SDM_MOVE (encode_item ky ver l u [])))
            in do {
              (err, es) \<leftarrow> send_cmsg N from_id m s;
              if err \<noteq> 0 then Some (Done err, spawn # es, s)
              else let p = sync_point SDM_MOVE data_id
                   in map_option (\<lambda>s. (Sleep p WMove, spawn # es, s)) (master_sleep p t s) } }"

definition sdm_mquery ::
  "'w wa_ops \<Rightarrow> net \<Rightarrow> tid \<Rightarrow> bool \<Rightarrow> int \<Rightarrow> string \<Rightarrow> u32 \<Rightarrow> coor \<Rightarrow> coor \<Rightarrow> ('t, 'w) sdm_master \<Rightarrow>
     ('w wait flow \<times> sdm_effect list \<times> ('t, 'w) sdm_master) option" where
  "sdm_mquery W N t blocking c_id ky ver l u s =
     do { data_id \<leftarrow> get_data_id (data_id_t s) ky ver l u;
          (err, ds_id_v) \<leftarrow> wa_query W (ky, ver) l u [] (wa_space s);
          if err \<noteq> 0
          then if blocking
               then let p = blocked_point data_id
                    in map_option (\<lambda>s. (Sleep p WQuery, [], s)) (master_sleep p t s)
               else Some (Done 0, [], s)
          else mquery_move N t c_id ky ver l u ds_id_v s }"

definition sdm_mquery_resume ::
  "'w wa_ops \<Rightarrow> net \<Rightarrow> tid \<Rightarrow> 'w wait \<Rightarrow> int \<Rightarrow> string \<Rightarrow> u32 \<Rightarrow> coor \<Rightarrow> coor \<Rightarrow> ('t, 'w) sdm_master \<Rightarrow>
     ('w wait flow \<times> sdm_effect list \<times> ('t, 'w) sdm_master) option" where
  "sdm_mquery_resume W N t k c_id ky ver l u s =
     do { data_id \<leftarrow> get_data_id (data_id_t s) ky ver l u;
          (case k of
             WQuery \<Rightarrow> do {
               s \<leftarrow> master_awake (blocked_point data_id) s;
               (err, ds_id_v) \<leftarrow> wa_query W (ky, ver) l u [] (wa_space s);
               if err \<noteq> 0 then Some (Done 1, [], s) else mquery_move N t c_id ky ver l u ds_id_v s }
           | WMove \<Rightarrow> map_option (\<lambda>s. (Done 0, [], s)) (master_awake (sync_point SDM_MOVE data_id) s)
           | WDel _ _ \<Rightarrow> None) }"

text \<open>What is left of \<open>get\<close> after \<open>sdm_mquery\<close>.\<close>

definition get_finish ::
  "'t qtable_ops \<Rightarrow> 'w wa_ops \<Rightarrow> net \<Rightarrow> tid \<Rightarrow> int \<Rightarrow> string \<Rightarrow> u32 \<Rightarrow> coor \<Rightarrow> coor \<Rightarrow>
     ('w wait flow \<times> sdm_effect list \<times> ('t, 'w) sdm_master) \<Rightarrow>
     ('w wait flow \<times> sdm_effect list \<times> ('t, 'w) sdm_master) option" where
  "get_finish Q W N t c_id ky ver l u x =
     (let (f, es, s) = x in
      case f of
        Sleep p k \<Rightarrow> Some (Sleep p k, es, s)
      | Done r \<Rightarrow>
          if r \<noteq> 0 then Some (Done 1, es, s)
          else if fst (qt_query Q ky ver l u [] (sl_qtable s)) \<noteq> 0 then Some (Done 1, es, s)
          else map_option (\<lambda>(f, es', s). (f, es @ es', s)) (master_add_access W N t c_id ky ver l u s))"

definition master_get ::
  "'t qtable_ops \<Rightarrow> 'w wa_ops \<Rightarrow> net \<Rightarrow> tid \<Rightarrow> int \<Rightarrow> bool \<Rightarrow> string \<Rightarrow> u32 \<Rightarrow> coor \<Rightarrow> coor \<Rightarrow> ('t, 'w) sdm_master \<Rightarrow>
     ('w wait flow \<times> sdm_effect list \<times> ('t, 'w) sdm_master) option" where
  "master_get Q W N t c_id blocking ky ver l u s =
     (let s = s\<lparr>num_get_req := num_get_req s + 1\<rparr> in
      if c_id \<notin> set (app_id_v s) then Some (Done 1, [], s)
      else if fst (qt_query Q ky ver l u [] (sl_qtable s)) \<noteq> 0
      then if blocking
           then do { x \<leftarrow> sdm_mquery W N t blocking c_id ky ver l u s; get_finish Q W N t c_id ky ver l u x }
           else Some (Done 1, [], s)
      else master_add_access W N t c_id ky ver l u (s\<lparr>num_hit := num_hit s + 1\<rparr>))"

definition master_get_resume ::
  "'t qtable_ops \<Rightarrow> 'w wa_ops \<Rightarrow> net \<Rightarrow> tid \<Rightarrow> 'w wait \<Rightarrow> int \<Rightarrow> string \<Rightarrow> u32 \<Rightarrow> coor \<Rightarrow> coor \<Rightarrow> ('t, 'w) sdm_master \<Rightarrow>
     ('w wait flow \<times> sdm_effect list \<times> ('t, 'w) sdm_master) option" where
  "master_get_resume Q W N t k c_id ky ver l u s =
     do { x \<leftarrow> sdm_mquery_resume W N t k c_id ky ver l u s; get_finish Q W N t c_id ky ver l u x }"

definition master_notify_remote_get_done ::
  "(tid list \<Rightarrow> tid) \<Rightarrow> string \<Rightarrow> u32 \<Rightarrow> coor \<Rightarrow> coor \<Rightarrow> ('t, 'w) sdm_master \<Rightarrow> (rc \<times> sdm_effect list \<times> ('t, 'w) sdm_master) option" where
  "master_notify_remote_get_done pick ky ver l u s =
     do { data_id \<leftarrow> get_data_id (data_id_t s) ky ver l u;
          map_option (\<lambda>(es, s). (0, es, s)) (master_notify pick (sync_point SDM_MOVE data_id) s) }"

subsection \<open>Handlers\<close>

text \<open>A second master makes the process exit.\<close>

definition master_handle_conn_up :: "'w wa_ops \<Rightarrow> lexer \<Rightarrow> msg_map \<Rightarrow> ('t, 'w) sdm_master \<Rightarrow> ('t, 'w) sdm_master option" where
  "master_handle_conn_up W L m s =
     (if msg_get ''node_type'' m = ''s''
      then do { i \<leftarrow> lex_int L (msg_get ''id'' m);
                (_, w) \<leftarrow> wa_reg_ds W i (wa_space s);
                Some (s\<lparr>wa_space := w, num_slaves := num_slaves s + 1\<rparr>) }
      else if msg_get ''node_type'' m = ''m'' then None
      else Some s)"

definition handle_sdm_mquery_reply ::
  "'w wa_ops \<Rightarrow> lexer \<Rightarrow> (tid list \<Rightarrow> tid) \<Rightarrow> msg_map \<Rightarrow> ('t, 'w) sdm_master \<Rightarrow> (sdm_effect list \<times> ('t, 'w) sdm_master) option" where
  "handle_sdm_mquery_reply W L pick m s =
     (if msg_get ''ack'' m = ''n'' then Some ([], s)
      else do {
        r \<leftarrow> decode_item L m;
        (case r of
           None \<Rightarrow> Some ([], s)
         | Some (ky, ver, l, u) \<Rightarrow> do {
             p \<leftarrow> lex_int L (msg_get ''p_id'' m);
             (err, w) \<leftarrow> wa_put W p (ky, ver) l u (- 1) (wa_space s);
             let s = s\<lparr>wa_space := w\<rparr>;
             if err \<noteq> 0 then Some ([], s)
             else do { data_id \<leftarrow> get_data_id (data_id_t s) ky ver l u;
                       master_notify pick (sync_point SDM_MQUERY data_id) s } }) })"

definition handle_sdm_reg_app ::
  "'w wa_ops \<Rightarrow> lexer \<Rightarrow> net \<Rightarrow> msg_map \<Rightarrow> ('t, 'w) sdm_master \<Rightarrow> (sdm_effect list \<times> ('t, 'w) sdm_master) option" where
  "handle_sdm_reg_app W L N m s =
     do { app_id \<leftarrow> lex_int L (msg_get ''app_id'' m);
          i \<leftarrow> lex_int L (msg_get ''id'' m);
          let (err, w) = wa_reg_app W app_id i (wa_space s);
          let s = s\<lparr>wa_space := w\<rparr>;
          if err \<noteq> 0 then Some ([], s)
          else map_option (\<lambda>(_, es). (es, s)) (send_cmsg N i (smap_put ''type'' SDM_REG_APP_REPLY m) s) }"

definition handle_sdm_put_notification ::
  "'w wa_ops \<Rightarrow> lexer \<Rightarrow> (tid list \<Rightarrow> tid) \<Rightarrow> msg_map \<Rightarrow> ('t, 'w) sdm_master \<Rightarrow> (sdm_effect list \<times> ('t, 'w) sdm_master) option" where
  "handle_sdm_put_notification W L pick m s =
     do { r \<leftarrow> decode_item L m;
          (case r of
             None \<Rightarrow> Some ([], s)
           | Some (ky, ver, l, u) \<Rightarrow> do {
               p \<leftarrow> lex_int L (msg_get ''p_id'' m);
               (_, w) \<leftarrow> wa_put W p (ky, ver) l u (- 1) (wa_space s);
               data_id \<leftarrow> get_data_id (data_id_t s) ky ver l u;
               master_notify pick (blocked_point data_id) (s\<lparr>wa_space := w\<rparr>) }) }"

text \<open>\<open>handle_sdm_squery\<close> once the item is known to be at \<open>ds_id_v\<close>.\<close>

definition squery_move ::
  "lexer \<Rightarrow> net \<Rightarrow> int \<Rightarrow> msg_map \<Rightarrow> string \<Rightarrow> u32 \<Rightarrow> coor \<Rightarrow> coor \<Rightarrow> int list \<Rightarrow> ('t, 'w) sdm_master \<Rightarrow>
     (sdm_effect list \<times> ('t, 'w) sdm_master) option" where
  "squery_move L N to_id m ky ver l u ds_id_v s =
     do { app_id \<leftarrow> lex_int L (msg_get ''app_id'' m);
          from_id \<leftarrow> tsvec_at ds_id_v 0;
          let spawns = [ESpawn (TAccess app_id ky ver l u), ESpawn (TWaitMove from_id to_id m)];
          let mm = smap_put ''to_id'' (msg_get ''id'' m) (smap_put ''id'' (dec_int from_id)
                     (smap_put ''type'' SDM_MOVE (encode_item ky ver l u [])));
          if from_id = master_id s then Some (spawns @ [EDmAct mm], s)
          else map_option (\<lambda>(_, es). (spawns @ es, s)) (send_cmsg N from_id mm s) }"

definition handle_sdm_squery ::
  "'w wa_ops \<Rightarrow> lexer \<Rightarrow> net \<Rightarrow> tid \<Rightarrow> msg_map \<Rightarrow> ('t, 'w) sdm_master \<Rightarrow>
     ('w wait flow \<times> sdm_effect list \<times> ('t, 'w) sdm_master) option" where
  "handle_sdm_squery W L N t m s =
     do { data_id \<leftarrow> get_data_id_msg (data_id_t s) m;
          to_id \<leftarrow> lex_int L (msg_get ''id'' m);
          if data_id \<in> set (moving to_id s)
          then Some (Done 0, [], s\<lparr>ds_id__moving_data_id_v_map := smap_touch [] to_id (ds_id__moving_data_id_v_map s)\<rparr>)
          else
            let s = add_moving to_id data_id s
            in do {
              r \<leftarrow> decode_item L m;
              (case r of
                 None \<Rightarrow> Some (Done 0, [], s)
               | Some (ky, ver, l, u) \<Rightarrow> do {
                   (err, ds_id_v) \<leftarrow> wa_query W (ky, ver) l u [] (wa_space s);
                   if err \<noteq> 0
                   then if \<not> smap_contains ''blocking'' m then Some (Done 0, [], s)
                        else let p = blocked_point data_id
                             in map_option (\<lambda>s. (Sleep p WQuery, [], s)) (master_sleep p t s)
                   else map_option (\<lambda>(es, s). (Done 0, es, s)) (squery_move L N to_id m ky ver l u ds_id_v s) }) } }"

definition handle_sdm_squery_resume ::
  "'w wa_ops \<Rightarrow> lexer \<Rightarrow> net \<Rightarrow> msg_map \<Rightarrow> ('t, 'w) sdm_master \<Rightarrow> (sdm_effect list \<times> ('t, 'w) sdm_master) option" where
  "handle_sdm_squery_resume W L N m s =
     do { data_id \<leftarrow> get_data_id_msg (data_id_t s) m;
          to_id \<leftarrow> lex_int L (msg_get ''id'' m);
          s \<leftarrow> master_awake (blocked_point data_id) s;
          r \<leftarrow> decode_item L m;
          (case r of
             None \<Rightarrow> Some ([], s)
           | Some (ky, ver, l, u) \<Rightarrow> do {
               (err, ds_id_v) \<leftarrow> wa_query W (ky, ver) l u [] (wa_space s);
               if err \<noteq> 0 then Some ([], s)
               else squery_move L N to_id m ky ver l u ds_id_v s }) }"

definition wait_for_move :: "tid \<Rightarrow> msg_map \<Rightarrow> ('t, 'w) sdm_master \<Rightarrow> (u32 \<times> ('t, 'w) sdm_master) option" where
  "wait_for_move t m s =
     do { data_id \<leftarrow> get_data_id_msg (data_id_t s) m;
          let p = sync_point SDM_MOVE data_id;
          map_option (Pair p) (master_sleep p t s) }"

definition wait_for_move_resume ::
  "net \<Rightarrow> int \<Rightarrow> msg_map \<Rightarrow> ('t, 'w) sdm_master \<Rightarrow> (sdm_effect list \<times> ('t, 'w) sdm_master) option" where
  "wait_for_move_resume N to_id m s =
     do { data_id \<leftarrow> get_data_id_msg (data_id_t s) m;
          s \<leftarrow> master_awake (sync_point SDM_MOVE data_id) s;
          v \<leftarrow> erase_find data_id (moving to_id s);
          let s = s\<lparr>ds_id__moving_data_id_v_map := smap_put to_id v (ds_id__moving_data_id_v_map s)\<rparr>;
          if to_id \<noteq> master_id s
          then map_option (\<lambda>(_, es). (es, s)) (send_cmsg N to_id (smap_put ''type'' SDM_SQUERY_REPLY m) s)
          else Some ([], s) }"

definition handle_sdm_move_reply ::
  "lexer \<Rightarrow> (tid list \<Rightarrow> tid) \<Rightarrow> msg_map \<Rightarrow> ('t, 'w) sdm_master \<Rightarrow> (sdm_effect list \<times> ('t, 'w) sdm_master) option" where
  "handle_sdm_move_reply L pick m s =
     do { r \<leftarrow> decode_item L m;
          (case r of
             None \<Rightarrow> Some ([], s)
           | Some (ky, ver, l, u) \<Rightarrow> do {
               data_id \<leftarrow> get_data_id (data_id_t s) ky ver l u;
               master_notify pick (sync_point SDM_MOVE data_id) s }) }"

definition handle_sdm_del_reply ::
  "(tid list \<Rightarrow> tid) \<Rightarrow> msg_map \<Rightarrow> ('t, 'w) sdm_master \<Rightarrow> (sdm_effect list \<times> ('t, 'w) sdm_master) option" where
  "handle_sdm_del_reply pick m s =
     do { data_id \<leftarrow> get_data_id_msg (data_id_t s) m; master_notify pick (sync_point SDM_DEL data_id) s }"

definition handle_sdm_access ::
  "'w wa_ops \<Rightarrow> lexer \<Rightarrow> net \<Rightarrow> tid \<Rightarrow> msg_map \<Rightarrow> ('t, 'w) sdm_master \<Rightarrow>
     ('w wait flow \<times> sdm_effect list \<times> ('t, 'w) sdm_master) option" where
  "handle_sdm_access W L N t m s =
     do { r \<leftarrow> decode_item L m;
          (case r of
             None \<Rightarrow> Some (Done 0, [], s)
           | Some (ky, ver, l, u) \<Rightarrow> do {
               c \<leftarrow> lex_int L (msg_get ''app_id'' m);
               master_add_access W N t c ky ver l u s }) }"

definition master_handle_msg_in ::
  "'t qtable_ops \<Rightarrow> 'w wa_ops \<Rightarrow> lexer \<Rightarrow> net \<Rightarrow> (tid list \<Rightarrow> tid) \<Rightarrow> tid \<Rightarrow> msg_map \<Rightarrow> ('t, 'w) sdm_master \<Rightarrow>
     ('w wait flow \<times> sdm_effect list \<times> ('t, 'w) sdm_master) option" where
  "master_handle_msg_in Q W L N pick t m s =
     (let ty = msg_get ''type'' m; fin = map_option (\<lambda>(es, s). (Done 0, es, s)) in
      if ty = SDM_MQUERY_REPLY then fin (handle_sdm_mquery_reply W L pick m s)
      else if ty = SDM_REG_APP then fin (handle_sdm_reg_app W L N m s)
      else if ty = SDM_PUT_NOTIFICATION then fin (handle_sdm_put_notification W L pick m s)
      else if ty = SDM_SQUERY then handle_sdm_squery W L N t m s
      else if ty = SDM_MOVE_REPLY then fin (handle_sdm_move_reply L pick m s)
      else if ty = SDM_DEL_REPLY then fin (handle_sdm_del_reply pick m s)
      else if ty = SDM_ACCESS then handle_sdm_access W L N t m s
      else fin (slave_handle_msg_in Q L N pick m s))"

end
