(* ===== verification/SDM_Moves.thy ===== *)
theory SDM_Moves
  imports SDM_Master "HOL-Library.Multiset"
begin

text \<open>
  What the master knows of the data movements it has set off. An item on its way to a data space is in the
  list \<open>moving\<close> of that data space; the thread \<open>wait_for_move\<close> that is to take it out again, or the handler
  of a blocked query that is going to start one, owns the entry. Handlers are atomic here: the code takes no
  lock between the search of the list and the insertion.
\<close>

subsection \<open>Owners of the entries\<close>

definition kv_id :: "msg_map \<Rightarrow> string" where
  "kv_id m = msg_get ''key'' m @ ''_'' @ msg_get ''ver'' m"

definition dest :: "int \<times> msg_map \<Rightarrow> int \<times> string" where
  "dest x = (fst x, kv_id (snd x))"

fun mover :: "sdm_effect \<Rightarrow> (int \<times> msg_map) multiset" where
  "mover (ESpawn (TWaitMove _ to_id m)) = {#(to_id, m)#}"
| "mover _ = {#}"

definition movers :: "sdm_effect list \<Rightarrow> (int \<times> msg_map) multiset" where
  "movers es = sum_list (map mover es)"

lemma movers_simps [simp]: "movers [] = {#}" "movers (e # es) = mover e + movers es" "movers (xs @ ys) = movers xs + movers ys"
  by (simp_all add: movers_def)

text \<open>\<open>X\<close> are entries added from \<open>s\<close> to \<open>s'\<close>; none is lost and none doubled.\<close>

definition moved :: "(int \<times> string) multiset \<Rightarrow> ('t, 'w) sdm_master \<Rightarrow> ('t, 'w) sdm_master \<Rightarrow> bool" where
  "moved X s s' \<longleftrightarrow> data_id_t s' = data_id_t s \<and> (\<forall>i. distinct (moving i s) \<longrightarrow> distinct (moving i s')) \<and>
     (\<forall>i d. count_list (moving i s) d + count X (i, d) \<le> count_list (moving i s') d)"

abbreviation claims :: "sdm_effect list \<Rightarrow> ('t, 'w) sdm_master \<Rightarrow> ('t, 'w) sdm_master \<Rightarrow> bool" where
  "claims es \<equiv> moved (image_mset dest (movers es))"

lemma moved_same: "data_id_t s' = data_id_t s \<Longrightarrow> ds_id__moving_data_id_v_map s' = ds_id__moving_data_id_v_map s \<Longrightarrow> moved {#} s s'"
  by (simp add: moved_def moving_def)

lemma moved_trans:
  assumes "moved X s s1" "moved Y s1 s2"
  shows "moved (X + Y) s s2"
proof -
  have "count_list (moving i s) d + (count X (i, d) + count Y (i, d)) \<le> count_list (moving i s2) d" for i d
  proof -
    have "count_list (moving i s) d + count X (i, d) \<le> count_list (moving i s1) d"
      "count_list (moving i s1) d + count Y (i, d) \<le> count_list (moving i s2) d"
      using assms by (simp_all add: moved_def)
    then show ?thesis by linarith
  qed
  with assms show ?thesis by (simp add: moved_def)
qed

lemma moved_pre: "moved {#} s s1 \<Longrightarrow> moved Y s1 s2 \<Longrightarrow> moved Y s s2"
  using moved_trans [of "{#}"] by simp

lemma moved_post: "moved X s s1 \<Longrightarrow> moved {#} s1 s2 \<Longrightarrow> moved X s s2"
  using moved_trans [of X _ _ "{#}"] by simp

lemma moved_weak: "moved {#i#} s s' \<Longrightarrow> moved {#} s s'"
  by (auto simp: moved_def dest: add_leD1)

lemma moved_add: "d \<notin> set (moving i s) \<Longrightarrow> moved {#(i, d)#} s (add_moving i d s)"
  by (auto simp: moved_def add_moving_def moving_def count_list_append count_list_0_iff)

lemma moved_touch: "moved {#} s (s\<lparr>ds_id__moving_data_id_v_map := smap_touch [] i (ds_id__moving_data_id_v_map s)\<rparr>)"
  by (simp add: moved_def moving_def)

text \<open>What the syncer is told changes nothing else.\<close>

definition same_but_syncer :: "('t, 'w) sdm_master \<Rightarrow> ('t, 'w) sdm_master \<Rightarrow> bool" where
  "same_but_syncer s s' \<longleftrightarrow> (\<exists>y. s' = s\<lparr>sdm_m_syncer := y\<rparr>)"

lemma same_but_syncer:
  assumes "same_but_syncer s s'"
  shows "moved {#} s s'" "data_id_t s' = data_id_t s" "wa_space s' = wa_space s" "sl_node s' = sl_node s" "sl_qtable s' = sl_qtable s"
proof -
  obtain y where "s' = s\<lparr>sdm_m_syncer := y\<rparr>" using assms by (auto simp: same_but_syncer_def)
  then show "moved {#} s s'" "data_id_t s' = data_id_t s" "wa_space s' = wa_space s" "sl_node s' = sl_node s" "sl_qtable s' = sl_qtable s"
    by (simp_all add: moved_same)
qed

lemma sleep_frame: "master_sleep p t s = Some s' \<Longrightarrow> same_but_syncer s s'"
  unfolding master_sleep_def same_but_syncer_def by (cases "fall_asleep p t (sdm_m_syncer s)") auto

lemma awake_frame: "master_awake p s = Some s' \<Longrightarrow> same_but_syncer s s'"
  unfolding master_awake_def same_but_syncer_def by (cases "del_sync_point p (sdm_m_syncer s)") auto

lemma notify_frame: "master_notify pick p s = Some (es, s') \<Longrightarrow> same_but_syncer s s' \<and> (\<exists>w. es = wakes w)"
  unfolding master_notify_def same_but_syncer_def by (cases "notify pick p (sdm_m_syncer s)") auto

lemma movers_sends [simp]: "movers (map ESend os) = {#}"
  by (induction os) auto

lemma movers_wakes [simp]: "movers (wakes w) = {#}"
  by (simp add: wakes_def split: option.split)

lemma movers_cmsg: "send_cmsg N i m s = Some (r, es) \<Longrightarrow> movers es = {#}"
  "send_cmsg_to_master N m s = Some (r, es) \<Longrightarrow> movers es = {#}"
  by (auto simp: send_cmsg_def send_cmsg_to_master_def)

lemma kv_ids [simp]: "get_data_id KV_DATA_ID ky ver l u = Some (ky @ ''_'' @ dec (unat ver))"
  "get_data_id_msg KV_DATA_ID m = Some (kv_id m)"
  by (simp_all add: get_data_id_def get_data_id_msg_def kv_id_def)

lemma kv_id_item [simp]: "kv_id (encode_item ky ver l u m) = ky @ ''_'' @ dec (unat ver)"
  by (simp add: kv_id_def encode_item_def encode_msg_map_def msg_get_def)


lemmas frames = sleep_frame [THEN same_but_syncer(1)] awake_frame [THEN same_but_syncer(1)]
  sleep_frame [THEN same_but_syncer(2)] awake_frame [THEN same_but_syncer(2)]

lemma awake_pre: "master_awake p s = Some s1 \<Longrightarrow> moved X s1 s' \<Longrightarrow> moved X s s'"
  using frames(2) moved_pre by blast

lemma notify_claims: "master_notify pick p s = Some (es, s') \<Longrightarrow> claims es s s'"
  using notify_frame [of pick p s es s'] same_but_syncer(1) [of s s'] by auto

lemma space_claims [simp]: "moved X s0 (s\<lparr>wa_space := w\<rparr>) = moved X s0 s" "moved X (s\<lparr>wa_space := w\<rparr>) s' = moved X s s'"
  by (simp_all add: moved_def moving_def)

lemma table_claims [simp]: "moved X s0 (s\<lparr>sl_qtable := q\<rparr>) = moved X s0 s" "moved X (s\<lparr>sl_qtable := q\<rparr>) s' = moved X s s'"
  by (simp_all add: moved_def moving_def)

lemma moved_refl [simp]: "moved {#} s s"
  by (simp add: moved_same)

subsection \<open>Every operation keeps the books\<close>

lemma data_act_claims:
  assumes "handle_wa_space_data_act W N t a s = Some (p, es, s')" "data_id_t s = KV_DATA_ID"
  shows "claims es s s'"
proof -
  obtain act to_id ky ver l u w where a: "a = ((act, to_id, (ky, ver), (l, u)), w)" by (metis surj_pair)
  let ?d = "ky @ ''_'' @ dec (unat ver)"
  show ?thesis
  proof (cases act)
    case ActPrefetch
    show ?thesis
    proof (cases "?d \<in> set (moving to_id s)")
      case True
      then have "p = None \<and> es = [] \<and> s' = s\<lparr>ds_id__moving_data_id_v_map := smap_touch [] to_id (ds_id__moving_data_id_v_map s)\<rparr>"
        using assms ActPrefetch by (simp add: handle_wa_space_data_act_def a Let_def)
      then show ?thesis by (simp add: moved_touch)
    next
      case False
      then have new: "moved {#(to_id, ?d)#} s (add_moving to_id ?d s)" by (rule moved_add)
      from assms ActPrefetch False have
        "s' = add_moving to_id ?d s \<and> (image_mset dest (movers es) = {#(to_id, ?d)#} \<or> movers es = {#})"
        by (auto simp: handle_wa_space_data_act_def a Let_def dest_def bind_eq_Some_conv movers_cmsg split: if_splits prod.splits)
      with new show ?thesis using moved_weak by fastforce
    qed
  next
    case ActDel
    have "movers es = {#} \<and> (s' = s \<or> (\<exists>p. master_sleep p t s = Some s'))"
      using assms ActDel
      by (auto simp: handle_wa_space_data_act_def a Let_def bind_eq_Some_conv movers_cmsg split: if_splits prod.splits)
    then show ?thesis by (auto simp: frames)
  qed
qed

lemma claims_trans: "claims es s s1 \<Longrightarrow> claims es' s1 s2 \<Longrightarrow> claims (es @ es') s s2"
  using moved_trans by (fastforce simp: image_mset_union)

lemma claims_kv: "moved X s s' \<Longrightarrow> data_id_t s = KV_DATA_ID \<Longrightarrow> data_id_t s' = KV_DATA_ID"
  by (simp add: moved_def)

lemma run_acts_claims:
  "run_acts W N t r as s = Some (f, es, s') \<Longrightarrow> data_id_t s = KV_DATA_ID \<Longrightarrow> claims es s s'"
proof (induction W N t r as s arbitrary: f es s' rule: run_acts.induct)
  case (2 W N t r a as s)
  obtain p es1 s1 where act: "handle_wa_space_data_act W N t a s = Some (p, es1, s1)"
    using 2(2) by (auto simp: bind_eq_Some_conv)
  have c1: "claims es1 s s1" by (rule data_act_claims [OF act 2(3)])
  show ?case
  proof (cases p)
    case None
    then obtain es2 where "run_acts W N t r as s1 = Some (f, es2, s')" "es = es1 @ es2"
      using 2(2) act by auto
    then show ?thesis using 2(1) [OF act refl refl None _ claims_kv [OF c1 2(3)]] claims_trans [OF c1] by blast
  next
    case (Some p)
    then show ?thesis using 2(2) act c1 by auto
  qed
qed simp

lemma access_claims:
  "master_add_access W N t c ky ver l u s = Some (f, es, s') \<Longrightarrow> data_id_t s = KV_DATA_ID \<Longrightarrow> claims es s s'"
  using run_acts_claims by (fastforce simp: master_add_access_def bind_eq_Some_conv)

lemma acts_resume_claims:
  "acts_resume W N t p r as s = Some (f, es, s') \<Longrightarrow> data_id_t s = KV_DATA_ID \<Longrightarrow> claims es s s'"
  by (auto simp: acts_resume_def bind_eq_Some_conv frames dest!: run_acts_claims intro: awake_pre)


lemma mquery_move_claims: "mquery_move N t c_id ky ver l u v s = Some (f, es, s') \<Longrightarrow> claims es s s'"
  by (auto simp: mquery_move_def bind_eq_Some_conv Let_def movers_cmsg frames split: if_splits)

lemma mquery_claims: "sdm_mquery W N t b c_id ky ver l u s = Some (f, es, s') \<Longrightarrow> claims es s s'"
  by (auto simp: sdm_mquery_def bind_eq_Some_conv Let_def frames mquery_move_claims split: if_splits)

lemma mquery_resume_claims: "sdm_mquery_resume W N t k c_id ky ver l u s = Some (f, es, s') \<Longrightarrow> claims es s s'"
proof (cases k)
  case WQuery
  assume "sdm_mquery_resume W N t k c_id ky ver l u s = Some (f, es, s')"
  then obtain d s1 where "master_awake (blocked_point d) s = Some s1"
      "es = [] \<and> s' = s1 \<or> (\<exists>v. mquery_move N t c_id ky ver l u v s1 = Some (f, es, s'))"
    by (auto simp: sdm_mquery_resume_def WQuery bind_eq_Some_conv split: if_splits)
  then show ?thesis using awake_pre frames(2) mquery_move_claims by (metis image_mset_empty movers_simps(1))
qed (auto simp: sdm_mquery_resume_def bind_eq_Some_conv frames)

lemma get_finish_claims:
  assumes "claims es s s1" "get_finish Q W N t c_id ky ver l u (f, es, s1) = Some (f', es', s')" "data_id_t s = KV_DATA_ID"
  shows "claims es' s s'"
proof -
  have kv: "data_id_t s1 = KV_DATA_ID" using claims_kv assms(1,3) .
  from assms(2) have "s' = s1 \<and> es' = es \<or>
      (\<exists>f2 es2. master_add_access W N t c_id ky ver l u s1 = Some (f2, es2, s') \<and> es' = es @ es2)"
    by (cases f) (auto simp: get_finish_def split: if_splits)
  then show ?thesis
  proof
    assume "\<exists>f2 es2. master_add_access W N t c_id ky ver l u s1 = Some (f2, es2, s') \<and> es' = es @ es2"
    then obtain f2 es2 where acc: "master_add_access W N t c_id ky ver l u s1 = Some (f2, es2, s')" "es' = es @ es2"
      by blast
    show ?thesis unfolding acc(2) by (rule claims_trans [OF assms(1) access_claims [OF acc(1) kv]])
  qed (simp add: assms(1))
qed

lemma counters_claims [simp]: "moved X (s\<lparr>num_get_req := n\<rparr>) s' = moved X s s'" "moved X (s\<lparr>num_hit := n\<rparr>) s' = moved X s s'"
  by (simp_all add: moved_def moving_def)

lemma get_claims:
  assumes "master_get Q W N t c_id b ky ver l u s = Some (f, es, s')" "data_id_t s = KV_DATA_ID"
  shows "claims es s s'"
proof -
  let ?s = "s\<lparr>num_get_req := num_get_req s + 1\<rparr>"
  have kv: "data_id_t ?s = KV_DATA_ID" "data_id_t (?s\<lparr>num_hit := num_hit ?s + 1\<rparr>) = KV_DATA_ID" using assms(2) by simp_all
  from assms(1) consider "s' = ?s \<and> es = []"
    | f1 es1 s1 where "sdm_mquery W N t b c_id ky ver l u ?s = Some (f1, es1, s1)" "get_finish Q W N t c_id ky ver l u (f1, es1, s1) = Some (f, es, s')"
    | "master_add_access W N t c_id ky ver l u (?s\<lparr>num_hit := num_hit ?s + 1\<rparr>) = Some (f, es, s')"
    by (auto simp: master_get_def Let_def bind_eq_Some_conv split: if_splits)
  then show ?thesis
  proof cases
    case 1
    then show ?thesis by (simp add: moved_same)
  next
    case 2
    then show ?thesis using get_finish_claims [OF mquery_claims [OF 2(1)] 2(2) kv(1)] by simp
  next
    case 3
    then show ?thesis using access_claims [OF 3 kv(2)] by simp
  qed
qed

lemma get_resume_claims:
  "master_get_resume Q W N t k c_id ky ver l u s = Some (f, es, s') \<Longrightarrow> data_id_t s = KV_DATA_ID \<Longrightarrow> claims es s s'"
  by (auto simp: master_get_resume_def bind_eq_Some_conv intro: get_finish_claims mquery_resume_claims)

lemma put_claims: "master_put Q W pick ky ver l u p s = Some (r, es, s') \<Longrightarrow> claims es s s'"
  by (auto simp: master_put_def Let_def bind_eq_Some_conv split: prod.splits if_splits dest!: notify_claims)

lemma reg_app_claims: "master_reg_app W a s = (r, s') \<Longrightarrow> moved {#} s s'"
  by (auto simp: master_reg_app_def moved_same split: if_splits prod.splits)

lemma get_done_claims: "master_notify_remote_get_done pick ky ver l u s = Some (r, es, s') \<Longrightarrow> claims es s s'"
  by (auto simp: master_notify_remote_get_done_def bind_eq_Some_conv notify_claims)

lemma conn_up_claims: "master_handle_conn_up W L m s = Some s' \<Longrightarrow> moved {#} s s'"
  by (auto simp: master_handle_conn_up_def bind_eq_Some_conv moved_same split: if_splits)


subsection \<open>The handlers\<close>

text \<open>A blocked query sleeps on \<open>WQuery\<close>.\<close>

definition asleep :: "lexer \<Rightarrow> 'w wait flow \<Rightarrow> msg_map \<Rightarrow> (int \<times> msg_map) multiset" where
  "asleep L f m = (case f of Sleep p WQuery \<Rightarrow> (case lex_int L (msg_get ''id'' m) of Some i \<Rightarrow> {#(i, m)#} | None \<Rightarrow> {#}) | _ \<Rightarrow> {#})"

lemma asleep_Done [simp]: "asleep L (Done r) m = {#}"
  by (simp add: asleep_def)

lemma run_acts_not_asleep: "run_acts W N t r as s = Some (f, es, s') \<Longrightarrow> asleep L f m = {#}"
proof (induction W N t r as s arbitrary: f es s' rule: run_acts.induct)
  case (2 W N t r a as s)
  obtain p es1 s1 where act: "handle_wa_space_data_act W N t a s = Some (p, es1, s1)"
    using 2(2) by (auto simp: bind_eq_Some_conv)
  then show ?case using 2 by (cases p) (auto simp: asleep_def)
qed simp

lemma access_not_asleep: "master_add_access W N t c ky ver l u s = Some (f, es, s') \<Longrightarrow> asleep L f m = {#}"
  by (auto simp: master_add_access_def bind_eq_Some_conv run_acts_not_asleep)

lemma squery_move_claims:
  assumes "squery_move L N i m ky ver l u v s = Some (es, s')"
  shows "s' = s \<and> movers es = {#(i, m)#}"
  using assms by (auto simp: squery_move_def bind_eq_Some_conv Let_def movers_cmsg split: if_splits)

lemma squery_claims:
  assumes "handle_sdm_squery W L N t m s = Some (f, es, s')" "data_id_t s = KV_DATA_ID"
  shows "moved (image_mset dest (movers es + asleep L f m)) s s'"
proof -
  obtain i where i: "lex_int L (msg_get ''id'' m) = Some i"
    using assms by (auto simp: handle_sdm_squery_def bind_eq_Some_conv)
  show ?thesis
  proof (cases "kv_id m \<in> set (moving i s)")
    case True
    then have "f = Done 0 \<and> es = [] \<and> s' = s\<lparr>ds_id__moving_data_id_v_map := smap_touch [] i (ds_id__moving_data_id_v_map s)\<rparr>"
      using assms i by (simp add: handle_sdm_squery_def)
    then show ?thesis by (simp add: moved_touch)
  next
    case False
    let ?s = "add_moving i (kv_id m) s"
    have new: "moved {#(i, kv_id m)#} s ?s" using False by (rule moved_add)
    from assms i False consider "f = Done 0 \<and> es = [] \<and> s' = ?s"
      | p where "f = Sleep p WQuery \<and> es = []" "master_sleep p t ?s = Some s'"
      | ky ver l u v where "f = Done 0" "squery_move L N i m ky ver l u v ?s = Some (es, s')"
      by (auto simp: handle_sdm_squery_def bind_eq_Some_conv Let_def split: option.splits if_splits prod.splits)
    then show ?thesis
    proof cases
      case 1
      then show ?thesis using moved_weak [OF new] by simp
    next
      case 2
      then show ?thesis using moved_post [OF new frames(1) [OF 2(2)]] i by (simp add: asleep_def dest_def)
    next
      case 3
      then show ?thesis using squery_move_claims [OF 3(2)] new by (simp add: dest_def)
    qed
  qed
qed

lemma squery_resume_claims:
  assumes "handle_sdm_squery_resume W L N m s = Some (es, s')" "data_id_t s = KV_DATA_ID"
    "lex_int L (msg_get ''id'' m) = Some i"
  shows "moved {#} s s' \<and> movers es \<subseteq># {#(i, m)#}"
proof -
  from assms obtain s1 where s1: "master_awake (blocked_point (kv_id m)) s = Some s1"
    "es = [] \<and> s' = s1 \<or> (\<exists>ky ver l u v. squery_move L N i m ky ver l u v s1 = Some (es, s'))"
    by (fastforce simp: handle_sdm_squery_resume_def bind_eq_Some_conv split: option.splits if_splits prod.splits)
  then show ?thesis using frames(2) [OF s1(1)] squery_move_claims by fastforce
qed

lemma reply_claims:
  "handle_sdm_mquery_reply W L pick m s = Some (es, s') \<Longrightarrow> claims es s s'"
  "handle_sdm_reg_app W L N m s = Some (es, s') \<Longrightarrow> claims es s s'"
  "handle_sdm_put_notification W L pick m s = Some (es, s') \<Longrightarrow> claims es s s'"
  "handle_sdm_move_reply L pick m s = Some (es, s') \<Longrightarrow> claims es s s'"
  "handle_sdm_del_reply pick m s = Some (es, s') \<Longrightarrow> claims es s s'"
proof -
  show "claims es s s'" if "handle_sdm_mquery_reply W L pick m s = Some (es, s')"
    using that by (auto simp: handle_sdm_mquery_reply_def bind_eq_Some_conv Let_def split: if_splits option.splits prod.splits
      dest!: notify_claims)
  show "claims es s s'" if "handle_sdm_reg_app W L N m s = Some (es, s')"
    using that by (auto simp: handle_sdm_reg_app_def bind_eq_Some_conv movers_cmsg Let_def split_beta split: if_splits)
  show "claims es s s'" if "handle_sdm_put_notification W L pick m s = Some (es, s')"
    using that by (auto simp: handle_sdm_put_notification_def bind_eq_Some_conv split: option.splits prod.splits
      dest!: notify_claims)
  show "claims es s s'" if "handle_sdm_move_reply L pick m s = Some (es, s')"
    using that by (auto simp: handle_sdm_move_reply_def bind_eq_Some_conv split: option.splits prod.splits intro: notify_claims)
  show "claims es s s'" if "handle_sdm_del_reply pick m s = Some (es, s')"
    using that by (auto simp: handle_sdm_del_reply_def bind_eq_Some_conv intro: notify_claims)
qed

lemma access_msg_claims:
  assumes "handle_sdm_access W L N t m s = Some (f, es, s')" "data_id_t s = KV_DATA_ID"
  shows "claims es s s' \<and> asleep L f m = {#}"
  using assms access_claims access_not_asleep
  by (fastforce simp: handle_sdm_access_def bind_eq_Some_conv split: option.splits)

lemma moved_s_syncer: "moved {#} s (s\<lparr>sdm_s_syncer := y\<rparr>)"
  by (simp add: moved_def moving_def)

lemma mquery_movers:
  assumes "handle_sdm_mquery Q L N m s = Some es"
  shows "movers es = {#}"
proof -
  obtain r where r: "decode_item L m = Some r" using assms by (auto simp: handle_sdm_mquery_def bind_eq_Some_conv)
  show ?thesis
  proof (cases r)
    case (Some x)
    obtain ky ver l u where x: "x = (ky, ver, l, u)" by (metis surj_pair)
    obtain err v where "qt_query Q ky ver l u [] (sl_qtable s) = (err, v)" by fastforce
    then show ?thesis using assms r Some x
      by (cases "err = 0") (auto simp: handle_sdm_mquery_def bind_eq_Some_conv movers_cmsg)
  qed (use assms r in \<open>simp add: handle_sdm_mquery_def\<close>)
qed

lemma slave_msg_claims:
  assumes "slave_handle_msg_in Q L N pick m (s :: ('t, 'w) sdm_master) = Some (es, s')"
  shows "claims es s s'"
proof -
  have "movers es = {#} \<and> (\<exists>y. s' = s\<lparr>sdm_s_syncer := y\<rparr> \<or> s' = s)"
    using assms by (auto simp: slave_handle_msg_in_def Let_def handle_sdm_squery_reply_def mquery_movers
      handle_sdm_reg_app_reply_def handle_sdm_move_def handle_sdm_del_def bind_eq_Some_conv movers_cmsg
      split: if_splits option.splits prod.splits)
  then show ?thesis by (auto simp: moved_s_syncer)
qed

lemma msg_in_claims:
  assumes "master_handle_msg_in Q W L N pick t m s = Some (f, es, s')" "data_id_t s = KV_DATA_ID"
  shows "moved (image_mset dest (movers es + asleep L f m)) s s'"
proof -
  from assms(1) consider "f = Done 0" "handle_sdm_mquery_reply W L pick m s = Some (es, s')"
    | "f = Done 0" "handle_sdm_reg_app W L N m s = Some (es, s')"
    | "f = Done 0" "handle_sdm_put_notification W L pick m s = Some (es, s')"
    | "handle_sdm_squery W L N t m s = Some (f, es, s')"
    | "f = Done 0" "handle_sdm_move_reply L pick m s = Some (es, s')"
    | "f = Done 0" "handle_sdm_del_reply pick m s = Some (es, s')"
    | "handle_sdm_access W L N t m s = Some (f, es, s')"
    | "f = Done 0" "slave_handle_msg_in Q L N pick m s = Some (es, s')"
    by (auto simp: master_handle_msg_in_def Let_def split: if_splits)
  then show ?thesis
  proof cases
    case 4 then show ?thesis by (rule squery_claims [OF _ assms(2)])
  next
    case 7 then show ?thesis using access_msg_claims [OF 7 assms(2)] by simp
  next
    case 8 then show ?thesis using slave_msg_claims by simp
  qed (use reply_claims in simp_all)
qed


text \<open>The thread that waited for the movement takes the entry out; no other entry goes.\<close>

lemma wait_for_move_done:
  assumes "wait_for_move_resume N i m s = Some (es, s')" "data_id_t s = KV_DATA_ID"
  shows "movers es = {#} \<and> data_id_t s' = KV_DATA_ID \<and> kv_id m \<in> set (moving i s) \<and>
    (\<forall>j. moving j s' = (if j = i then remove1 (kv_id m) (moving i s) else moving j s))"
proof -
  from assms obtain s1 where s1: "master_awake (sync_point SDM_MOVE (kv_id m)) s = Some s1"
    and rest: "kv_id m \<in> set (moving i s1)" "movers es = {#}"
      "s' = s1\<lparr>ds_id__moving_data_id_v_map := smap_put i (remove1 (kv_id m) (moving i s1)) (ds_id__moving_data_id_v_map s1)\<rparr>"
    by (auto simp: wait_for_move_resume_def bind_eq_Some_conv erase_find_Some_iff Let_def movers_cmsg split: if_splits)
  obtain y where "s1 = s\<lparr>sdm_m_syncer := y\<rparr>" using awake_frame [OF s1] by (auto simp: same_but_syncer_def)
  then show ?thesis using rest assms(2) by (auto simp: moving_def)
qed

subsection \<open>Runs of the master\<close>

text \<open>
  A state of the master with the \<open>wait_for_move\<close> threads that have been started and have not finished, and the
  queries that are blocked in their handler. Calls and messages come in any order.
\<close>

type_synonym ('t, 'w) config = "('t, 'w) sdm_master \<times> (int \<times> msg_map) multiset \<times> (int \<times> msg_map) multiset"

inductive master_step ::
  "'t qtable_ops \<Rightarrow> 'w wa_ops \<Rightarrow> lexer \<Rightarrow> net \<Rightarrow> (tid list \<Rightarrow> tid) \<Rightarrow> ('t, 'w) config \<Rightarrow> ('t, 'w) config \<Rightarrow> bool"
  for Q W L N pick where
  message: "master_handle_msg_in Q W L N pick t m s = Some (f, es, s') \<Longrightarrow>
    master_step Q W L N pick (s, M, B) (s', movers es + M, asleep L f m + B)"
| query_woken: "lex_int L (msg_get ''id'' m) = Some i \<Longrightarrow> handle_sdm_squery_resume W L N m s = Some (es, s') \<Longrightarrow>
    master_step Q W L N pick (s, M, add_mset (i, m) B) (s', movers es + M, B)"
| move_wait: "wait_for_move t m s = Some (p, s') \<Longrightarrow> master_step Q W L N pick (s, M, B) (s', M, B)"
| move_done: "wait_for_move_resume N i m s = Some (es, s') \<Longrightarrow>
    master_step Q W L N pick (s, add_mset (i, m) M, B) (s', M, B)"
| access: "master_add_access W N t c ky ver l u s = Some (f, es, s') \<Longrightarrow>
    master_step Q W L N pick (s, M, B) (s', movers es + M, B)"
| deleted: "acts_resume W N t p r as s = Some (f, es, s') \<Longrightarrow> master_step Q W L N pick (s, M, B) (s', movers es + M, B)"
| get: "master_get Q W N t c b ky ver l u s = Some (f, es, s') \<Longrightarrow>
    master_step Q W L N pick (s, M, B) (s', movers es + M, B)"
| get_woken: "master_get_resume Q W N t k c ky ver l u s = Some (f, es, s') \<Longrightarrow>
    master_step Q W L N pick (s, M, B) (s', movers es + M, B)"
| put: "master_put Q W pick ky ver l u p_id s = Some (r, es, s') \<Longrightarrow>
    master_step Q W L N pick (s, M, B) (s', movers es + M, B)"
| get_done: "master_notify_remote_get_done pick ky ver l u s = Some (r, es, s') \<Longrightarrow>
    master_step Q W L N pick (s, M, B) (s', movers es + M, B)"
| reg_app: "master_reg_app W a s = (r, s') \<Longrightarrow> master_step Q W L N pick (s, M, B) (s', M, B)"
| conn_up: "master_handle_conn_up W L m s = Some s' \<Longrightarrow> master_step Q W L N pick (s, M, B) (s', M, B)"

text \<open>A Markov master as it was constructed, and what it comes to.\<close>

definition fresh_master :: "'w wa_ops \<Rightarrow> ('t, 'w) sdm_master \<Rightarrow> bool" where
  "fresh_master W s \<longleftrightarrow> (\<exists>i lip lport jlip jlport tab w. master_new W KV_DATA_ID i lip lport jlip jlport tab w = Some s)"

definition master_reach ::
  "'t qtable_ops \<Rightarrow> 'w wa_ops \<Rightarrow> lexer \<Rightarrow> net \<Rightarrow> (tid list \<Rightarrow> tid) \<Rightarrow> ('t, 'w) config \<Rightarrow> bool" where
  "master_reach Q W L N pick c \<longleftrightarrow> (\<exists>s. fresh_master W s \<and> (master_step Q W L N pick)\<^sup>*\<^sup>* (s, {#}, {#}) c)"

lemma reach_step: "master_reach Q W L N pick c \<Longrightarrow> master_step Q W L N pick c c' \<Longrightarrow> master_reach Q W L N pick c'"
  unfolding master_reach_def by (meson rtranclp.rtrancl_into_rtrancl)

definition books_ok :: "('t, 'w) sdm_master \<Rightarrow> (int \<times> msg_map) multiset \<Rightarrow> bool" where
  "books_ok s X \<longleftrightarrow> data_id_t s = KV_DATA_ID \<and> (\<forall>i. distinct (moving i s)) \<and>
     (\<forall>i d. count (image_mset dest X) (i, d) \<le> count_list (moving i s) d)"

lemma books_moved:
  assumes "books_ok s X" "moved (image_mset dest Y) s s'"
  shows "books_ok s' (Y + X)"
proof -
  have "count (image_mset dest (Y + X)) (i, d) \<le> count_list (moving i s') d" for i d
  proof -
    have "count (image_mset dest X) (i, d) \<le> count_list (moving i s) d"
      "count_list (moving i s) d + count (image_mset dest Y) (i, d) \<le> count_list (moving i s') d"
      using assms by (simp_all add: books_ok_def moved_def)
    then show ?thesis by simp
  qed
  with assms show ?thesis by (simp add: books_ok_def moved_def)
qed

lemma books_claims:
  assumes "books_ok s (M + B)" "data_id_t s = KV_DATA_ID \<Longrightarrow> claims es s s'" "movers es + M = M'" "B = B'"
  shows "books_ok s' (M' + B')"
  unfolding assms(3,4) [symmetric]
  using books_moved [OF assms(1), of "movers es"] assms(1,2) by (simp add: books_ok_def ac_simps)

lemma books_less: "books_ok s X \<Longrightarrow> Y \<subseteq># X \<Longrightarrow> books_ok s Y"
  unfolding books_ok_def by (meson image_mset_subseteq_mono le_trans mset_subset_eq_count)

lemma books_done:
  assumes "books_ok s (add_mset (i, m) X)" "wait_for_move_resume N i m s = Some (es, s')"
  shows "books_ok s' X"
proof -
  have kv: "data_id_t s = KV_DATA_ID" using assms(1) by (simp add: books_ok_def)
  note w = wait_for_move_done [OF assms(2) kv]
  have "count (image_mset dest X) (j, d) \<le> count_list (moving j s') d" for j d
  proof -
    have "count (image_mset dest (add_mset (i, m) X)) (j, d) \<le> count_list (moving j s) d"
      using assms(1) unfolding books_ok_def by blast
    then show ?thesis using w by (auto simp: count_list_remove1 dest_def split: if_splits)
  qed
  with w assms(1) show ?thesis by (simp add: books_ok_def)
qed

lemma fresh_books: "fresh_master W s \<Longrightarrow> books_ok s {#}"
  by (auto simp: fresh_master_def master_new_def bind_eq_Some_conv books_ok_def moving_def sdm_slave.defs slave_new_def)

lemma step_books: "master_step Q W L N pick (s, M, B) (s', M', B') \<Longrightarrow> books_ok s (M + B) \<Longrightarrow> books_ok s' (M' + B')"
proof (induction "(s, M, B)" "(s', M', B')" rule: master_step.induct)
  case (message t m f es)
  have "books_ok s' ((movers es + asleep L f m) + (M + B))"
    by (rule books_moved [OF message(4) msg_in_claims [OF message(1)]]) (use message(4) in \<open>simp add: books_ok_def\<close>)
  then show ?case unfolding message(2,3) [symmetric] by (simp add: ac_simps)
next
  case (query_woken m i es)
  then have kv: "data_id_t s = KV_DATA_ID" by (simp add: books_ok_def)
  have r: "moved {#} s s'" "movers es \<subseteq># {#(i, m)#}" using squery_resume_claims [OF query_woken(2) kv query_woken(1)] by auto
  have "books_ok s' (add_mset (i, m) (M + B'))"
    using books_moved [of s "M + B" "{#}" s'] query_woken(5) r(1) by (simp flip: query_woken(3))
  then show ?case unfolding query_woken(4) [symmetric]
    by (rule books_less) (use r(2) in \<open>simp add: add_mset_add_single [of _ "M + B'"] subset_mset.add_right_mono ac_simps\<close>)
next
  case (move_wait t m p)
  then have "moved {#} s s'" by (auto simp: wait_for_move_def bind_eq_Some_conv Let_def frames)
  then show ?case using books_moved [of s "M + B" "{#}"] move_wait by simp
next
  case (move_done i m es)
  then have "books_ok s (add_mset (i, m) (M' + B'))" by (simp flip: move_done(2))
  then show ?case using move_done(1) by (rule books_done)
next
  case (reg_app a r)
  then show ?case using books_moved [of s "M + B" "{#}"] reg_app_claims by fastforce
next
  case (conn_up m)
  then show ?case using books_moved [of s "M + B" "{#}"] conn_up_claims by fastforce
next
  case (access t c ky ver l u f es)
  show ?case by (rule books_claims [OF access(4) access_claims [OF access(1)] access(2,3)])
next
  case (deleted t p r as f es)
  show ?case by (rule books_claims [OF deleted(4) acts_resume_claims [OF deleted(1)] deleted(2,3)])
next
  case (get t c b ky ver l u f es)
  show ?case by (rule books_claims [OF get(4) get_claims [OF get(1)] get(2,3)])
next
  case (get_woken t k c ky ver l u f es)
  show ?case by (rule books_claims [OF get_woken(4) get_resume_claims [OF get_woken(1)] get_woken(2,3)])
next
  case (put ky ver l u p_id r es)
  show ?case by (rule books_claims [OF put(4) put_claims [OF put(1)] put(2,3)])
next
  case (get_done ky ver l u r es)
  show ?case by (rule books_claims [OF get_done(4) get_done_claims [OF get_done(1)] get_done(2,3)])
qed

lemma steps_books:
  assumes "(master_step Q W L N pick)\<^sup>*\<^sup>* (s, M, B) (s', M', B')" "books_ok s (M + B)"
  shows "books_ok s' (M' + B')"
  using assms
proof (induction "(s', M', B')" arbitrary: s' M' B' rule: rtranclp_induct)
  case (step c)
  obtain s1 M1 B1 where "c = (s1, M1, B1)" by (metis surj_pair)
  then show ?case using step step_books by blast
qed simp

lemma master_books: "master_reach Q W L N pick (s, M, B) \<Longrightarrow> books_ok s (M + B)"
  unfolding master_reach_def using steps_books fresh_books by fastforce

subsection \<open>Properties\<close>

lemma count_owners: "size {#x \<in># X. dest x = (i, d)#} = count (image_mset dest X) (i, d)"
  by (induction X) auto

lemma move_done_defined:
  assumes "kv_id m \<in> set (moving i s)" "data_id_t s = KV_DATA_ID" "master_awake (sync_point SDM_MOVE (kv_id m)) s \<noteq> None"
    "send_cmsg N i (smap_put ''type'' SDM_SQUERY_REPLY m) s \<noteq> None"
  shows "wait_for_move_resume N i m s \<noteq> None"
proof -
  obtain s1 where s1: "master_awake (sync_point SDM_MOVE (kv_id m)) s = Some s1" using assms(3) by auto
  then obtain y where y: "s1 = s\<lparr>sdm_m_syncer := y\<rparr>" using awake_frame unfolding same_but_syncer_def by blast
  then have "moving i s1 = moving i s" by (simp add: moving_def)
  moreover have "send_cmsg N i m' (s1\<lparr>ds_id__moving_data_id_v_map := v\<rparr>) = send_cmsg N i m' s" for m' v
    by (simp add: send_cmsg_def y)
  ultimately show ?thesis using assms(1,2,4) s1 by (auto simp: wait_for_move_resume_def Let_def)
qed


text \<open>A run does not touch an entry whose owner it does not know.\<close>

lemma step_frame:
  "master_step Q W L N pick (s, M, B) (s', M', B') \<Longrightarrow> master_step Q W L N pick (s, M + X, B) (s', M' + X, B')"
proof (induction "(s, M, B)" "(s', M', B')" rule: master_step.induct)
  case message
  show ?case unfolding message(2,3) [symmetric] add.assoc by (rule master_step.message [OF message(1)])
next
  case query_woken
  show ?case unfolding query_woken(3,4) [symmetric] add.assoc by (rule master_step.query_woken [OF query_woken(1,2)])
next
  case move_wait
  show ?case unfolding move_wait(2,3) [symmetric] add.assoc by (rule master_step.move_wait [OF move_wait(1)])
next
  case move_done
  show ?case unfolding move_done(2,3) [symmetric] union_mset_add_mset_left by (rule master_step.move_done [OF move_done(1)])
next
  case access
  show ?case unfolding access(2,3) [symmetric] add.assoc by (rule master_step.access [OF access(1)])
next
  case deleted
  show ?case unfolding deleted(2,3) [symmetric] add.assoc by (rule master_step.deleted [OF deleted(1)])
next
  case get
  show ?case unfolding get(2,3) [symmetric] add.assoc by (rule master_step.get [OF get(1)])
next
  case get_woken
  show ?case unfolding get_woken(2,3) [symmetric] add.assoc by (rule master_step.get_woken [OF get_woken(1)])
next
  case put
  show ?case unfolding put(2,3) [symmetric] add.assoc by (rule master_step.put [OF put(1)])
next
  case get_done
  show ?case unfolding get_done(2,3) [symmetric] add.assoc by (rule master_step.get_done [OF get_done(1)])
next
  case reg_app
  show ?case unfolding reg_app(2,3) [symmetric] add.assoc by (rule master_step.reg_app [OF reg_app(1)])
next
  case conn_up
  show ?case unfolding conn_up(2,3) [symmetric] add.assoc by (rule master_step.conn_up [OF conn_up(1)])
qed

lemma steps_frame:
  assumes "(master_step Q W L N pick)\<^sup>*\<^sup>* (s, M, B) (s', M', B')"
  shows "(master_step Q W L N pick)\<^sup>*\<^sup>* (s, M + X, B) (s', M' + X, B')"
  using assms
proof (induction "(s', M', B')" arbitrary: s' M' B' rule: rtranclp_induct)
  case (step c)
  obtain s1 M1 B1 where "c = (s1, M1, B1)" by (metis surj_pair)
  then show ?case using step(2,3) step_frame by (blast intro: rtranclp.rtrancl_into_rtrancl)
qed simp


subsection \<open>A run\<close>

definition sample_ops :: "int mwaspace wa_ops" where
  "sample_ops = mwa_ops int_tops (0, 0) (\<lambda>_ _. 0)"

definition sample_master :: "(int kvtable, int mwaspace) sdm_master" where
  "sample_master = the (do {
     w \<leftarrow> mwaspace_new [] MALGO_W_LZ 2 True True;
     master_new sample_ops KV_DATA_ID 0 ''10.0.0.1'' 7000 '''' 0 [] w })"

definition slave_up :: msg_map where
  "slave_up = [(''id'', ''1''), (''node_type'', ''s'')]"

definition sample_query :: msg_map where
  "sample_query = encode_item ''a'' 0 [0, 0, 0] [1, 1, 1] [(''app_id'', ''20''), (''id'', ''1''), (''type'', SDM_SQUERY)]"

definition with_slave :: "(int kvtable, int mwaspace) sdm_master" where
  "with_slave = snd (master_reg_app sample_ops 10 (the (master_handle_conn_up sample_ops std_lexer slave_up sample_master)))"

definition with_item :: "(int kvtable, int mwaspace) sdm_master" where
  "with_item = (case the (master_put kvt_ops sample_ops hd ''a'' 0 [0, 0, 0] [1, 1, 1] 10 with_slave) of (r, es, s) \<Rightarrow> s)"

lemma sample_moves:
  "map_option data_id_t (do { w \<leftarrow> mwaspace_new [] MALGO_W_LZ 2 True True;
     master_new sample_ops KV_DATA_ID 0 ''10.0.0.1'' 7000 '''' 0 ([] :: int kvtable) w }) = Some KV_DATA_ID"
  "map_option data_id_t (master_handle_conn_up sample_ops std_lexer slave_up sample_master) = Some KV_DATA_ID"
  "map_option (\<lambda>(r, es, s). (r, es)) (master_put kvt_ops sample_ops hd ''a'' 0 [0, 0, 0] [1, 1, 1] 10 with_slave) = Some (0, [])"
  "map_option (\<lambda>(f, es, s). (case f of Done r \<Rightarrow> r | _ \<Rightarrow> 1, movers es, moving 1 s))
     (master_handle_msg_in kvt_ops sample_ops std_lexer all_up hd 0 sample_query with_item) =
   Some (0, {#(1, sample_query)#}, [''a_0''])"
  by code_simp+


lemma with_item_reach: "master_reach kvt_ops sample_ops std_lexer N hd (with_item, {#}, {#})"
proof -
  let ?reach = "\<lambda>s. master_reach kvt_ops sample_ops std_lexer N hd (s, {#}, {#})"
  from sample_moves(1) obtain w z where w: "mwaspace_new [] MALGO_W_LZ 2 True True = Some w"
      "master_new sample_ops KV_DATA_ID 0 ''10.0.0.1'' 7000 '''' 0 ([] :: int kvtable) w = Some z"
    by (auto simp: bind_eq_Some_conv)
  then have "z = sample_master" by (simp add: sample_master_def)
  with w have "fresh_master sample_ops sample_master" unfolding fresh_master_def by blast
  then have start: "?reach sample_master" unfolding master_reach_def by blast
  obtain s where up: "master_handle_conn_up sample_ops std_lexer slave_up sample_master = Some s"
    using sample_moves(2) by auto
  have "?reach with_slave"
    by (rule reach_step [OF reach_step [OF start master_step.conn_up [OF up]] master_step.reg_app [of sample_ops 10]])
      (simp add: with_slave_def up prod_eq_iff)
  moreover obtain r es where "master_put kvt_ops sample_ops hd ''a'' 0 [0, 0, 0] [1, 1, 1] 10 with_slave = Some (r, es, with_item)"
      "es = []"
    using sample_moves(3) by (auto simp: with_item_def)
  ultimately show ?thesis using reach_step [OF _ master_step.put] by fastforce
qed


definition early_query :: msg_map where
  "early_query = encode_item ''b'' 0 [0, 0, 0] [1, 1, 1] [(''app_id'', ''20''), (''id'', ''1''), (''type'', SDM_SQUERY)]"

lemma early_query_facts:
  "lex_int std_lexer (msg_get ''id'' early_query) = Some 1 \<and> kv_id early_query = ''b_0'' \<and>
   kv_id early_query \<notin> set (moving 1 with_item) \<and>
   decode_item std_lexer early_query = Some (Some (''b'', 0, [0, 0, 0], [1, 1, 1])) \<and> \<not> smap_contains ''blocking'' early_query \<and>
   wa_query sample_ops (''b'', 0) [0, 0, 0] [1, 1, 1] [] (wa_space with_item) = Some (1, [])"
  by code_simp


end
