(* ===== verification/SDM_Exchange.thy ===== *)
theory SDM_Exchange
  imports SDM_Moves
begin

text \<open>
  The protocol between the processes: a slave's \<open>get\<close> of an item that is elsewhere, from the call to its return,
  through the handlers of the master and of the slave; and a query that blocks until somebody puts the item.
\<close>

subsection \<open>One thread on a sync point\<close>

definition sleeper :: "'p::linorder \<Rightarrow> tid \<Rightarrow> 'p syncer \<Rightarrow> bool" where
  "sleeper p t y \<longleftrightarrow> map_of (point_cv_map y) p = Some (Some [t]) \<and> map_of (point__num_peers_map y) p = Some 1 \<and>
     smap_contains p (point_m_map y)"

definition roused :: "'p::linorder \<Rightarrow> 'p syncer \<Rightarrow> bool" where
  "roused p y \<longleftrightarrow> map_of (point_cv_map y) p = Some (Some []) \<and> smap_contains p (point__num_peers_map y) \<and>
     smap_contains p (point_m_map y)"

lemma asleep_alone:
  assumes "\<not> smap_contains p (point_cv_map y)"
  obtains y' where "fall_asleep p t y = Some y'" "sleeper p t y'"
  using that assms by (auto simp: fall_asleep_def sync_wait_def add_sync_point_def sleeper_def)

lemma sleeper_notified:
  assumes "sleeper p t y" "pick [t] = t"
  obtains y' where "notify pick p y = Some (0, Some t, y')" "roused p y'"
proof -
  have "smap_get 0 p (point__num_peers_map y) = 1" "smap_get None p (point_cv_map y) = Some [t]"
    "smap_contains p (point_cv_map y)" "smap_contains p (point__num_peers_map y)"
    using assms by (auto simp: sleeper_def smap_get_def smap_contains_def)
  then have "notify pick p y = Some (0, Some t, y\<lparr>point_cv_map := smap_put p (Some []) (point_cv_map y)\<rparr>)"
    using assms(2) by (simp add: notify_def tsmap_at_def)
  moreover have "roused p (y\<lparr>point_cv_map := smap_put p (Some []) (point_cv_map y)\<rparr>)"
    using assms by (auto simp: sleeper_def roused_def smap_contains_def)
  ultimately show ?thesis using that by blast
qed

lemma roused_deletes: "roused p y \<Longrightarrow> \<exists>y'. del_sync_point p y = Some (0, y')"
  by (auto simp: roused_def del_sync_point_def smap_get_def smap_contains_def tsmap_del_def)

subsection \<open>Messages between connected nodes\<close>

definition linked :: "net \<Rightarrow> sdm_node \<Rightarrow> int \<Rightarrow> bool" where
  "linked N n j \<longleftrightarrow> (\<exists>c. map_of (peer_id__client_map (nd_commer n)) j = Some c \<and> cl_connected c \<and> \<not> cl_closed c \<and>
     send_ok N (cl_lip c) (cl_lport c))"

lemma cmsg_sent:
  assumes "linked N (sl_node s) j"
  obtains o1 where "send_cmsg N j m s = Some (0, [ESend o1])" "o_type o1 = PACKET_CMSG" "o_map o1 = gen_packet m (sl_node s)"
  using that assms by (auto simp: linked_def send_cmsg_def send_msg_def send_to_peer_def client_send_def)

lemma cmsg_sent_to_master:
  assumes "linked N (sl_node s) (sdm_master_id (sl_node s))" "sdm_master_id (sl_node s) \<noteq> - 1"
  obtains o1 where "send_cmsg_to_master N m s = Some (0, [ESend o1])" "o_type o1 = PACKET_CMSG"
    "o_map o1 = gen_packet m (sl_node s)"
  using that assms by (auto simp: linked_def send_cmsg_to_master_def send_msg_to_master_def send_msg_def send_to_peer_def client_send_def)

text \<open>The item a message carries survives the fields added for the way.\<close>

definition carries :: "msg_map \<Rightarrow> string \<Rightarrow> u32 \<Rightarrow> coor \<Rightarrow> coor \<Rightarrow> bool" where
  "carries m ky ver l u \<longleftrightarrow> msg_get ''ndim'' m = dec_int (int NDIM) \<and> msg_get ''key'' m = ky \<and> msg_get ''ver'' m = dec (unat ver) \<and>
     msg_get ''lb_'' m = arr_to_str l \<and> msg_get ''ub_'' m = arr_to_str u"

lemma item_carries: "length l = NDIM \<Longrightarrow> length u = NDIM \<Longrightarrow> carries (encode_item ky ver l u m) ky ver l u"
  by (simp add: carries_def encode_item_def encode_msg_map_def msg_get_def)

lemma carries_packet [simp]: "carries (gen_packet m n) ky ver l u = carries m ky ver l u"
  by (simp add: carries_def gen_packet_def msg_get_def)

lemma carries_put [simp]:
  "k \<notin> {''ndim'', ''key'', ''ver'', ''lb_'', ''ub_''} \<Longrightarrow> carries (smap_put k v m) ky ver l u = carries m ky ver l u"
  by (auto simp: carries_def msg_get_def)

lemma carries_kv_id: "carries m ky ver l u \<Longrightarrow> kv_id m = ky @ ''_'' @ dec (unat ver)"
  by (simp add: carries_def kv_id_def)

lemma carries_decoded:
  assumes "carries m ky ver l u" "lexer_ok L" "length l = NDIM" "length u = NDIM"
  shows "decode_item L m = Some (Some (ky, ver, l, u))"
proof -
  have ne: "l \<noteq> []" "u \<noteq> []" using assms(3,4) by (auto simp: NDIM_def)
  have "lex_int L (dec_int (int NDIM)) = Some (int NDIM)" by (rule lex_ndim [OF assms(2)]) (simp add: NDIM_def)
  moreover have "lex_u32 L (dec (unat ver)) = Some ver" using assms(2) by (simp add: lexer_ok_def)
  ultimately show ?thesis
    using assms(1,3,4) decode_coors_print [OF assms(2-4)] tokens_arr [OF assms(2) ne(1)] tokens_arr [OF assms(2) ne(2)]
    by (simp add: decode_item_def decode_msg_map_def carries_def)
qed


subsection \<open>A get of an item that is elsewhere\<close>

definition point_free :: "u32 \<Rightarrow> u32 syncer \<Rightarrow> bool" where
  "point_free p y \<longleftrightarrow> \<not> smap_contains p (point_cv_map y)"

definition item_id :: "string \<Rightarrow> u32 \<Rightarrow> string" where
  "item_id ky ver = ky @ ''_'' @ dec (unat ver)"

lemma kv_item [simp]: "get_data_id KV_DATA_ID ky ver l u = Some (item_id ky ver)"
  by (simp add: item_id_def)

declare kv_ids(1) [simp del]

text \<open>The miss: the query goes out and the thread sleeps.\<close>

lemma get_miss:
  assumes "fst (qt_query Q ky ver l u [] (sl_qtable s)) \<noteq> 0" "data_id_t s = KV_DATA_ID"
    and "linked N (sl_node s) (sdm_master_id (sl_node s))" "sdm_master_id (sl_node s) \<noteq> - 1"
    and "point_free (sync_point SDM_SQUERY (item_id ky ver)) (sdm_s_syncer s)" "length l = NDIM" "length u = NDIM"
  obtains o1 s1 where "slave_get Q N t app_id b ky ver l u s = Some (Sleep (sync_point SDM_SQUERY (item_id ky ver)) (), [ESend o1], s1)"
    "carries (o_map o1) ky ver l u" "msg_get ''id'' (o_map o1) = dec_int (nd_id (sl_node s))"
    "msg_get ''type'' (o_map o1) = SDM_SQUERY" "msg_get ''app_id'' (o_map o1) = dec_int app_id"
    "smap_contains ''blocking'' (o_map o1) = b"
    "sleeper (sync_point SDM_SQUERY (item_id ky ver)) t (sdm_s_syncer s1)" "data_id_t s1 = KV_DATA_ID" "sl_node s1 = sl_node s"
proof -
  let ?s = "s\<lparr>num_get_req := num_get_req s + 1\<rparr>" and ?p = "sync_point SDM_SQUERY (item_id ky ver)"
  define m where "m = smap_put ''app_id'' (dec_int app_id) (smap_put ''type'' SDM_SQUERY [])"
  define mb where "mb = (if b then smap_put ''blocking'' [] m else m)"
  obtain o1 where o: "send_cmsg_to_master N (encode_item ky ver l u mb) ?s = Some (0, [ESend o1])"
      "o_map o1 = gen_packet (encode_item ky ver l u mb) (sl_node ?s)"
    using cmsg_sent_to_master [of N ?s] assms(3,4) by (metis (no_types, lifting) sdm_slave.select_convs(1) sdm_slave.surjective sdm_slave.update_convs(6))
  obtain y where y: "fall_asleep ?p t (sdm_s_syncer s) = Some y" "sleeper ?p t y"
    using asleep_alone [of ?p "sdm_s_syncer s" t] assms(5) unfolding point_free_def by blast
  show ?thesis
  proof (rule that)
    show "slave_get Q N t app_id b ky ver l u s = Some (Sleep ?p (), [ESend o1], ?s\<lparr>sdm_s_syncer := y\<rparr>)"
      using assms(1,2) o y by (cases b) (simp_all add: slave_get_def Let_def m_def mb_def)
    show "carries (o_map o1) ky ver l u" using o(2) item_carries [OF assms(6,7)] by simp
    show "msg_get ''id'' (o_map o1) = dec_int (nd_id (sl_node s))" using o(2) by (simp add: gen_packet_def msg_get_def)
    show "msg_get ''type'' (o_map o1) = SDM_SQUERY" "msg_get ''app_id'' (o_map o1) = dec_int app_id"
      "smap_contains ''blocking'' (o_map o1) = b"
      using o(2) by (simp_all add: gen_packet_def msg_get_def encode_item_def encode_msg_map_def mb_def m_def smap_get_def smap_contains_def)
  qed (use y assms(2) in simp_all)
qed


text \<open>The master has the item moved and starts the thread that waits for it.\<close>

lemma query_starts_move:
  assumes "carries m ky ver l u" "msg_get ''type'' m = SDM_SQUERY" "lex_int L (msg_get ''id'' m) = Some i"
    and "lex_int L (msg_get ''app_id'' m) = Some a" "lexer_ok L" "length l = NDIM" "length u = NDIM"
    and "data_id_t ms = KV_DATA_ID" "item_id ky ver \<notin> set (moving i ms)"
    and "wa_query W (ky, ver) l u [] (wa_space ms) = Some (0, from # v)" "from \<noteq> master_id ms" "linked N (sl_node ms) from"
  obtains o2 where "master_handle_msg_in Q W L N pick t m ms =
      Some (Done 0, [ESpawn (TAccess a ky ver l u), ESpawn (TWaitMove from i m), ESend o2], add_moving i (item_id ky ver) ms)"
    "msg_get ''type'' (o_map o2) = SDM_MOVE" "msg_get ''to_id'' (o_map o2) = msg_get ''id'' m" "carries (o_map o2) ky ver l u"
proof -
  let ?ms = "add_moving i (item_id ky ver) ms"
  let ?mm = "smap_put ''to_id'' (msg_get ''id'' m) (smap_put ''id'' (dec_int from) (smap_put ''type'' SDM_MOVE (encode_item ky ver l u [])))"
  have id: "kv_id m = item_id ky ver" using carries_kv_id [OF assms(1)] by (simp add: item_id_def)
  have ms: "sl_node ?ms = sl_node ms" "wa_space ?ms = wa_space ms" "master_id ?ms = master_id ms"
    by (simp_all add: add_moving_def master_id_def)
  have "linked N (sl_node ?ms) from" using assms(12) ms(1) by simp
  then obtain o2 where o: "send_cmsg N from ?mm ?ms = Some (0, [ESend o2])" "o_map o2 = gen_packet ?mm (sl_node ?ms)"
    by (rule cmsg_sent)
  have sq: "squery_move L N i m ky ver l u (from # v) ?ms =
      Some ([ESpawn (TAccess a ky ver l u), ESpawn (TWaitMove from i m), ESend o2], ?ms)"
    using assms(4,11) o(1) ms(3) by (simp add: squery_move_def tsvec_at_def Let_def)
  have dt: "data_id_t ?ms = KV_DATA_ID" using assms(8) by (simp add: add_moving_def)
  have h: "handle_sdm_squery W L N t m ms =
      Some (Done 0, [ESpawn (TAccess a ky ver l u), ESpawn (TWaitMove from i m), ESend o2], ?ms)"
    using assms(3,8,9,10) carries_decoded [OF assms(1,5,6,7)] sq ms(2) by (simp add: handle_sdm_squery_def id Let_def)
  show ?thesis
  proof (rule that)
    show "master_handle_msg_in Q W L N pick t m ms =
      Some (Done 0, [ESpawn (TAccess a ky ver l u), ESpawn (TWaitMove from i m), ESend o2], ?ms)"
      using h assms(2) by (simp add: master_handle_msg_in_def sdm_types)
    show "msg_get ''type'' (o_map o2) = SDM_MOVE" "msg_get ''to_id'' (o_map o2) = msg_get ''id'' m"
      using o(2) by (simp_all add: gen_packet_def msg_get_def)
    show "carries (o_map o2) ky ver l u" using o(2) item_carries [OF assms(6,7)] by simp
  qed
qed

text \<open>The waiting thread, the reply that wakes it, and what it does then.\<close>

lemma waits_for_move:
  assumes "carries m ky ver l u" "data_id_t ms = KV_DATA_ID" "point_free (sync_point SDM_MOVE (item_id ky ver)) (sdm_m_syncer ms)"
  obtains y where "wait_for_move t m ms = Some (sync_point SDM_MOVE (item_id ky ver), ms\<lparr>sdm_m_syncer := y\<rparr>)"
    "sleeper (sync_point SDM_MOVE (item_id ky ver)) t y"
proof -
  obtain y where "fall_asleep (sync_point SDM_MOVE (item_id ky ver)) t (sdm_m_syncer ms) = Some y"
      "sleeper (sync_point SDM_MOVE (item_id ky ver)) t y"
    using asleep_alone assms(3) unfolding point_free_def by blast
  then show ?thesis
    using that assms(2) carries_kv_id [OF assms(1)] by (simp add: wait_for_move_def master_sleep_def item_id_def Let_def)
qed

lemma move_reply_wakes:
  assumes "carries mr ky ver l u" "msg_get ''type'' mr = SDM_MOVE_REPLY" "lexer_ok L" "length l = NDIM" "length u = NDIM"
    and "data_id_t ms = KV_DATA_ID" "sleeper (sync_point SDM_MOVE (item_id ky ver)) t (sdm_m_syncer ms)" "pick [t] = t"
  obtains y where "master_handle_msg_in Q W L N pick t' mr ms = Some (Done 0, [EWake t], ms\<lparr>sdm_m_syncer := y\<rparr>)"
    "roused (sync_point SDM_MOVE (item_id ky ver)) y"
proof -
  obtain y where "notify pick (sync_point SDM_MOVE (item_id ky ver)) (sdm_m_syncer ms) = Some (0, Some t, y)"
      "roused (sync_point SDM_MOVE (item_id ky ver)) y"
    using sleeper_notified [OF assms(7), of pick] assms(8) by blast
  then show ?thesis
    using that assms(2,6) carries_decoded [OF assms(1,3,4,5)]
    by (simp add: master_handle_msg_in_def handle_sdm_move_reply_def master_notify_def wakes_def sdm_types)
qed

lemma wait_over:
  assumes "carries m ky ver l u" "data_id_t ms = KV_DATA_ID" "roused (sync_point SDM_MOVE (item_id ky ver)) (sdm_m_syncer ms)"
    and "item_id ky ver \<in> set (moving i ms)" "i \<noteq> master_id ms" "linked N (sl_node ms) i"
  obtains o3 ms' where "wait_for_move_resume N i m ms = Some ([ESend o3], ms')" "msg_get ''type'' (o_map o3) = SDM_SQUERY_REPLY"
    "carries (o_map o3) ky ver l u" "moving i ms' = remove1 (item_id ky ver) (moving i ms)"
proof -
  have id: "kv_id m = item_id ky ver" using carries_kv_id [OF assms(1)] by (simp add: item_id_def)
  obtain y where "del_sync_point (sync_point SDM_MOVE (item_id ky ver)) (sdm_m_syncer ms) = Some (0, y)"
    using roused_deletes [OF assms(3)] by blast
  then have awake: "master_awake (sync_point SDM_MOVE (item_id ky ver)) ms = Some (ms\<lparr>sdm_m_syncer := y\<rparr>)"
    by (simp add: master_awake_def)
  let ?v = "smap_put i (remove1 (item_id ky ver) (moving i ms)) (ds_id__moving_data_id_v_map ms)"
  let ?ms = "ms\<lparr>sdm_m_syncer := y, ds_id__moving_data_id_v_map := ?v\<rparr>"
  have "linked N (sl_node ?ms) i" using assms(6) by simp
  then obtain o3 where o: "send_cmsg N i (smap_put ''type'' SDM_SQUERY_REPLY m) ?ms = Some (0, [ESend o3])"
      "o_map o3 = gen_packet (smap_put ''type'' SDM_SQUERY_REPLY m) (sl_node ?ms)"
    by (rule cmsg_sent)
  show ?thesis
  proof (rule that)
    show "wait_for_move_resume N i m ms = Some ([ESend o3], ?ms)"
      using assms(2,4,5) awake o(1) by (simp add: wait_for_move_resume_def id Let_def moving_def master_id_def)
    show "msg_get ''type'' (o_map o3) = SDM_SQUERY_REPLY" using o(2) by (simp add: gen_packet_def msg_get_def)
    show "carries (o_map o3) ky ver l u" using o(2) assms(1) by simp
    show "moving i ?ms = remove1 (item_id ky ver) (moving i ms)" by (simp add: moving_def)
  qed
qed


text \<open>The slave tells the master that the item has come, and goes on when the master's reply comes.\<close>

lemma get_done_sent:
  assumes "linked N (sl_node s) (sdm_master_id (sl_node s))" "sdm_master_id (sl_node s) \<noteq> - 1" "length l = NDIM" "length u = NDIM"
  obtains o1 where "slave_notify_remote_get_done N ky ver l u s = Some (0, [ESend o1])" "carries (o_map o1) ky ver l u"
    "msg_get ''type'' (o_map o1) = SDM_MOVE_REPLY"
proof -
  obtain o1 where "send_cmsg_to_master N (smap_put ''type'' SDM_MOVE_REPLY (encode_item ky ver l u [])) s = Some (0, [ESend o1])"
      "o_map o1 = gen_packet (smap_put ''type'' SDM_MOVE_REPLY (encode_item ky ver l u [])) (sl_node s)"
    using cmsg_sent_to_master [OF assms(1,2)] by metis
  then show ?thesis
    using that item_carries [OF assms(3,4)] by (simp add: slave_notify_remote_get_done_def gen_packet_def [of _ "sl_node s"] msg_get_def)
qed

lemma get_returns:
  assumes "carries m ky ver l u" "msg_get ''type'' m = SDM_SQUERY_REPLY" "data_id_t s = KV_DATA_ID"
    and "sleeper (sync_point SDM_SQUERY (item_id ky ver)) t (sdm_s_syncer s)" "pick [t] = t"
    and "fst (qt_query Q ky ver l u [] (sl_qtable s)) = 0"
  obtains s2 s3 where "slave_handle_msg_in Q L N pick m s = Some ([EWake t], s2)" "slave_get_resume Q ky ver l u s2 = Some (0, s3)"
proof -
  have id: "kv_id m = item_id ky ver" using carries_kv_id [OF assms(1)] by (simp add: item_id_def)
  obtain y where y: "notify pick (sync_point SDM_SQUERY (item_id ky ver)) (sdm_s_syncer s) = Some (0, Some t, y)"
      "roused (sync_point SDM_SQUERY (item_id ky ver)) y"
    using sleeper_notified [OF assms(4), of pick] assms(5) by blast
  obtain y' where y': "del_sync_point (sync_point SDM_SQUERY (item_id ky ver)) y = Some (0, y')"
    using roused_deletes [OF y(2)] by blast
  show ?thesis
  proof (rule that)
    show "slave_handle_msg_in Q L N pick m s = Some ([EWake t], s\<lparr>sdm_s_syncer := y\<rparr>)"
      using assms(2,3) y(1) by (simp add: slave_handle_msg_in_def handle_sdm_squery_reply_def id wakes_def sdm_types)
    show "slave_get_resume Q ky ver l u (s\<lparr>sdm_s_syncer := y\<rparr>) = Some (0, s\<lparr>sdm_s_syncer := y'\<rparr>)"
      using assms(3,6) y' by (simp add: slave_get_resume_def)
  qed
qed



text \<open>Data space 2 asks for an item of data space 1.\<close>

definition hd_nat :: "nat list \<Rightarrow> nat" where
  "hd_nat ts = (case ts of [] \<Rightarrow> 0 | t # _ \<Rightarrow> t)"

definition asking_slave :: "int kvtable sdm_slave" where
  "asking_slave = (msdm_slave_new 2 ''10.0.0.3'' 7002 ''10.0.0.1'' 7000)
     \<lparr>sl_node := (node_new ''s'' False 2 ''10.0.0.3'' 7002 ''10.0.0.1'' 7000)
        \<lparr>nd_commer := snd (add_peer all_up 0 ''peer_0'' ''10.0.0.1'' 7000 commer_new), sdm_master_id := 0\<rparr>\<rparr>"

definition asked_master :: "(int kvtable, int mwaspace) sdm_master" where
  "asked_master = sample_master
     \<lparr>sl_node := (node_new ''m'' False 0 ''10.0.0.1'' 7000 '''' 0)
        \<lparr>nd_commer := snd (add_peer all_up 1 ''peer_1'' ''10.0.0.2'' 7001
           (snd (add_peer all_up 2 ''peer_2'' ''10.0.0.3'' 7002 commer_new)))\<rparr>, wa_space := sample_space\<rparr>"

lemma add_peer_client:
  "\<not> smap_contains i (peer_id__peer_info_map c) \<Longrightarrow> peer_id__client_map (snd (add_peer all_up i nm lip lport c)) =
     smap_put i (client_new nm lip lport\<lparr>cl_connected := True\<rparr>) (peer_id__client_map c)"
  by (simp add: add_peer_def all_up_def client_connect_def client_new_def)

lemma asked_facts:
  "wa_query sample_ops (''a'', 0) [0, 0, 0] [1, 1, 1] [] (wa_space asked_master) = Some (0, [1]) \<and>
   data_id_t asked_master = KV_DATA_ID \<and> master_id asked_master = 0 \<and>
   item_id ''a'' 0 \<notin> set (moving 2 asked_master) \<and> fst (kvt_query ''a'' 0 [0, 0, 0] [1, 1, 1] [] []) \<noteq> 0 \<and>
   fst (kvt_query ''a'' 0 [0, 0, 0] [1, 1, 1] [] (snd (kvt_add ''a'' 0 [0, 0, 0] [1, 1, 1] (- 1) []))) = 0"
  by code_simp


lemma asked_links:
  "linked all_up (sl_node asking_slave) 0" "linked all_up (sl_node asked_master) 1" "linked all_up (sl_node asked_master) 2"
  by (simp_all add: linked_def asking_slave_def asked_master_def add_peer_client commer_new_def node_new_def client_new_def
      add_peer_def all_up_def client_connect_def smap_contains_def)



subsection \<open>A query that waits for the item to be put\<close>

text \<open>The put of a slave that notifies: the master learns of the item.\<close>

lemma put_sent:
  assumes "linked N (sl_node s) (sdm_master_id (sl_node s))" "sdm_master_id (sl_node s) \<noteq> - 1" "length l = NDIM" "length u = NDIM"
  obtains o1 s1 where "slave_put Q N True ky ver l u p_id s = Some (0, [ESend o1], s1)" "carries (o_map o1) ky ver l u"
    "msg_get ''type'' (o_map o1) = SDM_PUT_NOTIFICATION" "msg_get ''p_id'' (o_map o1) = dec_int p_id"
proof -
  let ?s = "s\<lparr>sl_qtable := snd (qt_add Q ky ver l u p_id (sl_qtable s))\<rparr>"
  define m where "m = smap_put ''p_id'' (dec_int p_id) (smap_put ''type'' SDM_PUT_NOTIFICATION [])"
  have "linked N (sl_node ?s) (sdm_master_id (sl_node ?s))" "sdm_master_id (sl_node ?s) \<noteq> - 1" using assms(1,2) by simp_all
  then obtain o1 where o: "send_cmsg_to_master N (encode_item ky ver l u m) ?s = Some (0, [ESend o1])"
      "o_map o1 = gen_packet (encode_item ky ver l u m) (sl_node ?s)"
    using cmsg_sent_to_master by metis
  show ?thesis
  proof (rule that)
    show "slave_put Q N True ky ver l u p_id s = Some (0, [ESend o1], ?s)"
      using o(1) by (simp add: slave_put_def Let_def m_def)
    show "carries (o_map o1) ky ver l u" using o(2) item_carries [OF assms(3,4)] by simp
    show "msg_get ''type'' (o_map o1) = SDM_PUT_NOTIFICATION" "msg_get ''p_id'' (o_map o1) = dec_int p_id"
      using o(2) by (simp_all add: gen_packet_def msg_get_def encode_item_def encode_msg_map_def m_def smap_get_def)
  qed
qed

lemma query_blocks:
  assumes "carries m ky ver l u" "msg_get ''type'' m = SDM_SQUERY" "lex_int L (msg_get ''id'' m) = Some i"
    and "lexer_ok L" "length l = NDIM" "length u = NDIM" "smap_contains ''blocking'' m"
    and "data_id_t ms = KV_DATA_ID" "item_id ky ver \<notin> set (moving i ms)"
    and "wa_query W (ky, ver) l u [] (wa_space ms) = Some (err, v)" "err \<noteq> 0"
    and "point_free (blocked_point (item_id ky ver)) (sdm_m_syncer ms)"
  obtains y where "master_handle_msg_in Q W L N pick t m ms =
      Some (Sleep (blocked_point (item_id ky ver)) WQuery, [], (add_moving i (item_id ky ver) ms)\<lparr>sdm_m_syncer := y\<rparr>)"
    "sleeper (blocked_point (item_id ky ver)) t y"
proof -
  let ?ms = "add_moving i (item_id ky ver) ms"
  have id: "kv_id m = item_id ky ver" using carries_kv_id [OF assms(1)] by (simp add: item_id_def)
  obtain y where y: "fall_asleep (blocked_point (item_id ky ver)) t (sdm_m_syncer ms) = Some y"
      "sleeper (blocked_point (item_id ky ver)) t y"
    using asleep_alone assms(12) unfolding point_free_def by blast
  have ms: "wa_space ?ms = wa_space ms" "sdm_m_syncer ?ms = sdm_m_syncer ms" by (simp_all add: add_moving_def)
  have "handle_sdm_squery W L N t m ms = Some (Sleep (blocked_point (item_id ky ver)) WQuery, [], ?ms\<lparr>sdm_m_syncer := y\<rparr>)"
    using assms(3,7-11) carries_decoded [OF assms(1,4,5,6)] y(1) ms
    by (simp add: handle_sdm_squery_def id Let_def master_sleep_def)
  then show ?thesis using that y(2) assms(2) by (simp add: master_handle_msg_in_def sdm_types)
qed

lemma put_wakes:
  assumes "carries mp ky ver l u" "msg_get ''type'' mp = SDM_PUT_NOTIFICATION" "lex_int L (msg_get ''p_id'' mp) = Some p_id"
    and "lexer_ok L" "length l = NDIM" "length u = NDIM" "data_id_t ms = KV_DATA_ID"
    and "sleeper (blocked_point (item_id ky ver)) t (sdm_m_syncer ms)" "pick [t] = t"
    and "wa_put W p_id (ky, ver) l u (- 1) (wa_space ms) = Some (r, w)"
  obtains y where "master_handle_msg_in Q W L N pick t' mp ms = Some (Done 0, [EWake t], ms\<lparr>wa_space := w, sdm_m_syncer := y\<rparr>)"
    "roused (blocked_point (item_id ky ver)) y"
proof -
  obtain y where "notify pick (blocked_point (item_id ky ver)) (sdm_m_syncer ms) = Some (0, Some t, y)"
      "roused (blocked_point (item_id ky ver)) y"
    using sleeper_notified [OF assms(8), of pick] assms(9) by blast
  then show ?thesis
    using that assms(2,3,7,10) carries_decoded [OF assms(1,4,5,6)]
    by (simp add: master_handle_msg_in_def handle_sdm_put_notification_def master_notify_def wakes_def sdm_types)
qed

lemma blocked_query_moves:
  assumes "carries m ky ver l u" "lex_int L (msg_get ''id'' m) = Some i" "lex_int L (msg_get ''app_id'' m) = Some a"
    and "lexer_ok L" "length l = NDIM" "length u = NDIM" "data_id_t ms = KV_DATA_ID"
    and "roused (blocked_point (item_id ky ver)) (sdm_m_syncer ms)"
    and "wa_query W (ky, ver) l u [] (wa_space ms) = Some (0, from # v)" "from \<noteq> master_id ms" "linked N (sl_node ms) from"
  obtains o2 ms' where "handle_sdm_squery_resume W L N m ms =
      Some ([ESpawn (TAccess a ky ver l u), ESpawn (TWaitMove from i m), ESend o2], ms')"
    "msg_get ''type'' (o_map o2) = SDM_MOVE" "msg_get ''to_id'' (o_map o2) = msg_get ''id'' m" "carries (o_map o2) ky ver l u"
proof -
  let ?mm = "smap_put ''to_id'' (msg_get ''id'' m) (smap_put ''id'' (dec_int from) (smap_put ''type'' SDM_MOVE (encode_item ky ver l u [])))"
  have id: "kv_id m = item_id ky ver" using carries_kv_id [OF assms(1)] by (simp add: item_id_def)
  obtain y where "del_sync_point (blocked_point (item_id ky ver)) (sdm_m_syncer ms) = Some (0, y)"
    using roused_deletes [OF assms(8)] by blast
  then have awake: "master_awake (blocked_point (item_id ky ver)) ms = Some (ms\<lparr>sdm_m_syncer := y\<rparr>)"
    by (simp add: master_awake_def)
  let ?ms = "ms\<lparr>sdm_m_syncer := y\<rparr>"
  have "linked N (sl_node ?ms) from" using assms(11) by simp
  then obtain o2 where o: "send_cmsg N from ?mm ?ms = Some (0, [ESend o2])" "o_map o2 = gen_packet ?mm (sl_node ?ms)"
    by (rule cmsg_sent)
  have sq: "squery_move L N i m ky ver l u (from # v) ?ms =
      Some ([ESpawn (TAccess a ky ver l u), ESpawn (TWaitMove from i m), ESend o2], ?ms)"
    using assms(3,10) o(1) by (simp add: squery_move_def tsvec_at_def Let_def master_id_def)
  show ?thesis
  proof (rule that)
    show "handle_sdm_squery_resume W L N m ms = Some ([ESpawn (TAccess a ky ver l u), ESpawn (TWaitMove from i m), ESend o2], ?ms)"
      using assms(2,7,9) awake carries_decoded [OF assms(1,4,5,6)] sq by (simp add: handle_sdm_squery_resume_def id)
    show "msg_get ''type'' (o_map o2) = SDM_MOVE" "msg_get ''to_id'' (o_map o2) = msg_get ''id'' m"
      using o(2) by (simp_all add: gen_packet_def msg_get_def)
    show "carries (o_map o2) ky ver l u" using o(2) item_carries [OF assms(5,6)] by simp
  qed
qed



definition putting_slave :: "int kvtable sdm_slave" where
  "putting_slave = (msdm_slave_new 1 ''10.0.0.2'' 7001 ''10.0.0.1'' 7000)
     \<lparr>sl_node := (node_new ''s'' False 1 ''10.0.0.2'' 7001 ''10.0.0.1'' 7000)
        \<lparr>nd_commer := snd (add_peer all_up 0 ''peer_0'' ''10.0.0.1'' 7000 commer_new), sdm_master_id := 0\<rparr>\<rparr>"

definition blocking_query :: msg_map where
  "blocking_query = encode_item ''z'' 0 [0, 0, 0] [1, 1, 1]
     [(''app_id'', ''20''), (''blocking'', ''''), (''id'', ''2''), (''type'', SDM_SQUERY)]"

lemma blocking_facts:
  "msg_get ''type'' blocking_query = SDM_SQUERY \<and> lex_int std_lexer (msg_get ''id'' blocking_query) = Some 2 \<and>
   lex_int std_lexer (msg_get ''app_id'' blocking_query) = Some 20 \<and> smap_contains ''blocking'' blocking_query"
  "wa_query sample_ops (''z'', 0) [0, 0, 0] [1, 1, 1] [] (wa_space asked_master) = Some (1, []) \<and>
   item_id ''z'' 0 \<notin> set (moving 2 asked_master)"
  "map_option (\<lambda>(r, w). (r, wa_query sample_ops (''z'', 0) [0, 0, 0] [1, 1, 1] [] w))
     (wa_put sample_ops 10 (''z'', 0) [0, 0, 0] [1, 1, 1] (- 1) (wa_space asked_master)) = Some (0, Some (0, [1]))"
  by code_simp+


end
