(* ===== verification/DS_Driver.thy ===== *)
theory DS_Driver
  imports Syncer
begin

text \<open>
  \<open>ds_drive.cpp\<close>: the driver of the local data space. Its gets go through a blocking queue to one polling
  thread, which starts a thread per get and waits for it for a bounded time. The data space itself (\<open>dspaces_get\<close>,
  \<open>dspaces_put\<close>) and MPI are a library: what they return is an argument.
\<close>

subsection \<open>The size of a region\<close>

text \<open>\<open>None\<close> is the early return for a bound that is not feasible.\<close>

fun dim_lengths :: "u64 list \<Rightarrow> u64 list \<Rightarrow> u64 list \<Rightarrow> u64 list option" where
  "dim_lengths (g # gs) (lb # lbs) (ub # ubs) =
     (if lb > g then None
      else if ub > g \<or> ub < lb then None
      else map_option ((#) (ub - lb + 1)) (dim_lengths gs lbs ubs))"
| "dim_lengths _ _ _ = Some []"

definition get_data_length :: "nat \<Rightarrow> u64 list \<Rightarrow> u64 list \<Rightarrow> u64 list \<Rightarrow> u64" where
  "get_data_length ndim gdim lb ub =
     (case dim_lengths (take ndim gdim) (take ndim lb) (take ndim ub) of
        None \<Rightarrow> 0
      | Some ds \<Rightarrow> foldl (*) 1 ds)"

definition feasible :: "u64 list \<Rightarrow> u64 list \<Rightarrow> u64 list \<Rightarrow> bool" where
  "feasible gdim lb ub \<longleftrightarrow> list_all2 (\<le>) lb ub \<and> list_all2 (\<le>) ub gdim"

text \<open>The points of the region, both corners included.\<close>

definition region :: "u64 list \<Rightarrow> u64 list \<Rightarrow> u64 list set" where
  "region lb ub = {p. list_all2 (\<le>) lb p \<and> list_all2 (\<le>) p ub}"

lemma foldl_times: "foldl (*) (a :: u64) ds = a * prod_list ds"
  by (induction ds arbitrary: a) (auto simp: mult.assoc)

lemma card_word_interval:
  assumes "l \<le> (u :: u64)"
  shows "card {l..u} = unat (u - l) + 1"
proof -
  have "unat u < 2 ^ 64" by (rule order_less_le_trans [OF unsigned_less]) simp
  then have small: "n < 2 ^ 64" if "n \<le> unat u" for n using that by simp
  then have word: "unat (word_of_nat n :: u64) = n" if "n \<le> unat u" for n using that by (simp add: unat_of_nat)
  have "{l..u} = word_of_nat ` {unat l..unat u}"
  proof (intro set_eqI iffI)
    fix w assume "w \<in> {l..u}"
    then have "unat w \<in> {unat l..unat u}" by (simp add: word_le_nat_alt)
    then show "w \<in> word_of_nat ` {unat l..unat u}" by (intro image_eqI [of _ _ "unat w"]) simp_all
  qed (auto simp: word word_le_nat_alt)
  moreover have "inj_on (word_of_nat :: nat \<Rightarrow> u64) {unat l..unat u}"
    using word by (metis atLeastAtMost_iff inj_onI)
  ultimately have "card {l..u} = Suc (unat u) - unat l" by (simp add: card_image)
  then show ?thesis using assms by (simp add: word_le_nat_alt unat_sub Suc_diff_le)
qed

lemma dim_lengths_feasible:
  assumes "length gdim = length lb" "length ub = length lb"
  shows "dim_lengths gdim lb ub = (if feasible gdim lb ub then Some (map2 (\<lambda>l u. u - l + 1) lb ub) else None)"
  using assms
proof (induction gdim lb ub rule: dim_lengths.induct)
  case (1 g gs lb lbs ub ubs)
  then show ?case by (auto simp: feasible_def not_le not_less)
qed (auto simp: feasible_def)

lemma region_Cons: "region (l # ls) (u # us) = (\<lambda>(x, p). x # p) ` ({l..u} \<times> region ls us)"
  by (auto simp: region_def list_all2_Cons1 list_all2_Cons2)

lemma card_region:
  "length ub = length lb \<Longrightarrow> list_all2 (\<le>) lb ub \<Longrightarrow> card (region lb ub) = prod_list (map2 (\<lambda>l u. unat (u - l) + 1) lb ub)"
proof (induction lb ub rule: list_induct2')
  case 1
  then show ?case by (simp add: region_def)
next
  case (4 l ls u us)
  have "card (region (l # ls) (u # us)) = card ({l..u} \<times> region ls us)"
    unfolding region_Cons by (rule card_image) (auto simp: inj_on_def)
  then show ?case using 4 by (simp add: card_cartesian_product card_word_interval)
qed simp_all

lemma of_nat_prod_list: "(of_nat (prod_list ns) :: u64) = prod_list (map of_nat ns)"
  by (induction ns) auto

text \<open>C29: the length of a region is the number of its points, reduced modulo \<open>2 ^ 64\<close>, when every bound is
  feasible, and 0 when one is not; so it is exact for every region that can be allocated, and a region with a
  multiple of \<open>2 ^ 64\<close> points looks like an error.\<close>

theorem data_length_counts:
  assumes "length gdim = n" "length lb = n" "length ub = n"
  shows "get_data_length n gdim lb ub = (if feasible gdim lb ub then word_of_nat (card (region lb ub)) else 0) \<and>
    (feasible gdim lb ub \<longrightarrow> card (region lb ub) < 2 ^ 64 \<longrightarrow> unat (get_data_length n gdim lb ub) = card (region lb ub))"
proof -
  have eq: "get_data_length n gdim lb ub = (if feasible gdim lb ub then word_of_nat (card (region lb ub)) else 0)"
    using assms by (simp add: get_data_length_def dim_lengths_feasible foldl_times card_region feasible_def of_nat_prod_list
        comp_def split_def add.commute)
  then show ?thesis by (simp add: unat_of_nat)
qed

theorem data_length_counts_witness:
  "get_data_length 3 [9, 9, 9] [1, 1, 1] [2, 3, 4] = 24 \<and> get_data_length 2 [0xffffffff, 0xffffffff] [0, 0] [0xffffffff, 0xffffffff] = 0"
  using data_length_counts [of "[9, 9, 9]" 3 "[1, 1, 1]" "[2, 3, 4]"]
  by (simp add: feasible_def get_data_length_def numeral_3_eq_3)


subsection \<open>Time between two lock operations\<close>

record timeval =
  tv_sec :: int
  tv_usec :: int

text \<open>The difference, and the second argument as the call leaves it; \<open>nsec\<close> is a 32-bit \<open>int\<close>, and both quotients
  are of a positive number.\<close>

definition int32 :: "int \<Rightarrow> int" where
  "int32 n = sint (word_of_int n :: 32 word)"

definition timeval_subtract :: "timeval \<Rightarrow> timeval \<Rightarrow> timeval \<times> timeval" where
  "timeval_subtract x y =
     (let y = (if tv_usec x < tv_usec y
               then let nsec = int32 ((tv_usec y - tv_usec x) div 1000000 + 1)
                    in y\<lparr>tv_usec := tv_usec y - 1000000 * nsec, tv_sec := tv_sec y + nsec\<rparr>
               else y);
          y = (if tv_usec x - tv_usec y > 1000000
               then let nsec = int32 ((tv_usec x - tv_usec y) div 1000000)
                    in y\<lparr>tv_usec := tv_usec y + 1000000 * nsec, tv_sec := tv_sec y - nsec\<rparr>
               else y)
      in (\<lparr>tv_sec = tv_sec x - tv_sec y, tv_usec = tv_usec x - tv_usec y\<rparr>, y))"

text \<open>\<open>clock\<close> is what \<open>gettimeofday\<close> returns: its code and the time. With an error the difference is not written.\<close>

definition get_inter_lock_time :: "(int \<times> timeval) \<Rightarrow> timeval \<Rightarrow> timeval \<Rightarrow> int \<times> timeval \<times> timeval" where
  "get_inter_lock_time clock prev r =
     (if fst clock \<noteq> 0 then (fst clock, r, prev)
      else let (r, prev) = timeval_subtract (snd clock) prev in (0, r, prev))"

definition INTER_LOCK_TIME :: int where "INTER_LOCK_TIME = 1000 * 1000"

text \<open>How long the caller sleeps, and \<open>last_lock_time\<close> afterwards; \<open>junk\<close> is the uninitialised local.\<close>

definition do_timing :: "(int \<times> timeval) \<Rightarrow> timeval \<Rightarrow> timeval \<Rightarrow> int \<times> timeval" where
  "do_timing clock junk prev =
     (let (_, d, prev) = get_inter_lock_time clock prev junk
      in if tv_sec d > 0 then (0, prev)
         else let diff = INTER_LOCK_TIME - tv_usec d in (if diff > 0 then diff else 0, prev))"

definition refresh_last_lock_time :: "(int \<times> timeval) \<Rightarrow> timeval \<Rightarrow> int \<times> timeval" where
  "refresh_last_lock_time clock prev = (if fst clock \<noteq> 0 then (fst clock, prev) else (0, snd clock))"

definition usecs :: "timeval \<Rightarrow> int" where
  "usecs t = tv_sec t * 1000000 + tv_usec t"

lemma int32_id: "\<bar>n\<bar> < 2 ^ 31 \<Longrightarrow> int32 n = n"
  by (simp add: int32_def signed_of_int signed_take_bit_int_eq_self)

lemma carry_range:
  fixes d :: int
  assumes "0 < m"
  defines "k \<equiv> (if d < 0 then - d div m + 1 else if d > m then - (d div m) else 0)"
  shows "0 \<le> d + m * k" "d + m * k \<le> m"
proof -
  have "m * (- d div m) + - d mod m = - d" "m * (d div m) + d mod m = d" by simp_all
  moreover have "0 \<le> - d mod m" "- d mod m < m" "0 \<le> d mod m" "d mod m < m" using assms(1) by simp_all
  ultimately show "0 \<le> d + m * k" "d + m * k \<le> m"
    unfolding k_def distrib_left minus_mult_right [symmetric] mult_1_right by (cases "d < 0"; cases "d > m"; simp only: if_True if_False distrib_left mult_minus_right mult_1_right mult_zero_right; linarith)+
qed

lemma timeval_subtract_usecs:
  assumes "\<bar>tv_usec x - tv_usec y\<bar> < 2 ^ 31" and "timeval_subtract x y = (r, y')"
  shows "usecs r = usecs x - usecs y" "usecs y' = usecs y" "0 \<le> tv_usec r" "tv_usec r \<le> 1000000"
proof -
  define d where "d = tv_usec x - tv_usec y"
  have d: "\<bar>d\<bar> < 2147483648" using assms(1) by (simp add: d_def)
  define k where "k = (if d < 0 then - d div 1000000 + 1 else if d > 1000000 then - (d div 1000000) else 0)"
  have i: "int32 (- d div 1000000 + 1) = - d div 1000000 + 1" if "d < 0" using that d by (intro int32_id) auto
  have j: "int32 (d div 1000000) = d div 1000000" if "d > 1000000" using that d by (intro int32_id) auto
  have range: "0 \<le> d + 1000000 * k" "d + 1000000 * k \<le> 1000000"
    unfolding k_def using carry_range [of 1000000 d] by simp_all
  have usec: "tv_usec x = tv_usec y + d" by (simp add: d_def)
  consider "d < 0" | "0 \<le> d" "d \<le> 1000000" | "1000000 < d" by linarith
  then have "timeval_subtract x y =
    (\<lparr>tv_sec = tv_sec x - (tv_sec y + k), tv_usec = d + 1000000 * k\<rparr>, y\<lparr>tv_usec := tv_usec y - 1000000 * k, tv_sec := tv_sec y + k\<rparr>)"
  proof cases
    case 1
    then have k: "int32 (- d div 1000000 + 1) = k" by (simp only: i k_def if_True)
    show ?thesis using range 1 by (simp add: timeval_subtract_def usec Let_def k)
  next
    case 2
    then have k: "k = 0" by (simp add: k_def)
    show ?thesis using 2 by (simp add: timeval_subtract_def usec Let_def k)
  next
    case 3
    then have k: "int32 (d div 1000000) = - k" by (simp only: j k_def) simp
    show ?thesis using 3 by (simp add: timeval_subtract_def usec Let_def k)
  qed
  then have eq: "r = \<lparr>tv_sec = tv_sec x - (tv_sec y + k), tv_usec = d + 1000000 * k\<rparr>"
    "y' = y\<lparr>tv_usec := tv_usec y - 1000000 * k, tv_sec := tv_sec y + k\<rparr>" using assms(2) by simp_all
  show "usecs r = usecs x - usecs y" "usecs y' = usecs y" "0 \<le> tv_usec r" "tv_usec r \<le> 1000000"
    using range by (simp_all add: eq usecs_def usec algebra_simps)
qed

text \<open>Two lock operations that call it are a second apart: the time passed and the sleep add up to one.\<close>

lemma do_timing_separates:
  assumes "usecs prev < usecs now" "\<bar>tv_usec now - tv_usec prev\<bar> < 2 ^ 31" "do_timing (0, now) junk prev = (nap, prev')"
  shows "usecs prev + INTER_LOCK_TIME \<le> usecs now + nap" "0 \<le> nap" "nap \<le> INTER_LOCK_TIME" "usecs prev' = usecs prev"
proof -
  obtain d l where d: "timeval_subtract now prev = (d, l)" by (cases "timeval_subtract now prev")
  note s = timeval_subtract_usecs [OF assms(2) d]
  have sec: "0 \<le> tv_sec d" using s(1,4) assms(1) unfolding usecs_def by linarith
  show "usecs prev + INTER_LOCK_TIME \<le> usecs now + nap" "0 \<le> nap" "nap \<le> INTER_LOCK_TIME" "usecs prev' = usecs prev"
    by (cases "tv_sec d = 0";
      use s assms(1,3) d sec in \<open>auto simp: do_timing_def get_inter_lock_time_def INTER_LOCK_TIME_def usecs_def Let_def split: if_splits\<close>)+
qed


subsection \<open>The blocking queue\<close>

text \<open>\<open>BQueue\<close>: the front of the deque is the head of the list; a \<open>pop\<close> that finds it empty blocks.\<close>

definition bq_push :: "'a \<Rightarrow> 'a list \<Rightarrow> 'a list" where
  "bq_push v q = v # q"

definition bq_pop :: "'a list \<Rightarrow> ('a \<times> 'a list) option" where
  "bq_pop q = (if q = [] then None else Some (last q, butlast q))"

subsection \<open>The driver\<close>

record get_info =
  gi_var_name :: string
  gi_ver :: u32
  gi_size :: int
  gi_ndim :: nat
  gi_gdim :: "u64 list"
  gi_lb :: "u64 list"
  gi_ub :: "u64 list"

definition get_data_id_ds :: "string \<Rightarrow> u32 \<Rightarrow> string" where
  "get_data_id_ds var_name ver = var_name @ ''_'' @ dec (unat ver)"

definition get_point :: "get_info \<Rightarrow> u32" where
  "get_point g = hash_str (get_data_id_ds (gi_var_name g) (gi_ver g))"

text \<open>Where a thread that waits for a \<open>plain_get\<close> stands. The polling thread: not started, about to look at the
  queue, having found it empty, asleep in \<open>pop\<close>, in its loop with the number of looks at \<open>get_done\<close> so far, past the
  loop. A thread in \<open>timed_get\<close> uses the last two.\<close>

datatype poll =
    Not_started
  | Popping
  | Pop_empty
  | Pop_asleep
  | Polling get_info int
  | Polled get_info

text \<open>\<open>plain_gets\<close> are the threads running \<open>plain_get\<close>, the oldest first; one that is interrupted stays among them,
  since \<open>dspaces_get\<close> has no interruption point.\<close>

record ds_driver =
  ds_closed :: bool
  get_done :: bool
  get_success :: bool
  get_info_bq :: "get_info list"
  ds_syncer :: "u32 syncer"
  hashed_data_id__get_return_map :: "(u32, int) smap"
  get_poll_t :: poll
  timed_get_t :: poll
  plain_gets :: "get_info list"

text \<open>The constructors ignore what \<open>init\<close> returns; \<open>err\<close> is the code of \<open>dspaces_init\<close>, and the polling thread
  starts only without an error. The two flags are not initialised.\<close>

definition ds_init :: "int \<Rightarrow> ds_driver \<Rightarrow> int \<times> ds_driver" where
  "ds_init err s = (if err \<noteq> 0 then (err, s) else (0, s\<lparr>get_poll_t := Popping\<rparr>))"

definition ds_driver_new :: "int \<Rightarrow> bool \<Rightarrow> bool \<Rightarrow> ds_driver" where
  "ds_driver_new err junk1 junk2 =
     snd (ds_init err \<lparr>ds_closed = False, get_done = junk1, get_success = junk2, get_info_bq = [],
       ds_syncer = syncer_new, hashed_data_id__get_return_map = [], get_poll_t = Not_started,
       timed_get_t = Not_started, plain_gets = []\<rparr>)"

text \<open>\<open>throws\<close>: whether finalising the data space or MPI throws.\<close>

definition ds_close :: "bool \<Rightarrow> ds_driver \<Rightarrow> rc \<times> ds_driver" where
  "ds_close throws s = (if ds_closed s then (2, s) else if throws then (1, s) else (0, s\<lparr>ds_closed := True\<rparr>))"

text \<open>The library's put and its barrier, on the state of the data space.\<close>

definition ds_sync_put :: "('l \<Rightarrow> rc \<times> 'l) \<Rightarrow> ('l \<Rightarrow> 'l) \<Rightarrow> 'l \<Rightarrow> rc \<times> 'l" where
  "ds_sync_put dspaces_put dspaces_put_sync l = (let (r, l) = dspaces_put l in (r, dspaces_put_sync l))"

definition ds_get :: "('l \<Rightarrow> rc \<times> 'l) \<Rightarrow> 'l \<Rightarrow> rc \<times> 'l" where
  "ds_get dspaces_get l = dspaces_get l"

definition ds_del :: "rc" where
  "ds_del = 1"

text \<open>\<open>plain_get\<close> from the return of \<open>dspaces_get\<close> on; it is the \<open>n\<close>-th of the threads that run it.\<close>

definition plain_get :: "nat \<Rightarrow> rc \<Rightarrow> ds_driver \<Rightarrow> ds_driver" where
  "plain_get n r s =
     s\<lparr>get_success := (r = 0), get_done := True, plain_gets := take n (plain_gets s) @ drop (Suc n) (plain_gets s)\<rparr>"

text \<open>Starting a \<open>plain_get\<close>, one look of the loop at \<open>get_done\<close>, and the code after the loop.\<close>

definition start_plain_get :: "get_info \<Rightarrow> ds_driver \<Rightarrow> ds_driver" where
  "start_plain_get g s = s\<lparr>get_done := False, get_success := False, plain_gets := plain_gets s @ [g]\<rparr>"

definition look :: "int \<Rightarrow> bool \<Rightarrow> get_info \<Rightarrow> int \<Rightarrow> poll" where
  "look limit dn g counter = (let counter = counter + 1 in if \<not> dn \<and> counter < limit then Polling g counter else Polled g)"

definition get_result :: "ds_driver \<Rightarrow> rc" where
  "get_result s = (if get_done s then if get_success s then 0 else 1 else 1)"

subsection \<open>Registered gets\<close>

text \<open>\<open>reg_get_wait_for_completion\<close>: the push (which wakes the polling thread), the wait, and what the woken thread
  does.\<close>

definition reg_get_push :: "get_info \<Rightarrow> ds_driver \<Rightarrow> ds_driver" where
  "reg_get_push g s =
     s\<lparr>get_info_bq := bq_push g (get_info_bq s),
       get_poll_t := (if get_poll_t s = Pop_asleep then Popping else get_poll_t s)\<rparr>"

definition reg_get_wait :: "tid \<Rightarrow> get_info \<Rightarrow> ds_driver \<Rightarrow> ds_driver option" where
  "reg_get_wait t g s = do {
     let (_, sy) = add_sync_point (get_point g) 1 (ds_syncer s);
     sy \<leftarrow> sync_wait (get_point g) t sy;
     Some (s\<lparr>ds_syncer := sy\<rparr>) }"

definition reg_get_resume :: "get_info \<Rightarrow> ds_driver \<Rightarrow> (rc \<times> ds_driver) option" where
  "reg_get_resume g s = do {
     (_, sy) \<leftarrow> del_sync_point (get_point g) (ds_syncer s);
     let (r, m) = tsmap_at 0 (get_point g) (hashed_data_id__get_return_map s);
     Some (r, s\<lparr>ds_syncer := sy, hashed_data_id__get_return_map := m\<rparr>) }"

text \<open>One step of \<open>get_poll\<close>, with the thread it wakes and the get whose result it stored.\<close>

definition get_poll_step :: "(tid list \<Rightarrow> tid) \<Rightarrow> ds_driver \<Rightarrow> (tid option \<times> (get_info \<times> rc) option \<times> ds_driver) option" where
  "get_poll_step pick s =
     (case get_poll_t s of
        Popping \<Rightarrow>
          (case bq_pop (get_info_bq s) of
             None \<Rightarrow> Some (None, None, s\<lparr>get_poll_t := Pop_empty\<rparr>)
           | Some (g, q) \<Rightarrow> Some (None, None, start_plain_get g (s\<lparr>get_info_bq := q, get_poll_t := Polling g 0\<rparr>)))
      | Pop_empty \<Rightarrow> Some (None, None, s\<lparr>get_poll_t := Pop_asleep\<rparr>)
      | Polling g counter \<Rightarrow> Some (None, None, s\<lparr>get_poll_t := look 20 (get_done s) g counter\<rparr>)
      | Polled g \<Rightarrow> do {
          let r = get_result s;
          (_, t, sy) \<leftarrow> notify pick (get_point g) (ds_syncer s);
          Some (t, Some (g, r), s\<lparr>get_poll_t := Popping, ds_syncer := sy,
            hashed_data_id__get_return_map := smap_put (get_point g) r (hashed_data_id__get_return_map s)\<rparr>) }
      | _ \<Rightarrow> Some (None, None, s))"

text \<open>\<open>timed_get\<close> holds a mutex, so there is one at a time; it uses the same two flags.\<close>

definition timed_get_start :: "get_info \<Rightarrow> ds_driver \<Rightarrow> ds_driver" where
  "timed_get_start g s = start_plain_get g (s\<lparr>timed_get_t := Polling g 0\<rparr>)"

definition timed_get_look :: "ds_driver \<Rightarrow> ds_driver" where
  "timed_get_look s =
     (case timed_get_t s of Polling g counter \<Rightarrow> s\<lparr>timed_get_t := look 10 (get_done s) g counter\<rparr> | _ \<Rightarrow> s)"

definition timed_get_return :: "ds_driver \<Rightarrow> rc \<times> ds_driver" where
  "timed_get_return s = (get_result s, s\<lparr>timed_get_t := Not_started\<rparr>)"


subsection \<open>Runs of the driver\<close>

text \<open>What the threads do, one step at a time: clients register gets, sleep and wake, the polling thread makes a step,
  and a thread that runs \<open>plain_get\<close> comes back from \<open>dspaces_get\<close> with a code. The second component records what was
  pushed, what \<open>dspaces_get\<close> returned to the polled gets, what the polling thread reported, and which gets it gave
  up.\<close>

datatype ds_op =
    Reg_push get_info
  | Reg_wait tid get_info
  | Reg_resume get_info
  | Poll_step
  | Plain_return nat rc

record ds_log =
  pushed :: "get_info list"
  returned :: "(get_info \<times> bool) list"
  reported :: "(get_info \<times> bool) list"
  given_up :: "get_info list"

definition empty_log :: ds_log where
  "empty_log = \<lparr>pushed = [], returned = [], reported = [], given_up = []\<rparr>"

definition ds_step :: "(tid list \<Rightarrow> tid) \<Rightarrow> ds_op \<Rightarrow> ds_driver \<times> ds_log \<Rightarrow> (ds_driver \<times> ds_log) option" where
  "ds_step pick op = (\<lambda>(s, l). case op of
     Reg_push g \<Rightarrow> Some (reg_get_push g s, l\<lparr>pushed := pushed l @ [g]\<rparr>)
   | Reg_wait t g \<Rightarrow> map_option (\<lambda>s. (s, l)) (reg_get_wait t g s)
   | Reg_resume g \<Rightarrow> map_option (\<lambda>(_, s). (s, l)) (reg_get_resume g s)
   | Poll_step \<Rightarrow>
       map_option (\<lambda>(_, e, s'). (s', case e of
           None \<Rightarrow> l
         | Some (g, r) \<Rightarrow> l\<lparr>reported := reported l @ [(g, r = 0)],
             given_up := given_up l @ (if get_done s then [] else [g])\<rparr>)) (get_poll_step pick s)
   | Plain_return n r \<Rightarrow>
       if n < length (plain_gets s)
       then Some (plain_get n r s, l\<lparr>returned := returned l @ [(plain_gets s ! n, r = 0)]\<rparr>)
       else None)"

text \<open>The get the polling thread waits for.\<close>

definition polled :: "ds_driver \<Rightarrow> get_info list" where
  "polled s = (case get_poll_t s of Polling g _ \<Rightarrow> [g] | Polled g \<Rightarrow> [g] | _ \<Rightarrow> [])"

text \<open>Every get is pending, polled or reported, in the order in which they were pushed.\<close>

definition in_order :: "ds_driver \<times> ds_log \<Rightarrow> bool" where
  "in_order = (\<lambda>(s, l). pushed l = map fst (reported l) @ polled s @ rev (get_info_bq s))"

text \<open>While none was given up, a \<open>plain_get\<close> runs only for the polled get, and the flags are its result.\<close>

definition own_result :: "ds_driver \<times> ds_log \<Rightarrow> bool" where
  "own_result = (\<lambda>(s, l). given_up l = [] \<longrightarrow>
     (if polled s \<noteq> [] \<and> \<not> get_done s then plain_gets s = polled s \<and> returned l = reported l
      else plain_gets s = [] \<and> returned l = reported l @ map (\<lambda>g. (g, get_success s)) (polled s)))"

lemma in_order_step: "in_order c \<Longrightarrow> ds_step pick op c = Some c' \<Longrightarrow> in_order c'"
  by (cases c; cases op)
    (auto simp: in_order_def ds_step_def polled_def reg_get_push_def reg_get_wait_def reg_get_resume_def get_poll_step_def
      plain_get_def start_plain_get_def bq_push_def bq_pop_def look_def Let_def bind_eq_Some_conv
      split: poll.splits if_splits option.splits prod.splits)

lemma own_result_cong:
  "own_result (s, l) \<Longrightarrow> polled s' = polled s \<Longrightarrow> get_done s' = get_done s \<Longrightarrow> get_success s' = get_success s \<Longrightarrow>
   plain_gets s' = plain_gets s \<Longrightarrow> own_result (s', l)"
  by (simp add: own_result_def)

lemma own_result_client:
  "own_result (s, l) \<Longrightarrow> own_result (reg_get_push g s, l\<lparr>pushed := ps\<rparr>)"
  "own_result (s, l) \<Longrightarrow> reg_get_wait t g s = Some s' \<Longrightarrow> own_result (s', l)"
  "own_result (s, l) \<Longrightarrow> reg_get_resume g s = Some (r, s') \<Longrightarrow> own_result (s', l)"
  by (auto simp: own_result_def reg_get_push_def reg_get_wait_def reg_get_resume_def polled_def Let_def
      bind_eq_Some_conv split: poll.splits if_splits prod.splits)

lemma own_result_return:
  "own_result (s, l) \<Longrightarrow> n < length (plain_gets s) \<Longrightarrow>
     own_result (plain_get n r s, l\<lparr>returned := returned l @ [(plain_gets s ! n, r = 0)]\<rparr>)"
  by (cases "get_poll_t s") (auto simp: own_result_def plain_get_def polled_def split: if_splits)

lemma own_result_poll:
  assumes "own_result (s, l)" "get_poll_step pick s = Some (t, e, s')"
  shows "own_result (s', case e of None \<Rightarrow> l
    | Some (g, r) \<Rightarrow> l\<lparr>reported := reported l @ [(g, r = 0)], given_up := given_up l @ (if get_done s then [] else [g])\<rparr>)"
proof (cases "get_poll_t s")
  case Popping
  show ?thesis
  proof (cases "bq_pop (get_info_bq s)")
    case None
    then show ?thesis using assms Popping by (auto simp: own_result_def get_poll_step_def polled_def)
  next
    case (Some p)
    then show ?thesis using assms Popping
      by (cases p) (auto simp: own_result_def get_poll_step_def polled_def start_plain_get_def)
  qed
next
  case (Polling g c)
  then have e: "e = None" and s': "s' = s\<lparr>get_poll_t := look 20 (get_done s) g c\<rparr>"
    using assms(2) by (auto simp: get_poll_step_def)
  have "polled s' = polled s" using Polling by (simp add: s' polled_def look_def Let_def)
  then have "own_result (s', l)" by (intro own_result_cong [OF assms(1)]) (simp_all add: s')
  then show ?thesis by (simp add: e)
next
  case (Polled g)
  then obtain u sy where n: "notify pick (get_point g) (ds_syncer s) = Some (u, t, sy)"
    "e = Some (g, get_result s)" "s' = s\<lparr>get_poll_t := Popping, ds_syncer := sy,
      hashed_data_id__get_return_map := smap_put (get_point g) (get_result s) (hashed_data_id__get_return_map s)\<rparr>"
    using assms(2) by (auto simp: get_poll_step_def Let_def bind_eq_Some_conv)
  show ?thesis using assms(1) Polled n(2,3) by (simp add: own_result_def polled_def get_result_def)
qed (use assms in \<open>auto simp: own_result_def get_poll_step_def polled_def\<close>)

lemma own_result_step: "own_result c \<Longrightarrow> ds_step pick op c = Some c' \<Longrightarrow> own_result c'"
proof (induction c)
  case (Pair s l)
  then show ?case
  proof (cases op)
    case Poll_step
    then obtain t e s' where "get_poll_step pick s = Some (t, e, s')" using Pair by (auto simp: ds_step_def)
    with own_result_poll [OF Pair(1) this] show ?thesis using Pair(2) Poll_step by (simp add: ds_step_def)
  next
    case (Reg_wait t g)
    then show ?thesis using Pair own_result_client(2) by (auto simp: ds_step_def)
  next
    case (Reg_resume g)
    then show ?thesis using Pair own_result_client(3) by (auto simp: ds_step_def)
  next
    case (Plain_return n r)
    then show ?thesis using Pair own_result_return [OF Pair(1)] by (simp add: ds_step_def split: if_splits) blast
  next
    case (Reg_push g)
    then show ?thesis using Pair(2) own_result_client(1) [OF Pair(1)] by (simp add: ds_step_def) blast
  qed
qed


lemma ds_run_invariants:
  assumes "ops_run (ds_step pick) ops (ds_driver_new err b1 b2, empty_log) = Some (s, l)"
  shows "in_order (s, l)" "own_result (s, l)"
proof -
  have start: "in_order (ds_driver_new err b1 b2, empty_log)" "own_result (ds_driver_new err b1 b2, empty_log)"
    by (auto simp: in_order_def own_result_def ds_driver_new_def ds_init_def polled_def empty_log_def)
  show "in_order (s, l)" by (rule ops_run_invariant [where I = in_order, OF _ start(1) assms]) (rule in_order_step)
  show "own_result (s, l)" by (rule ops_run_invariant [where I = own_result, OF _ start(2) assms]) (rule own_result_step)
qed

text \<open>C16: the polled gets are served one at a time, in the order in which they were registered, and as long as none of
  them was given up, each is reported as successful exactly when its own \<open>dspaces_get\<close> succeeded.\<close>

theorem polled_gets_in_order:
  assumes "ops_run (ds_step pick) ops (ds_driver_new err b1 b2, empty_log) = Some (s, l)"
  shows "pushed l = map fst (reported l) @ polled s @ rev (get_info_bq s) \<and> length (polled s) \<le> 1 \<and>
    (given_up l = [] \<longrightarrow> returned l = reported l \<or> (\<exists>g r. polled s = [g] \<and> returned l = reported l @ [(g, r)]))"
proof -
  have "length (polled s) \<le> 1" by (simp add: polled_def split: poll.split)
  then have "polled s = [] \<or> (\<exists>g. polled s = [g])" by (cases "polled s") auto
  then show ?thesis using ds_run_invariants [OF assms] by (auto simp: in_order_def own_result_def split: if_splits)
qed

text \<open>A get that was given up still runs, and sets the flags of the get polled after it: here the second get is
  reported as successful although its own \<open>dspaces_get\<close> has not returned.\<close>

theorem stale_get_success:
  "\<exists>s l. ops_run (ds_step pick)
      ([Reg_push g1, Reg_push g2] @ replicate 22 Poll_step @ [Poll_step, Plain_return 0 0, Poll_step, Poll_step])
      (ds_driver_new 0 b1 b2, empty_log) = Some (s, l) \<and>
    reported l = [(g1, False), (g2, True)] \<and> g2 \<in> set (plain_gets s) \<and> returned l = [(g1, True)]"
  by (simp add: ds_step_def ds_driver_new_def ds_init_def reg_get_push_def get_poll_step_def bq_push_def bq_pop_def
    start_plain_get_def look_def plain_get_def get_result_def empty_log_def notify_def syncer_new_def
    numeral_eq_Suc eval_nat_numeral)


definition demo_get :: "string \<Rightarrow> get_info" where
  "demo_get v = \<lparr>gi_var_name = v, gi_ver = 0, gi_size = 1, gi_ndim = 1, gi_gdim = [9], gi_lb = [0], gi_ub = [3]\<rparr>"

lemma stuck_polling: "get_poll_t s = Pop_asleep \<Longrightarrow> ops_run (ds_step pick) (replicate n Poll_step) (s, l) = Some (s, l)"
  by (induction n) (auto simp: ds_step_def get_poll_step_def)

text \<open>The queue is looked at outside the mutex under which the polling thread falls asleep; a get pushed in
  between notifies nobody. The polling thread then sleeps beside a non-empty queue, whatever number of steps it is
  given, and the client that pushed the get waits for it.\<close>

theorem push_wakeup_lost:
  "\<exists>s l. ops_run (ds_step pick) [Poll_step, Reg_push g, Poll_step, Reg_wait t g] (ds_driver_new 0 b1 b2, empty_log) = Some (s, l) \<and>
     get_info_bq s = [g] \<and> waiters (get_point g) (ds_syncer s) = [t] \<and>
     (\<forall>n. ops_run (ds_step pick) (replicate n Poll_step) (s, l) = Some (s, l))"
  by (simp add: ds_step_def ds_driver_new_def ds_init_def reg_get_push_def get_poll_step_def bq_push_def bq_pop_def
    empty_log_def syncer_new_def reg_get_wait_def add_sync_point_def sync_wait_def waiters_def smap_get_def Let_def tsmap_contains_def stuck_polling)

theorem polled_gets_in_order_witness:
  "\<exists>s l. ops_run (ds_step hd) [Reg_push (demo_get ''a''), Poll_step, Plain_return 0 0] (ds_driver_new 0 False False, empty_log) = Some (s, l) \<and>
    pushed l = map fst (reported l) @ polled s @ rev (get_info_bq s) \<and> pushed l = [demo_get ''a'']"
proof -
  obtain s l where run: "ops_run (ds_step hd) [Reg_push (demo_get ''a''), Poll_step, Plain_return 0 0]
      (ds_driver_new 0 False False, empty_log) = Some (s, l)" and p: "pushed l = [demo_get ''a'']"
    by (simp add: ds_step_def ds_driver_new_def ds_init_def reg_get_push_def get_poll_step_def bq_push_def bq_pop_def
      start_plain_get_def plain_get_def empty_log_def)
  show ?thesis using polled_gets_in_order [OF run] run p by blast
qed

end
