(* ===== verification/Tcp_Trans.thy ===== *)
theory Tcp_Trans
  imports Syncer Msg_Codec
begin

text \<open>
  \<open>trans/tcp_trans\<close> and the TCP side of \<open>trans/trans.cpp\<close>: one connection per item carries its data id and its
  size, each in a field of fixed width, and then the data in chunks. A socket is the list of the bytes written to it;
  how many bytes each call of \<open>send\<close> takes is up to the network. \<open>None\<close> stands for undefined behaviour and for an
  exception that leaves a function whose callers do not catch it.
\<close>

definition TCP_MAX_DATA_ID_LENGTH :: nat where "TCP_MAX_DATA_ID_LENGTH = 50"
definition TCP_MAX_DATA_SIZE_LENGTH :: nat where "TCP_MAX_DATA_SIZE_LENGTH = 50"

text \<open>The two headers define different chunk sizes, an \<open>int\<close> and a \<open>uint64_t\<close>.\<close>

definition CLIENT_CHUNK_SIZE :: int where "CLIENT_CHUNK_SIZE = 10 * 1024 * 1024"
definition SERVER_CHUNK_SIZE :: u64 where "SERVER_CHUNK_SIZE = 100 * 1024 * 1024"

subsection \<open>TCPClient\<close>

record tcp_client =
  tc_closed :: bool
  tc_connected :: bool

text \<open>\<open>ec\<close>: whether shutting the socket down reports an error.\<close>

definition tcp_client_close :: "bool \<Rightarrow> tcp_client \<Rightarrow> rc \<times> tcp_client" where
  "tcp_client_close ec c = (if tc_closed c then (1, c) else if ec then (1, c) else (0, c\<lparr>tc_closed := True\<rparr>))"

definition tcp_client_connect :: "bool \<Rightarrow> bool \<Rightarrow> tcp_client \<Rightarrow> rc \<times> tcp_client" where
  "tcp_client_connect ok ec c =
     (if ok then (0, c\<lparr>tc_connected := True\<rparr>) else (1, snd (tcp_client_close ec c)))"

definition tcp_client_new :: "bool \<Rightarrow> bool \<Rightarrow> tcp_client" where
  "tcp_client_new ok ec = snd (tcp_client_connect ok ec \<lparr>tc_closed = False, tc_connected = False\<rparr>)"

text \<open>A field: the string, a NUL if there is room for one, and whatever \<open>malloc\<close> left behind it. \<open>boost::asio::write\<close>
  writes all of it. A string that is too long is not written at all.\<close>

definition send_control_data :: "(nat \<Rightarrow> char) \<Rightarrow> string \<Rightarrow> nat \<Rightarrow> string \<Rightarrow> rc \<times> string" where
  "send_control_data junk control_data max_size sock =
     (if length control_data > max_size then (1, sock)
      else (0, sock @ control_data @
        (if length control_data < max_size then CHR 0x00 # map junk [Suc (length control_data)..<max_size] else [])))"

text \<open>The \<open>k\<close>-th \<open>send\<close> fails (\<open>None\<close>) or takes at least one byte and at most the chunk.\<close>

type_synonym link = "nat \<Rightarrow> nat option"

definition send_chunk :: "link \<Rightarrow> nat \<Rightarrow> nat \<Rightarrow> int" where
  "send_chunk net k chunk_size = (case net k of None \<Rightarrow> -1 | Some n \<Rightarrow> int (min chunk_size (Suc n)))"

lemma send_chunk_range: "0 < c \<Longrightarrow> send_chunk net k c \<noteq> -1 \<Longrightarrow> 0 < send_chunk net k c \<and> send_chunk net k c \<le> int c"
  by (auto simp: send_chunk_def split: option.splits)

text \<open>Reading past the end of the data is undefined.\<close>

function send_loop :: "link \<Rightarrow> nat \<Rightarrow> string \<Rightarrow> int \<Rightarrow> string \<Rightarrow> (rc \<times> string) option" where
  "send_loop net k data to_send sock =
     (if to_send > 0
      then let chunk_size = (if to_send > CLIENT_CHUNK_SIZE then CLIENT_CHUNK_SIZE else to_send);
               sent = send_chunk net k (nat chunk_size)
           in if length data < nat chunk_size then None
              else if sent = -1 then Some (1, sock)
              else send_loop net (Suc k) (drop (nat sent) data) (to_send - sent) (sock @ take (nat sent) data)
      else Some (0, sock))"
  by pat_completeness auto
termination
proof (relation "measure (\<lambda>(_, _, _, n, _). nat n)", goal_cases)
  case (2 net k data to_send sock chunk_size sent)
  then have "0 < nat chunk_size" by (simp add: CLIENT_CHUNK_SIZE_def split: if_splits)
  with 2 send_chunk_range [of "nat chunk_size" net k] show ?case by simp
qed simp

declare send_loop.simps [simp del]

definition tcp_send :: "tcp_client \<Rightarrow> (nat \<Rightarrow> char) \<Rightarrow> link \<Rightarrow> string \<Rightarrow> int \<Rightarrow> string \<Rightarrow> (rc \<times> string) option" where
  "tcp_send c junk net data_id data_size data =
     (if \<not> tc_connected c then None
      else let (_, sock) = send_control_data junk data_id TCP_MAX_DATA_ID_LENGTH [];
               (_, sock) = send_control_data junk (dec_int data_size) TCP_MAX_DATA_SIZE_LENGTH sock
           in send_loop net 0 data data_size sock)"

subsection \<open>TCPServer\<close>

record 'cb tcp_server =
  ts_closed :: bool
  ts_inited :: bool
  ts_data_recv_cb :: "'cb option"
  ts_syncer :: "u32 syncer"

definition tcp_server_new :: "'cb tcp_server" where
  "tcp_server_new = \<lparr>ts_closed = False, ts_inited = False, ts_data_recv_cb = None, ts_syncer = syncer_new\<rparr>"

text \<open>\<open>socket_v\<close> is never filled, so its loop does nothing.\<close>

definition tcp_server_close :: "'cb tcp_server \<Rightarrow> rc \<times> 'cb tcp_server" where
  "tcp_server_close s = (if ts_closed s then (1, s) else (0, s\<lparr>ts_closed := True\<rparr>))"

text \<open>\<open>init\<close> up to the wait; the first component says whether it starts the listening thread.\<close>

definition tcp_server_init :: "tid \<Rightarrow> 'cb \<Rightarrow> string \<Rightarrow> 'cb tcp_server \<Rightarrow> (bool \<times> 'cb tcp_server) option" where
  "tcp_server_init t cb data_id s = do {
     let p = hash_str data_id;
     y \<leftarrow> sync_wait p t (snd (add_sync_point p 1 (ts_syncer s)));
     Some (\<not> ts_inited s, s\<lparr>ts_data_recv_cb := Some cb, ts_inited := True, ts_syncer := y\<rparr>) }"

definition tcp_server_init_resume :: "string \<Rightarrow> 'cb tcp_server \<Rightarrow> 'cb tcp_server option" where
  "tcp_server_init_resume data_id s = do {
     (_, y) \<leftarrow> del_sync_point (hash_str data_id) (ts_syncer s);
     Some (s\<lparr>ts_syncer := y\<rparr>) }"

text \<open>How the thread of a connection ends: with the item complete, because the peer closed the connection, because the
  server was closed, or by an exception (which ends the process).\<close>

datatype recv_end = Recv_done | Recv_peer_closed | Recv_closed | Recv_thrown

definition c_field :: "string \<Rightarrow> string option" where
  "c_field s = (if CHR 0x00 \<in> set s then Some (c_str s) else None)"

definition to_recv :: "int \<Rightarrow> int" where
  "to_recv left = (if (word_of_int left :: u64) < SERVER_CHUNK_SIZE then left else uint SERVER_CHUNK_SIZE)"

function recv_chunks :: "int \<Rightarrow> string \<Rightarrow> string list \<times> recv_end" where
  "recv_chunks total_to_recv_size sock =
     (let n = to_recv total_to_recv_size
      in if length sock < nat n then ([], Recv_peer_closed)
         else if total_to_recv_size - n = 0 then ([take (nat n) sock], Recv_done)
         else let (cs, e) = recv_chunks (total_to_recv_size - n) (drop (nat n) sock) in (take (nat n) sock # cs, e))"
  by pat_completeness auto
termination
proof (relation "measure (\<lambda>(_, s). length s)", goal_cases)
  case (2 total sock n)
  then have "0 < nat n" "nat n \<le> length sock" by (auto simp: to_recv_def SERVER_CHUNK_SIZE_def split: if_splits)
  then show ?case by simp
qed simp

declare recv_chunks.simps [simp del]

text \<open>The calls of \<open>handle_recv\<close>, each in a thread of its own, how the loop ends and the points it notifies.\<close>

definition tcp_init_recv :: "lexer \<Rightarrow> bool \<Rightarrow> string \<Rightarrow> ((string \<times> int \<times> string) list \<times> recv_end \<times> u32 list) option" where
  "tcp_init_recv L closed sock =
     (if closed then Some ([], Recv_closed, [])
      else if length sock < TCP_MAX_DATA_ID_LENGTH then Some ([], Recv_thrown, [])
      else do {
        data_id \<leftarrow> c_field (take TCP_MAX_DATA_ID_LENGTH sock);
        let sock = drop TCP_MAX_DATA_ID_LENGTH sock;
        if length sock < TCP_MAX_DATA_ID_LENGTH then Some ([], Recv_thrown, [])
        else do {
          sz \<leftarrow> c_field (take TCP_MAX_DATA_ID_LENGTH sock);
          (case lex_int L sz of
             None \<Rightarrow> Some ([], Recv_thrown, [])
           | Some data_size \<Rightarrow>
               let (cs, e) = recv_chunks data_size (drop TCP_MAX_DATA_ID_LENGTH sock)
               in Some (map (\<lambda>c. (data_id, int (length c), c)) cs, e, if e = Recv_done then [hash_str data_id] else [])) } })"


subsection \<open>TCPTrans and Trans\<close>

text \<open>The clients with a transfer under way are kept by number.\<close>

record 'cb tcp_trans =
  tcp_server_t :: "'cb tcp_server"
  active_tcp_client_v :: "nat list"
  tt_closed :: bool

definition tcp_trans_new :: "'cb tcp_trans" where
  "tcp_trans_new = \<lparr>tcp_server_t = tcp_server_new, active_tcp_client_v = [], tt_closed = False\<rparr>"

text \<open>The loop over the clients compares its iterator with \<open>begin()\<close>, so none is closed; \<open>closed\<close> is left unset.\<close>

definition tcp_trans_close :: "'cb tcp_trans \<Rightarrow> rc \<times> 'cb tcp_trans" where
  "tcp_trans_close s = (if tt_closed s then (1, s) else (0, s\<lparr>tcp_server_t := snd (tcp_server_close (tcp_server_t s))\<rparr>))"

text \<open>\<open>conn\<close>: the client once constructed, \<open>j\<close> its number; the second component is what the peer receives.\<close>

definition tcp_trans_send ::
  "tcp_client \<Rightarrow> nat \<Rightarrow> (nat \<Rightarrow> char) \<Rightarrow> link \<Rightarrow> string \<Rightarrow> int \<Rightarrow> string \<Rightarrow> 'cb tcp_trans \<Rightarrow> (rc \<times> string \<times> 'cb tcp_trans) option" where
  "tcp_trans_send conn j junk net data_id data_size data s = do {
     let s = s\<lparr>active_tcp_client_v := active_tcp_client_v s @ [j]\<rparr>;
     (err, sock) \<leftarrow> tcp_send conn junk net data_id data_size data;
     if err \<noteq> 0 then Some (err, sock, s)
     else do {
       v \<leftarrow> erase_find j (active_tcp_client_v s);
       Some (0, sock, s\<lparr>active_tcp_client_v := v\<rparr>) } }"

definition INFINIBAND :: string where "INFINIBAND = ''i''"
definition TCP :: string where "TCP = ''t''"

text \<open>\<open>int data_size = data_length; data_size *= sizeof(T)\<close>: reduced to 32 bits twice.\<close>

definition int32_of :: "u64 \<Rightarrow> int" where
  "int32_of w = sint (ucast w :: 32 word)"

definition elem_size :: "string \<Rightarrow> int option" where
  "elem_size data_type =
     (if data_type = ''char'' then Some 1 else if data_type = ''int'' then Some 4
      else if data_type = ''float'' then Some 4 else if data_type = ''double'' then Some 8 else None)"

definition put_size :: "string \<Rightarrow> u64 \<Rightarrow> int option" where
  "put_size data_type data_length =
     map_option (\<lambda>e. int32_of (word_of_int (int32_of data_length) * word_of_int e)) (elem_size data_type)"

text \<open>\<open>Trans::init_put\<close>: what the InfiniBand client returns is an argument; of a TCP send the return code is dropped.\<close>

definition trans_init_put ::
  "string \<Rightarrow> rc \<Rightarrow> tcp_client \<Rightarrow> nat \<Rightarrow> (nat \<Rightarrow> char) \<Rightarrow> link \<Rightarrow> string \<Rightarrow> string \<Rightarrow> u64 \<Rightarrow> string \<Rightarrow> 'cb tcp_trans \<Rightarrow>
     (rc \<times> string \<times> 'cb tcp_trans) option" where
  "trans_init_put trans_protocol ib_err conn j junk net data_type data_id data_length data s =
     (if trans_protocol = INFINIBAND then Some (ib_err, [], s)
      else if trans_protocol = TCP
      then (case put_size data_type data_length of
              None \<Rightarrow> Some (1, [], s)
            | Some data_size \<Rightarrow>
                map_option (\<lambda>(_, sock, s). (0, sock, s)) (tcp_trans_send conn j junk net data_id data_size data s))
      else Some (0, [], s))"

text \<open>\<open>Trans::init_get\<close> over TCP sleeps in the server.\<close>

definition trans_init_get :: "tid \<Rightarrow> 'cb \<Rightarrow> string \<Rightarrow> 'cb tcp_trans \<Rightarrow> (bool \<times> 'cb tcp_trans) option" where
  "trans_init_get t cb data_id s =
     map_option (\<lambda>(b, x). (b, s\<lparr>tcp_server_t := x\<rparr>)) (tcp_server_init t cb data_id (tcp_server_t s))"

definition trans_init_get_resume :: "string \<Rightarrow> 'cb tcp_trans \<Rightarrow> (rc \<times> 'cb tcp_trans) option" where
  "trans_init_get_resume data_id s =
     map_option (\<lambda>x. (0, s\<lparr>tcp_server_t := x\<rparr>)) (tcp_server_init_resume data_id (tcp_server_t s))"

subsection \<open>A transfer\<close>

lemma send_loop_all:
  "\<forall>k. net k \<noteq> None \<Longrightarrow> 0 \<le> n \<Longrightarrow> nat n \<le> length data \<Longrightarrow> send_loop net k data n sock = Some (0, sock @ take (nat n) data)"
proof (induction net k data n sock rule: send_loop.induct)
  case (1 net k data n sock)
  show ?case
  proof (cases "n > 0")
    case True
    define c where "c = (if n > CLIENT_CHUNK_SIZE then CLIENT_CHUNK_SIZE else n)"
    define sent where "sent = send_chunk net k (nat c)"
    have c: "0 < nat c" "c \<le> n" using True by (auto simp: c_def CLIENT_CHUNK_SIZE_def)
    have "sent \<noteq> -1" using 1(2) by (auto simp: sent_def send_chunk_def split: option.split)
    with c send_chunk_range [of "nat c" net k] have sent: "0 < sent" "sent \<le> n" "sent \<noteq> -1" by (auto simp: sent_def)
    have len: "nat c \<le> length data" using c 1(4) by linarith
    have split: "take (nat n) data = take (nat sent) data @ take (nat (n - sent)) (drop (nat sent) data)"
    proof -
      have "nat n = nat sent + nat (n - sent)" using sent by simp
      then show ?thesis by (simp only: take_add)
    qed
    have "send_loop net (Suc k) (drop (nat sent) data) (n - sent) (sock @ take (nat sent) data) =
        Some (0, (sock @ take (nat sent) data) @ take (nat (n - sent)) (drop (nat sent) data))"
      using True len sent 1(2,4) by (intro 1(1)) (auto simp: c_def sent_def Let_def)
    then show ?thesis using True len sent split
      by (subst send_loop.simps) (simp add: Let_def c_def [symmetric] sent_def [symmetric])
  next
    case False
    then show ?thesis using 1(3) by (subst send_loop.simps) simp
  qed
qed

lemma send_loop_prefix:
  "send_loop net k data n sock = Some (r, out) \<Longrightarrow> send_loop net k data n (pre @ sock) = Some (r, pre @ out)"
proof (induction net k data n sock arbitrary: out rule: send_loop.induct)
  case (1 net k data n sock)
  show ?case
  proof (cases "n > 0")
    case True
    define c where "c = (if n > CLIENT_CHUNK_SIZE then CLIENT_CHUNK_SIZE else n)"
    define sent where "sent = send_chunk net k (nat c)"
    note unf = send_loop.simps [of net k data n, folded c_def, unfolded Let_def, folded sent_def]
    have IH: "send_loop net (Suc k) (drop (nat sent) data) (n - sent) (sock @ take (nat sent) data) = Some (r, out') \<Longrightarrow>
        \<not> length data < nat c \<Longrightarrow> sent \<noteq> - 1 \<Longrightarrow>
        send_loop net (Suc k) (drop (nat sent) data) (n - sent) (pre @ sock @ take (nat sent) data) = Some (r, pre @ out')" for out'
      using 1(1) True by (simp add: c_def sent_def Let_def)
    show ?thesis using 1(2) True IH by (auto simp: unf split: if_splits)
  next
    case False
    then show ?thesis using 1(2) by (simp add: send_loop.simps)
  qed
qed

lemma to_recv_range: "0 < n \<Longrightarrow> n < 2 ^ 31 \<Longrightarrow> 0 < to_recv n \<and> to_recv n \<le> n \<and> to_recv n \<le> uint SERVER_CHUNK_SIZE"
  by (auto simp: to_recv_def SERVER_CHUNK_SIZE_def word_less_def unsigned_of_int take_bit_int_eq_self)

lemma recv_chunks_all:
  "0 < n \<Longrightarrow> n < 2 ^ 31 \<Longrightarrow> length sock = nat n \<Longrightarrow>
     snd (recv_chunks n sock) = Recv_done \<and> concat (fst (recv_chunks n sock)) = sock"
proof (induction n sock rule: recv_chunks.induct)
  case (1 n sock)
  have r: "0 < to_recv n" "to_recv n \<le> n" using to_recv_range 1(2,3) by auto
  show ?case
  proof (cases "to_recv n = n")
    case True
    then show ?thesis using 1(2,4) by (subst (1 2) recv_chunks.simps) simp
  next
    case False
    have IH: "snd (recv_chunks (n - to_recv n) (drop (nat (to_recv n)) sock)) = Recv_done \<and>
        concat (fst (recv_chunks (n - to_recv n) (drop (nat (to_recv n)) sock))) = drop (nat (to_recv n)) sock"
      using 1(2-4) r False by (intro 1(1)) (auto simp: nat_diff_distrib)
    then show ?thesis using r False 1(4)
      by (subst (1 2) recv_chunks.simps) (simp add: Let_def split_def)
  qed
qed


text \<open>The chunks the server hands over are at most a chunk long.\<close>

lemma recv_chunks_short: "c \<in> set (fst (recv_chunks n sock)) \<Longrightarrow> n \<le> 2 ^ 31 \<Longrightarrow> 0 \<le> n \<Longrightarrow> length c \<le> nat (uint SERVER_CHUNK_SIZE)"
proof (induction n sock rule: recv_chunks.induct)
  case (1 n sock)
  have r: "to_recv n \<le> uint SERVER_CHUNK_SIZE" "0 \<le> to_recv n" "to_recv n \<le> n"
    using 1(3,4) by (auto simp: to_recv_def SERVER_CHUNK_SIZE_def word_less_def unsigned_of_int take_bit_int_eq_self)
  have "c \<in> set (fst (recv_chunks (n - to_recv n) (drop (nat (to_recv n)) sock))) \<Longrightarrow> \<not> length sock < nat (to_recv n) \<Longrightarrow>
      n - to_recv n \<noteq> 0 \<Longrightarrow> length c \<le> nat (uint SERVER_CHUNK_SIZE)"
    using r 1(3) by (intro 1(1)) auto
  moreover have "length (take (nat (to_recv n)) sock) \<le> nat (uint SERVER_CHUNK_SIZE)" using r nat_mono [OF r(1)] by auto
  ultimately show ?case using 1(2)
    by (subst (asm) recv_chunks.simps) (auto simp: Let_def split_def split: if_splits)
qed

lemma recv_nothing: "recv_chunks 0 [] = ([[]], Recv_done)"
  by (subst recv_chunks.simps) (simp add: to_recv_def SERVER_CHUNK_SIZE_def Let_def)

lemma field_written:
  "length s < n \<Longrightarrow> send_control_data junk s n sock = (0, sock @ (s @ CHR 0x00 # map junk [Suc (length s)..<n]))"
  by (simp add: send_control_data_def)

lemma field_read:
  assumes "CHR 0x00 \<notin> set s" "length s < n"
  shows "c_field (take n ((s @ CHR 0x00 # map junk [Suc (length s)..<n]) @ rest)) = Some s"
    "drop n ((s @ CHR 0x00 # map junk [Suc (length s)..<n]) @ rest) = rest"
    "n \<le> length ((s @ CHR 0x00 # map junk [Suc (length s)..<n]) @ rest)"
proof -
  have len: "length (s @ CHR 0x00 # map junk [Suc (length s)..<n]) = n" using assms(2) by simp
  have "c_str (s @ CHR 0x00 # map junk [Suc (length s)..<n]) = s"
    using assms(1) by (auto simp: c_str_def takeWhile_append)
  then show "c_field (take n ((s @ CHR 0x00 # map junk [Suc (length s)..<n]) @ rest)) = Some s"
    using len by (simp only: take_append) (simp add: c_field_def)
  show "drop n ((s @ CHR 0x00 # map junk [Suc (length s)..<n]) @ rest) = rest"
    using len by (simp only: drop_append) simp
  show "n \<le> length ((s @ CHR 0x00 # map junk [Suc (length s)..<n]) @ rest)" using len by simp
qed

lemma length_dec_int: "\<bar>i\<bar> < 10 ^ 10 \<Longrightarrow> length (dec_int i) < 50"
proof -
  assume "\<bar>i\<bar> < 10 ^ 10"
  then have "nat \<bar>i\<bar> < 10 ^ 10" by (simp add: nat_less_iff)
  then have "length (dec (nat \<bar>i\<bar>)) \<le> 10" by (rule length_dec) simp
  then show ?thesis by (auto simp: dec_int_def)
qed

lemma dec_int_no_nul: "CHR 0x00 \<notin> set (dec_int i)"
  by (simp add: dec_int_def dec_not_in)

text \<open>What a send puts on the wire is read back field by field.\<close>

lemma wire_format:
  assumes "lexer_ok L" "CHR 0x00 \<notin> set data_id" "length data_id < 50" "- (2 ^ 31) \<le> data_size" "data_size < 2 ^ 31"
    "send_loop net 0 data data_size [] = Some (r, body)" "tc_connected c"
  obtains sock where "tcp_send c junk net data_id data_size data = Some (r, sock)"
    "tcp_init_recv L False sock =
       (let (cs, e) = recv_chunks data_size body
        in Some (map (\<lambda>x. (data_id, int (length x), x)) cs, e, if e = Recv_done then [hash_str data_id] else []))"
proof -
  have size: "length (dec_int data_size) < 50" "CHR 0x00 \<notin> set (dec_int data_size)"
    using assms(4,5) length_dec_int [of data_size] dec_int_no_nul by auto
  define f1 where "f1 = data_id @ CHR 0x00 # map junk [Suc (length data_id)..<50]"
  define f2 where "f2 = dec_int data_size @ CHR 0x00 # map junk [Suc (length (dec_int data_size))..<50]"
  have lex: "lex_int L (dec_int data_size) = Some data_size" using assms(1,4,5) by (auto simp: lexer_ok_def)
  have "tcp_send c junk net data_id data_size data = send_loop net 0 data data_size (f1 @ f2)"
    using assms(3,7) size by (simp add: tcp_send_def field_written TCP_MAX_DATA_ID_LENGTH_def TCP_MAX_DATA_SIZE_LENGTH_def f1_def f2_def)
  also have "\<dots> = Some (r, (f1 @ f2) @ body)" using send_loop_prefix [OF assms(6), of "f1 @ f2"] by simp
  finally have send: "tcp_send c junk net data_id data_size data = Some (r, f1 @ f2 @ body)" by simp
  note r1 = field_read [OF assms(2,3), of junk, folded f1_def] and r2 = field_read [OF size(2,1), of junk, folded f2_def]
  have "tcp_init_recv L False (f1 @ f2 @ body) =
      (let (cs, e) = recv_chunks data_size body
       in Some (map (\<lambda>x. (data_id, int (length x), x)) cs, e, if e = Recv_done then [hash_str data_id] else []))"
    using r1(3) [of "f2 @ body"] r2(3) [of body]
    unfolding tcp_init_recv_def TCP_MAX_DATA_ID_LENGTH_def by (simp only: r1(1,2) r2(1,2) Let_def bind.simps lex) (simp add: not_less)
  with send show thesis by (rule that)
qed


text \<open>What a complete send and the server make of an item.\<close>

lemma transfer_calls:
  assumes "lexer_ok L" "CHR 0x00 \<notin> set data_id" "length data_id < TCP_MAX_DATA_ID_LENGTH"
    "0 < data_size" "data_size < 2 ^ 31" "length data = nat data_size" "\<forall>k. net k \<noteq> None" "tc_connected c"
  obtains sock cs where "tcp_send c junk net data_id data_size data = Some (0, sock)"
    "tcp_init_recv L False sock = Some (map (\<lambda>x. (data_id, int (length x), x)) cs, Recv_done, [hash_str data_id])"
    "concat cs = data" "list_all (\<lambda>x. int (length x) \<le> uint SERVER_CHUNK_SIZE) cs"
proof -
  have loop: "send_loop net 0 data data_size [] = Some (0, data)"
    using send_loop_all [OF assms(7), of data_size data 0 "[]"] assms(4,6) by simp
  have id50: "length data_id < 50" using assms(3) by (simp add: TCP_MAX_DATA_ID_LENGTH_def)
  have ge: "- (2 ^ 31) \<le> data_size" using assms(4) by simp
  obtain sock where s: "tcp_send c junk net data_id data_size data = Some (0, sock)"
    "tcp_init_recv L False sock = (let (cs, e) = recv_chunks data_size data
      in Some (map (\<lambda>x. (data_id, int (length x), x)) cs, e, if e = Recv_done then [hash_str data_id] else []))"
    by (rule wire_format [OF assms(1,2) id50 ge assms(5) loop assms(8), of junk])
  obtain cs e where ce: "recv_chunks data_size data = (cs, e)" by fastforce
  have "e = Recv_done" "concat cs = data" using recv_chunks_all [OF assms(4,5,6)] ce by simp_all
  moreover have "list_all (\<lambda>x. int (length x) \<le> uint SERVER_CHUNK_SIZE) cs"
  proof (unfold list_all_iff, intro ballI)
    fix x assume "x \<in> set cs"
    then have "length x \<le> nat (uint SERVER_CHUNK_SIZE)" using recv_chunks_short [of x data_size data] ce assms(4,5) by simp
    then show "int (length x) \<le> uint SERVER_CHUNK_SIZE" by (simp add: SERVER_CHUNK_SIZE_def)
  qed
  ultimately show ?thesis using s ce that by simp
qed

text \<open>C10: an item with a positive size below 2 GiB, sent over a connection that does not fail, arrives complete: the
  server ends normally, notifies exactly the sync point of the item, and the chunks it hands over, each with its own
  length and the right data id, make up the data in the order in which the threads for them are started, however the
  network cuts the sends.\<close>

theorem tcp_transfer_intact:
  assumes "lexer_ok L" "CHR 0x00 \<notin> set data_id" "length data_id < TCP_MAX_DATA_ID_LENGTH"
    "0 < data_size" "data_size < 2 ^ 31" "length data = nat data_size" "\<forall>k. net k \<noteq> None" "tc_connected c"
  shows "\<exists>sock calls. tcp_send c junk net data_id data_size data = Some (0, sock) \<and>
    tcp_init_recv L False sock = Some (calls, Recv_done, [hash_str data_id]) \<and>
    concat (map (\<lambda>(_, _, chunk). chunk) calls) = data \<and>
    list_all (\<lambda>(i, n, chunk). i = data_id \<and> n = int (length chunk) \<and> n \<le> uint SERVER_CHUNK_SIZE) calls"
proof -
  obtain sock cs where "tcp_send c junk net data_id data_size data = Some (0, sock)"
    "tcp_init_recv L False sock = Some (map (\<lambda>x. (data_id, int (length x), x)) cs, Recv_done, [hash_str data_id])"
    "concat cs = data" "list_all (\<lambda>x. int (length x) \<le> uint SERVER_CHUNK_SIZE) cs"
    by (rule transfer_calls [OF assms])
  then show ?thesis by (auto simp: comp_def list_all_iff)
qed

text \<open>An id that is too long is dropped from the stream, and the code that says so is ignored; one that just fits
  leaves no room for the NUL the receiver looks for.\<close>

lemma long_id_dropped: "length s > n \<Longrightarrow> send_control_data junk s n sock = (1, sock)"
  by (simp add: send_control_data_def)

lemma full_id_unterminated:
  "length s = n \<Longrightarrow> CHR 0x00 \<notin> set s \<Longrightarrow> c_field (snd (send_control_data junk s n [])) = None"
  by (simp add: send_control_data_def c_field_def)

text \<open>C39: \<open>init_put\<close> narrows the number of elements and the number of bytes to a signed \<open>int\<close>: \<open>2 ^ 29\<close> numbers of 4
  bytes have a negative size. The put sends no data and reports success; the receiver takes the size for a huge one,
  waits for a first chunk until the connection closes, and hands nothing over and notifies nobody: the get never
  returns.\<close>

theorem large_put_lost:
  assumes "lexer_ok L" "CHR 0x00 \<notin> set data_id" "length data_id < TCP_MAX_DATA_ID_LENGTH" "tc_connected c"
  shows "\<exists>sock s'. trans_init_put TCP ib c j junk net ''float'' data_id (2 ^ 29) data s = Some (0, sock, s') \<and>
    tcp_init_recv L False sock = Some ([], Recv_peer_closed, [])"
proof -
  have id50: "length data_id < 50" using assms(3) by (simp add: TCP_MAX_DATA_ID_LENGTH_def)
  have sz: "put_size ''float'' (2 ^ 29) = Some (- (2 ^ 31))" by (simp add: put_size_def elem_size_def int32_of_def)
  have loop: "send_loop net 0 data (- (2 ^ 31)) [] = Some (0, [])" by (simp add: send_loop.simps)
  obtain sock where t: "tcp_send c junk net data_id (- (2 ^ 31)) data = Some (0, sock)"
    "tcp_init_recv L False sock = (let (cs, e) = recv_chunks (- (2 ^ 31)) []
      in Some (map (\<lambda>x. (data_id, int (length x), x)) cs, e, if e = Recv_done then [hash_str data_id] else []))"
    by (rule wire_format [OF assms(1,2) id50 _ _ loop assms(4), of junk]) auto
  have "recv_chunks (- (2 ^ 31)) [] = ([], Recv_peer_closed)"
    by (subst recv_chunks.simps) (simp add: to_recv_def SERVER_CHUNK_SIZE_def Let_def)
  then show ?thesis using t sz
    by (simp add: trans_init_put_def tcp_trans_send_def TCP_def INFINIBAND_def)
qed

theorem tcp_transfer_intact_witness:
  "\<exists>sock calls. tcp_send \<lparr>tc_closed = False, tc_connected = True\<rparr> (\<lambda>_. CHR ''?'') (\<lambda>k. Some k) ''d_1'' 4 ''abcd'' = Some (0, sock) \<and>
    tcp_init_recv std_lexer False sock = Some (calls, Recv_done, [hash_str ''d_1'']) \<and>
    concat (map (\<lambda>(_, _, chunk). chunk) calls) = ''abcd''"
  using tcp_transfer_intact [OF std_lexer_ok, of "''d_1''" 4 "''abcd''" "\<lambda>k. Some k" "\<lparr>tc_closed = False, tc_connected = True\<rparr>" "\<lambda>_. CHR ''?''"]
  by (auto simp: TCP_MAX_DATA_ID_LENGTH_def)

theorem large_put_lost_witness:
  "\<exists>sock s'. trans_init_put TCP 0 \<lparr>tc_closed = False, tc_connected = True\<rparr> 0 (\<lambda>_. CHR ''?'') (\<lambda>k. Some k) ''float'' ''d_1'' (2 ^ 29)
      ''abcd'' (tcp_trans_new :: unit tcp_trans) = Some (0, sock, s') \<and>
    tcp_init_recv std_lexer False sock = Some ([], Recv_peer_closed, [])"
  by (rule large_put_lost [OF std_lexer_ok]) (simp_all add: TCP_MAX_DATA_ID_LENGTH_def)

end
