(* ===== verification/RFP.thy ===== *)
theory RFP
  imports SDM_Exchange DS_Driver Tcp_Trans
begin

text \<open>
  \<open>RFPManager\<close> (\<open>remote_interact.cpp\<close>): remote fetch and place. \<open>wa_put\<close> gets an item from the local data space and
  sends it; \<open>wa_get\<close> receives an item into a buffer and puts it into the local data space. The chunks that arrive
  are appended to the buffer by \<open>handle_recv\<close>. A call that blocks is split where its thread sleeps. A buffer is the
  list of its bytes, a null pointer is \<open>None\<close>; writing past a buffer is undefined.
\<close>

record rfp_manager =
  rfp_data_id_t :: char
  rfp_protocol :: string
  rfp_trans :: "unit tcp_trans"
  data_id__recved_size_map :: "(string, u64) smap"
  data_id__data_map :: "(string, string option) smap"
  rfp_syncer :: "u32 syncer"

definition rfp_new :: "char \<Rightarrow> string \<Rightarrow> rfp_manager" where
  "rfp_new dt protocol = \<lparr>rfp_data_id_t = dt, rfp_protocol = protocol, rfp_trans = tcp_trans_new,
     data_id__recved_size_map = [], data_id__data_map = [], rfp_syncer = syncer_new\<rparr>"

subsection \<open>Sending an item\<close>

text \<open>The product of two \<open>int\<close>s that does not fit is undefined, and so is using the buffer of a negative size.\<close>

definition alloc_size :: "int \<Rightarrow> int \<Rightarrow> nat option" where
  "alloc_size sz data_length = (if 0 \<le> sz * data_length \<and> sz * data_length < 2 ^ 31 then Some (nat (sz * data_length)) else None)"

text \<open>\<open>wa_put\<close> up to the wait for the data: a code, or the get that is registered with the driver.\<close>

definition wa_put_start ::
  "string \<Rightarrow> u32 \<Rightarrow> int \<Rightarrow> int \<Rightarrow> coor \<Rightarrow> coor \<Rightarrow> coor \<Rightarrow> ds_driver \<Rightarrow> (rc + get_info \<times> ds_driver) option" where
  "wa_put_start ky ver sz ndim gdim lb ub d =
     (let data_length = int32_of (get_data_length (nat ndim) gdim lb ub)
      in if data_length = 0 then Some (Inl 1)
         else do {
           _ \<leftarrow> alloc_size sz data_length;
           let g = \<lparr>gi_var_name = ky, gi_ver = ver, gi_size = sz, gi_ndim = nat ndim, gi_gdim = gdim, gi_lb = lb, gi_ub = ub\<rparr>;
           Some (Inr (g, reg_get_push g d)) })"

text \<open>The connection a transfer uses: what the InfiniBand client would return, the client, its number, the bytes
  \<open>malloc\<close> left in a field, and what the network takes.\<close>

record wire =
  w_ib :: rc
  w_conn :: tcp_client
  w_num :: nat
  w_junk :: "nat \<Rightarrow> char"
  w_link :: link

text \<open>The rest of \<open>wa_put\<close>: \<open>data\<close> is what the data space wrote into the buffer. The second component is what the
  peer receives.\<close>

definition wa_put_finish ::
  "wire \<Rightarrow> string \<Rightarrow> string \<Rightarrow> get_info \<Rightarrow> ds_driver \<Rightarrow> rfp_manager \<Rightarrow> (rc \<times> string \<times> ds_driver \<times> rfp_manager) option" where
  "wa_put_finish W data_type data g d s = do {
     (err, d) \<leftarrow> reg_get_resume g d;
     if err \<noteq> 0 then Some (err, [], d, s)
     else do {
       data_id \<leftarrow> get_data_id (rfp_data_id_t s) (gi_var_name g) (gi_ver g) (gi_lb g) (gi_ub g);
       let data_length = int32_of (get_data_length (gi_ndim g) (gi_gdim g) (gi_lb g) (gi_ub g));
       (err, sock, tr) \<leftarrow> trans_init_put (rfp_protocol s) (w_ib W) (w_conn W) (w_num W) (w_junk W) (w_link W) data_type data_id
                            (word_of_int data_length) data (rfp_trans s);
       Some (err, sock, d, s\<lparr>rfp_trans := tr\<rparr>) } }"

subsection \<open>Receiving an item\<close>

definition wa_get_start ::
  "(nat \<Rightarrow> char) \<Rightarrow> tid \<Rightarrow> string \<Rightarrow> u32 \<Rightarrow> int \<Rightarrow> int \<Rightarrow> coor \<Rightarrow> coor \<Rightarrow> coor \<Rightarrow> rfp_manager \<Rightarrow> (bool \<times> rfp_manager) option" where
  "wa_get_start junk t ky ver sz ndim gdim lb ub s = do {
     data_id \<leftarrow> get_data_id (rfp_data_id_t s) ky ver lb ub;
     let n = word_of_int sz * get_data_length (nat ndim) gdim lb ub;
     (listen, tr) \<leftarrow> trans_init_get t () data_id (rfp_trans s);
     Some (listen, s\<lparr>data_id__recved_size_map := smap_put data_id 0 (data_id__recved_size_map s),
       data_id__data_map := smap_put data_id (Some (map junk [0..<unat n])) (data_id__data_map s), rfp_trans := tr\<rparr>) }"

text \<open>After the wait: \<open>dspaces_put\<close> is the library's put of the bytes of the buffer. When it fails the two maps keep their
  entries.\<close>

definition wa_get_resume ::
  "(string \<Rightarrow> 'l \<Rightarrow> rc \<times> 'l) \<Rightarrow> ('l \<Rightarrow> 'l) \<Rightarrow> string \<Rightarrow> u32 \<Rightarrow> coor \<Rightarrow> coor \<Rightarrow> 'l \<Rightarrow> rfp_manager \<Rightarrow>
     (rc \<times> 'l \<times> rfp_manager) option" where
  "wa_get_resume dspaces_put dspaces_put_sync ky ver lb ub l s = do {
     data_id \<leftarrow> get_data_id (rfp_data_id_t s) ky ver lb ub;
     (_, tr) \<leftarrow> trans_init_get_resume data_id (rfp_trans s);
     let (p, dm) = tsmap_at None data_id (data_id__data_map s);
     buf \<leftarrow> p;
     let (r, l) = ds_sync_put (dspaces_put buf) dspaces_put_sync l;
     let s = s\<lparr>rfp_trans := tr, data_id__data_map := dm\<rparr>;
     if r \<noteq> 0 then Some (1, l, s)
     else do {
       dm \<leftarrow> tsmap_del data_id (data_id__data_map s);
       rm \<leftarrow> tsmap_del data_id (data_id__recved_size_map s);
       Some (0, l, s\<lparr>data_id__data_map := dm, data_id__recved_size_map := rm\<rparr>) } }"

definition write_at :: "nat \<Rightarrow> string \<Rightarrow> string \<Rightarrow> string option" where
  "write_at off bs buf = (if length buf < off + length bs then None else Some (take off buf @ bs @ drop (off + length bs) buf))"

definition rfp_handle_recv :: "string \<Rightarrow> u64 \<Rightarrow> string \<Rightarrow> rfp_manager \<Rightarrow> rfp_manager option" where
  "rfp_handle_recv data_id data_size data s =
     (if \<not> tsmap_contains data_id (data_id__recved_size_map s) then Some s
      else
        let (recved_size, rm) = tsmap_at 0 data_id (data_id__recved_size_map s);
            (p, dm) = tsmap_at None data_id (data_id__data_map s)
        in if length data < unat data_size then None
           else do {
             buf \<leftarrow> p;
             buf \<leftarrow> write_at (unat recved_size) (take (unat data_size) data) buf;
             Some (s\<lparr>data_id__recved_size_map := smap_put data_id (recved_size + data_size) rm,
               data_id__data_map := smap_put data_id (Some buf) dm\<rparr>) })"

definition clean_up_for_retry :: "string \<Rightarrow> rfp_manager \<Rightarrow> (rc \<times> rfp_manager) option" where
  "clean_up_for_retry data_id s =
     (if \<not> tsmap_contains data_id (data_id__data_map s) then Some (1, s)
      else do {
        dm \<leftarrow> tsmap_del data_id (data_id__data_map s);
        rm \<leftarrow> tsmap_del data_id (data_id__recved_size_map s);
        Some (0, s\<lparr>data_id__data_map := dm, data_id__recved_size_map := rm\<rparr>) })"

definition is_being_get :: "string \<Rightarrow> u32 \<Rightarrow> coor \<Rightarrow> coor \<Rightarrow> rfp_manager \<Rightarrow> bool option" where
  "is_being_get ky ver lb ub s =
     map_option (\<lambda>i. tsmap_contains i (data_id__recved_size_map s)) (get_data_id (rfp_data_id_t s) ky ver lb ub)"

text \<open>\<open>wait_for_get\<close>: the point it sleeps on, if any; and what it does when it wakes.\<close>

definition wait_for_get :: "tid \<Rightarrow> string \<Rightarrow> u32 \<Rightarrow> coor \<Rightarrow> coor \<Rightarrow> rfp_manager \<Rightarrow> (u32 option \<times> rfp_manager) option" where
  "wait_for_get t ky ver lb ub s = do {
     data_id \<leftarrow> get_data_id (rfp_data_id_t s) ky ver lb ub;
     if tsmap_contains data_id (data_id__recved_size_map s)
     then do { y \<leftarrow> fall_asleep (hash_str data_id) t (rfp_syncer s); Some (Some (hash_str data_id), s\<lparr>rfp_syncer := y\<rparr>) }
     else Some (None, s) }"

definition wait_for_get_resume :: "u32 \<Rightarrow> rfp_manager \<Rightarrow> rfp_manager option" where
  "wait_for_get_resume p s = do { (_, y) \<leftarrow> del_sync_point p (rfp_syncer s); Some (s\<lparr>rfp_syncer := y\<rparr>) }"

definition rfp_notify_remote_get_done ::
  "(tid list \<Rightarrow> tid) \<Rightarrow> string \<Rightarrow> u32 \<Rightarrow> coor \<Rightarrow> coor \<Rightarrow> rfp_manager \<Rightarrow> (rc \<times> tid option \<times> rfp_manager) option" where
  "rfp_notify_remote_get_done pick ky ver lb ub s = do {
     data_id \<leftarrow> get_data_id (rfp_data_id_t s) ky ver lb ub;
     (_, w, y) \<leftarrow> notify pick (hash_str data_id) (rfp_syncer s);
     Some (0, w, s\<lparr>rfp_syncer := y\<rparr>) }"


subsection \<open>Chunks handled in order\<close>

definition recv_call :: "string \<times> int \<times> string \<Rightarrow> rfp_manager \<Rightarrow> rfp_manager option" where
  "recv_call = (\<lambda>(data_id, n, chunk). rfp_handle_recv data_id (word_of_int n) chunk)"

text \<open>The thread of a connection whose chunk threads run in the order in which they are started and before it notifies:
  the thread it wakes.\<close>

definition conn_in_order :: "(tid list \<Rightarrow> tid) \<Rightarrow> lexer \<Rightarrow> string \<Rightarrow> rfp_manager \<Rightarrow> (tid option list \<times> rfp_manager) option" where
  "conn_in_order pick L sock s = do {
     (calls, _, points) \<leftarrow> tcp_init_recv L (ts_closed (tcp_server_t (rfp_trans s))) sock;
     s \<leftarrow> ops_run recv_call calls s;
     (case points of
        [] \<Rightarrow> Some ([], s)
      | p # _ \<Rightarrow> do {
          (_, w, y) \<leftarrow> notify pick p (ts_syncer (tcp_server_t (rfp_trans s)));
          Some ([w], s\<lparr>rfp_trans := (rfp_trans s)\<lparr>tcp_server_t := (tcp_server_t (rfp_trans s))\<lparr>ts_syncer := y\<rparr>\<rparr>\<rparr>) }) }"

text \<open>The entries of an item of which \<open>off\<close> bytes have arrived.\<close>

definition receiving :: "string \<Rightarrow> nat \<Rightarrow> string \<Rightarrow> rfp_manager \<Rightarrow> bool" where
  "receiving i off buf s \<longleftrightarrow> map_of (data_id__recved_size_map s) i = Some (word_of_nat off) \<and>
     map_of (data_id__data_map s) i = Some (Some buf) \<and> off \<le> length buf \<and> length buf < 2 ^ 64"

lemma place_chunk:
  assumes "receiving i off buf s" "off + length c \<le> length buf"
  obtains s' where "recv_call (i, int (length c), c) s = Some s'"
    "receiving i (off + length c) (take off buf @ c @ drop (off + length c) buf) s'"
    "rfp_trans s' = rfp_trans s" "rfp_data_id_t s' = rfp_data_id_t s"
proof -
  have off: "unat (word_of_nat off :: u64) = off" "unat (word_of_nat (length c) :: u64) = length c"
    using assms by (simp_all add: receiving_def unat_of_nat)
  have r: "recv_call (i, int (length c), c) s =
      Some (s\<lparr>data_id__recved_size_map := smap_put i (word_of_nat off + word_of_nat (length c)) (data_id__recved_size_map s),
        data_id__data_map := smap_put i (Some (take off buf @ c @ drop (off + length c) buf)) (data_id__data_map s)\<rparr>)"
    using assms off by (simp add: recv_call_def rfp_handle_recv_def receiving_def tsmap_at_def smap_contains_def smap_get_def
        smap_touch_def write_at_def)
  show ?thesis by (rule that [OF r]) (use assms in \<open>simp_all add: receiving_def\<close>)
qed

lemma place_chunks:
  assumes "receiving i off buf s" "off + length (concat cs) = length buf"
  shows "\<exists>s'. ops_run recv_call (map (\<lambda>c. (i, int (length c), c)) cs) s = Some s' \<and>
    receiving i (length buf) (take off buf @ concat cs) s' \<and> rfp_trans s' = rfp_trans s \<and> rfp_data_id_t s' = rfp_data_id_t s"
  using assms
proof (induction cs arbitrary: off buf s)
  case (Cons c cs)
  obtain s1 where s1: "recv_call (i, int (length c), c) s = Some s1"
    "receiving i (off + length c) (take off buf @ c @ drop (off + length c) buf) s1"
    "rfp_trans s1 = rfp_trans s" "rfp_data_id_t s1 = rfp_data_id_t s"
    using place_chunk [OF Cons.prems(1), of c] Cons.prems(2) by auto
  have len: "length (take off buf @ c @ drop (off + length c) buf) = length buf" using Cons.prems by simp
  have "off + length c + length (concat cs) = length (take off buf @ c @ drop (off + length c) buf)" using Cons.prems(2) len by simp
  moreover have eq: "take (off + length c) (take off buf @ c @ drop (off + length c) buf) = take off buf @ c"
    using Cons.prems by simp
  ultimately obtain s' where
    "ops_run recv_call (map (\<lambda>c. (i, int (length c), c)) cs) s1 = Some s'"
    "receiving i (length buf) ((take off buf @ c) @ concat cs) s'"
    "rfp_trans s' = rfp_trans s1" "rfp_data_id_t s' = rfp_data_id_t s1" using Cons.IH [OF s1(2)] unfolding len eq by blast
  then show ?case using s1 by simp
qed simp


subsection \<open>From one data space to the other\<close>

text \<open>The sender.\<close>

lemma int32_of_small: "uint n < 2 ^ 31 \<Longrightarrow> int32_of n = uint n"
proof -
  assume n: "uint n < 2 ^ 31"
  have "signed_take_bit 31 (uint n) = uint n" by (rule signed_take_bit_int_eq_self) (use n in \<open>auto intro: order_trans [of _ 0]\<close>)
  then show ?thesis by (simp add: int32_of_def signed_ucast_eq)
qed

lemma uint_mult_small: "0 \<le> e \<Longrightarrow> uint n * e < 2 ^ 31 \<Longrightarrow> uint (n * word_of_int e :: u64) = uint n * e"
proof -
  assume e: "0 \<le> e" "uint n * e < 2 ^ 31"
  have "n * word_of_int e = word_of_int (uint n * e)" by simp
  moreover have "take_bit 64 (uint n * e) = uint n * e" using e by (intro take_bit_int_eq_self) auto
  moreover have "uint (word_of_int (uint n * e) :: u64) = take_bit 64 (uint n * e)" by (simp only: uint_word_of_int_eq) simp
  ultimately show ?thesis by (simp only:)
qed

lemma unat_mult_small: "elem_size ty = Some sz \<Longrightarrow> uint n * sz < 2 ^ 31 \<Longrightarrow> unat (word_of_int sz * (n :: u64)) = unat n * nat sz"
proof -
  assume e: "elem_size ty = Some sz" "uint n * sz < 2 ^ 31"
  then have sz: "0 \<le> sz" by (auto simp: elem_size_def split: if_splits)
  have "unat (n * word_of_int sz) = nat (uint n * sz)" by (simp only: unat_eq_nat_uint uint_mult_small [OF sz e(2)])
  then show ?thesis using sz by (simp only: mult.commute [of "word_of_int sz"] nat_mult_distrib uint_ge_0 unat_eq_nat_uint)
qed

lemma put_size_small: "elem_size ty = Some sz \<Longrightarrow> uint n < 2 ^ 31 \<Longrightarrow> uint n * sz < 2 ^ 31 \<Longrightarrow> put_size ty n = Some (uint n * sz)"
proof -
  assume a: "elem_size ty = Some sz" "uint n < 2 ^ 31" "uint n * sz < 2 ^ 31"
  then have sz: "0 \<le> sz" by (auto simp: elem_size_def split: if_splits)
  have "int32_of (n * word_of_int sz) = uint n * sz"
    using int32_of_small [of "n * word_of_int sz"] uint_mult_small [OF sz a(3)] a(3) by simp
  then show ?thesis using a(1,2) by (simp add: put_size_def int32_of_small)
qed

lemma wa_put_sends:
  assumes "lexer_ok L" "get_data_id (rfp_data_id_t s) ky ver lb ub = Some i" "CHR 0x00 \<notin> set i" "length i < TCP_MAX_DATA_ID_LENGTH"
    "elem_size ty = Some sz" "get_data_length (nat ndim) gdim lb ub = n" "0 < n" "uint n * sz < 2 ^ 31" "uint n < 2 ^ 31"
    "length data = unat n * nat sz" "rfp_protocol s = TCP" "tc_connected (w_conn W)" "\<forall>k. w_link W k \<noteq> None"
    "wa_put_start ky ver sz ndim gdim lb ub d0 = Some (Inr (g, d1))" "reg_get_resume g d = Some (0, d')"
  obtains sock s' cs where "wa_put_finish W ty data g d s = Some (0, sock, d', s')"
    "tcp_init_recv L False sock = Some (map (\<lambda>x. (i, int (length x), x)) cs, Recv_done, [hash_str i])" "concat cs = data"
proof -
  have sz: "sz \<in> {1, 4, 8}" using assms(5) by (auto simp: elem_size_def split: if_splits)
  have n: "0 < uint n" using assms(7) by (simp add: word_less_def)
  have len: "length data = nat (uint n * sz)" using sz assms(10) by (auto simp: nat_mult_distrib)
  have pos: "0 < uint n * sz" using n sz by auto
  obtain sock cs where t: "tcp_send (w_conn W) (w_junk W) (w_link W) i (uint n * sz) data = Some (0, sock)"
    "tcp_init_recv L False sock = Some (map (\<lambda>x. (i, int (length x), x)) cs, Recv_done, [hash_str i])" "concat cs = data"
    by (rule transfer_calls [OF assms(1,3,4) pos assms(8) len assms(13,12)])
  have g: "gi_var_name g = ky" "gi_ver g = ver" "gi_ndim g = nat ndim" "gi_gdim g = gdim" "gi_lb g = lb" "gi_ub g = ub"
    using assms(14) by (auto simp: wa_put_start_def Let_def bind_eq_Some_conv split: if_splits)
  have send: "tcp_trans_send (w_conn W) (w_num W) (w_junk W) (w_link W) i (uint n * sz) data (rfp_trans s) =
      Some (0, sock, rfp_trans s\<lparr>active_tcp_client_v := remove1 (w_num W) (active_tcp_client_v (rfp_trans s) @ [w_num W])\<rparr>)"
    by (simp add: tcp_trans_send_def t)
  show ?thesis
    by (rule that [OF _ t(2,3)])
      (simp add: wa_put_finish_def assms(2,6,11,15) g int32_of_small [OF assms(9)] trans_init_put_def
        put_size_small [OF assms(5,9,8)] send TCP_def INFINIBAND_def)
qed

text \<open>The receiver: asleep in \<open>wa_get\<close>, with a buffer of the right size.\<close>

lemma wa_get_waits:
  assumes "wa_get_start junk t ky ver sz ndim gdim lb ub r = Some (listen, r1)" "get_data_id (rfp_data_id_t r) ky ver lb ub = Some i"
    "\<not> smap_contains (hash_str i) (point_cv_map (ts_syncer (tcp_server_t (rfp_trans r))))"
    "unat (word_of_int sz * get_data_length (nat ndim) gdim lb ub) = k"
  shows "receiving i 0 (map junk [0..<k]) r1" "sleeper (hash_str i) t (ts_syncer (tcp_server_t (rfp_trans r1)))"
    "ts_closed (tcp_server_t (rfp_trans r1)) = ts_closed (tcp_server_t (rfp_trans r))" "rfp_data_id_t r1 = rfp_data_id_t r"
proof -
  obtain y where y: "fall_asleep (hash_str i) t (ts_syncer (tcp_server_t (rfp_trans r))) = Some y" "sleeper (hash_str i) t y"
    by (rule asleep_alone [OF assms(3)])
  then have r1: "r1 = r\<lparr>data_id__recved_size_map := smap_put i 0 (data_id__recved_size_map r),
      data_id__data_map := smap_put i (Some (map junk [0..<k])) (data_id__data_map r),
      rfp_trans := (rfp_trans r)\<lparr>tcp_server_t := (tcp_server_t (rfp_trans r))\<lparr>ts_data_recv_cb := Some (), ts_inited := True, ts_syncer := y\<rparr>\<rparr>\<rparr>"
    using assms(1,2,4) by (auto simp: wa_get_start_def trans_init_get_def tcp_server_init_def fall_asleep_def Let_def bind_eq_Some_conv)
  have "k < 2 ^ 64" unfolding assms(4) [symmetric] by (rule order_less_le_trans [OF unsigned_less]) simp
  then show "receiving i 0 (map junk [0..<k]) r1" by (simp add: r1 receiving_def)
  show "sleeper (hash_str i) t (ts_syncer (tcp_server_t (rfp_trans r1)))" using y by (simp add: r1)
  show "ts_closed (tcp_server_t (rfp_trans r1)) = ts_closed (tcp_server_t (rfp_trans r))" "rfp_data_id_t r1 = rfp_data_id_t r"
    by (simp_all add: r1)
qed

text \<open>The chunks of the item, handled in order, fill the buffer; then the thread in \<open>wa_get\<close> is woken.\<close>

lemma recv_keeps_syncer: "ops_run recv_call xs s = Some s' \<Longrightarrow> rfp_syncer s' = rfp_syncer s"
proof (induction xs arbitrary: s)
  case (Cons x xs)
  have "recv_call x s = Some s1 \<Longrightarrow> rfp_syncer s1 = rfp_syncer s" for s1
    by (cases x) (auto simp: recv_call_def rfp_handle_recv_def Let_def bind_eq_Some_conv split: if_splits prod.splits)
  then show ?case using Cons by (auto simp: bind_eq_Some_conv split: option.splits)
qed simp

lemma item_received:
  assumes "wa_get_start junk t ky ver sz ndim gdim lb ub r = Some (listen, r1)" "get_data_id (rfp_data_id_t r) ky ver lb ub = Some i"
    "\<not> smap_contains (hash_str i) (point_cv_map (ts_syncer (tcp_server_t (rfp_trans r))))" "\<not> ts_closed (tcp_server_t (rfp_trans r))"
    "unat (word_of_int sz * get_data_length (nat ndim) gdim lb ub) = length data" "pick [t] = t"
    "tcp_init_recv L False sock = Some (map (\<lambda>x. (i, int (length x), x)) cs, Recv_done, [hash_str i])" "concat cs = data"
  obtains r2 where "conn_in_order pick L sock r1 = Some ([Some t], r2)" "receiving i (length data) data r2"
    "roused (hash_str i) (ts_syncer (tcp_server_t (rfp_trans r2)))" "rfp_data_id_t r2 = rfp_data_id_t r" "rfp_syncer r2 = rfp_syncer r"
proof -
  note w = wa_get_waits [OF assms(1-3,5)]
  obtain r2 where r2: "ops_run recv_call (map (\<lambda>x. (i, int (length x), x)) cs) r1 = Some r2" "receiving i (length data) data r2"
    "rfp_trans r2 = rfp_trans r1" "rfp_data_id_t r2 = rfp_data_id_t r1"
    using place_chunks [OF w(1), of cs] assms(8) by auto
  obtain y where y: "notify pick (hash_str i) (ts_syncer (tcp_server_t (rfp_trans r1))) = Some (0, Some t, y)" "roused (hash_str i) y"
    by (rule sleeper_notified [where pick = pick, OF w(2) assms(6)])
  let ?r3 = "r2\<lparr>rfp_trans := (rfp_trans r2)\<lparr>tcp_server_t := (tcp_server_t (rfp_trans r2))\<lparr>ts_syncer := y\<rparr>\<rparr>\<rparr>"
  have conn: "conn_in_order pick L sock r1 = Some ([Some t], ?r3)" using assms(4,7) r2(1,3) y(1) w(3) by (simp add: conn_in_order_def)
  have keep: "rfp_syncer r2 = rfp_syncer r"
    using assms(1) recv_keeps_syncer [OF r2(1)] by (auto simp: wa_get_start_def Let_def bind_eq_Some_conv)
  show ?thesis by (rule that [OF conn]) (use r2(2,4) w(4) y(2) keep in \<open>simp_all add: receiving_def\<close>)
qed

lemma wa_get_finishes:
  assumes "receiving i k data r" "get_data_id (rfp_data_id_t r) ky ver lb ub = Some i"
    "roused (hash_str i) (ts_syncer (tcp_server_t (rfp_trans r)))"
  obtains r' code where "wa_get_resume dput dsync ky ver lb ub l r = Some (code, dsync (snd (dput data l)), r')"
    "code = 0 \<longleftrightarrow> fst (dput data l) = 0" "code = 0 \<longrightarrow> is_being_get ky ver lb ub r' = Some False"
proof -
  obtain y where "del_sync_point (hash_str i) (ts_syncer (tcp_server_t (rfp_trans r))) = Some (0, y)"
    using roused_deletes [OF assms(3)] by blast
  then have tr: "trans_init_get_resume i (rfp_trans r) =
      Some (0, (rfp_trans r)\<lparr>tcp_server_t := (tcp_server_t (rfp_trans r))\<lparr>ts_syncer := y\<rparr>\<rparr>)"
    by (simp add: trans_init_get_resume_def tcp_server_init_resume_def)
  have at: "tsmap_at None i (data_id__data_map r) = (Some data, data_id__data_map r)"
    "tsmap_del i (data_id__data_map r) = Some (smap_erase i (data_id__data_map r))"
    "tsmap_del i (data_id__recved_size_map r) = Some (smap_erase i (data_id__recved_size_map r))"
    using assms(1) by (simp_all add: receiving_def tsmap_at_def smap_get_def smap_touch_def smap_contains_def tsmap_del_def)
  obtain c l1 where put: "dput data l = (c, l1)" by fastforce
  let ?r1 = "r\<lparr>rfp_trans := (rfp_trans r)\<lparr>tcp_server_t := (tcp_server_t (rfp_trans r))\<lparr>ts_syncer := y\<rparr>\<rparr>\<rparr>"
  let ?r2 = "?r1\<lparr>data_id__data_map := smap_erase i (data_id__data_map r),
    data_id__recved_size_map := smap_erase i (data_id__recved_size_map r)\<rparr>"
  show ?thesis
  proof (cases "c = 0")
    case True
    have "wa_get_resume dput dsync ky ver lb ub l r = Some (0, dsync (snd (dput data l)), ?r2)"
      using True by (simp add: wa_get_resume_def assms(2) tr at put ds_sync_put_def)
    then show ?thesis by (rule that) (simp_all add: True put is_being_get_def assms(2) tsmap_contains_def)
  next
    case False
    have "wa_get_resume dput dsync ky ver lb ub l r = Some (1, dsync (snd (dput data l)), ?r1)"
      using False by (simp add: wa_get_resume_def assms(2) tr at put ds_sync_put_def)
    then show ?thesis by (rule that) (simp_all add: False put)
  qed
qed





text \<open>The chunk threads are not ordered: when the second of two chunks is handled first, the bytes are put in that
  order.\<close>

lemma chunks_swapped:
  assumes "receiving i 0 buf s" "length buf = length a + length b"
  obtains s' where "ops_run recv_call [(i, int (length b), b), (i, int (length a), a)] s = Some s'"
    "receiving i (length buf) (b @ a) s'"
  using place_chunks [OF assms(1), of "[b, a]"] assms(2) by auto

definition demo_driver :: ds_driver where
  "demo_driver = (ds_driver_new 0 False False)
     \<lparr>ds_syncer := snd (add_sync_point (hash_str (get_data_id_ds ''d'' 0)) 1 syncer_new),
      hashed_data_id__get_return_map := [(hash_str (get_data_id_ds ''d'' 0), 0)]\<rparr>"

definition demo_item :: get_info where
  "demo_item = \<lparr>gi_var_name = ''d'', gi_ver = 0, gi_size = 4, gi_ndim = 3, gi_gdim = [9, 9, 9], gi_lb = [0, 0, 0], gi_ub = [0, 0, 1]\<rparr>"

definition demo_put :: "string \<Rightarrow> string list \<Rightarrow> rc \<times> string list" where
  "demo_put buf l = (0, buf # l)"

definition demo_wire :: wire where
  "demo_wire = \<lparr>w_ib = 0, w_conn = \<lparr>tc_closed = False, tc_connected = True\<rparr>, w_num = 0, w_junk = \<lambda>_. CHR ''?'', w_link = \<lambda>k. Some k\<rparr>"

lemma demo_transfer:
  "get_data_id KV_DATA_ID ''d'' 0 [0, 0, 0] [0, 0, 1] = Some ''d_0''" "elem_size ''int'' = Some 4"
  "get_data_length (nat 3) [9, 9, 9] [0, 0, 0] [0, 0, 1] = 2"
  "wa_put_start ''d'' 0 4 3 [9, 9, 9] [0, 0, 0] [0, 0, 1] demo_driver = Some (Inr (demo_item, reg_get_push demo_item demo_driver))"
  "\<exists>d'. reg_get_resume demo_item demo_driver = Some (0, d')"
  "\<exists>l r1. wa_get_start (\<lambda>_. CHR ''!'') 7 ''d'' 0 4 3 [9, 9, 9] [0, 0, 0] [0, 0, 1] (rfp_new KV_DATA_ID TCP) = Some (l, r1)"
proof -
  show "get_data_id KV_DATA_ID ''d'' 0 [0, 0, 0] [0, 0, 1] = Some ''d_0''" by code_simp
  show "elem_size ''int'' = Some 4" by code_simp
  show len: "get_data_length (nat 3) [9, 9, 9] [0, 0, 0] [0, 0, 1] = 2" by code_simp
  show "wa_put_start ''d'' 0 4 3 [9, 9, 9] [0, 0, 0] [0, 0, 1] demo_driver = Some (Inr (demo_item, reg_get_push demo_item demo_driver))"
    using len by (simp add: wa_put_start_def demo_item_def int32_of_def alloc_size_def Let_def)
  show "\<exists>d'. reg_get_resume demo_item demo_driver = Some (0, d')"
    by (simp add: reg_get_resume_def demo_driver_def demo_item_def get_point_def del_sync_point_def add_sync_point_def syncer_new_def
        tsmap_contains_def tsmap_del_def smap_get_def tsmap_at_def smap_touch_def smap_contains_def)
  have "map_option fst (wa_get_start (\<lambda>_. CHR ''!'') 7 ''d'' 0 4 3 [9, 9, 9] [0, 0, 0] [0, 0, 1] (rfp_new KV_DATA_ID TCP)) = Some True"
    by code_simp
  then show "\<exists>l r1. wa_get_start (\<lambda>_. CHR ''!'') 7 ''d'' 0 4 3 [9, 9, 9] [0, 0, 0] [0, 0, 1] (rfp_new KV_DATA_ID TCP) = Some (l, r1)"
    by auto
qed


end
