(* ===== verification/RI_Manager.thy ===== *)
theory RI_Manager
  imports RFP
begin

text \<open>
  \<open>RIManager\<close> (\<open>remote_interact.cpp\<close>): the process beside a data space that serves the applications of its site. It
  registers their puts and gets with the control layer (an \<open>SDMSlave\<close>) and moves items between data spaces with
  \<open>RFPManager\<close>. A call that blocks is split where its thread sleeps; what comes after the wake-up is a function of its
  own. Besides undefined behaviour, \<open>None\<close> is an exception nobody catches and \<open>exit\<close>.
\<close>

subsection \<open>Message types\<close>

definition GET :: string where "GET = ''g''"
definition GET_REPLY :: string where "GET_REPLY = ''gr''"
definition BLOCKING_GET :: string where "BLOCKING_GET = ''bg''"
definition BLOCKING_GET_REPLY :: string where "BLOCKING_GET_REPLY = ''bgr''"
definition GET_DONE :: string where "GET_DONE = ''gd''"
definition PUT :: string where "PUT = ''p''"
definition PUT_REPLY :: string where "PUT_REPLY = ''pr''"
definition RI_TINFO_QUERY :: string where "RI_TINFO_QUERY = ''ri_tiq''"
definition RI_TINFO_QUERY_REPLY :: string where "RI_TINFO_QUERY_REPLY = ''ri_tiqr''"
definition RI_GRIDFTP_PUT :: string where "RI_GRIDFTP_PUT = ''ri_gp''"
definition RI_REPEAT_TRANS :: string where "RI_REPEAT_TRANS = ''ri_rt''"
definition RI_REPEAT_TRANS_REPLY :: string where "RI_REPEAT_TRANS_REPLY = ''ri_rtr''"
definition RI_FAIL_REMOTE_GET :: string where "RI_FAIL_REMOTE_GET = ''ri_frg''"
definition GRIDFTP :: string where "GRIDFTP = ''g''"
definition REMOTE_P_ID :: int where "REMOTE_P_ID = - 1"

lemmas ri_types = GET_def GET_REPLY_def BLOCKING_GET_def BLOCKING_GET_REPLY_def GET_DONE_def PUT_def PUT_REPLY_def
  RI_TINFO_QUERY_def RI_TINFO_QUERY_REPLY_def RI_GRIDFTP_PUT_def RI_REPEAT_TRANS_def RI_REPEAT_TRANS_REPLY_def
  RI_FAIL_REMOTE_GET_def

subsection \<open>State\<close>

record trans_info =
  ti_lip :: string
  ti_lport :: string
  ti_tmpfs_dir :: string

text \<open>The pointer to the global dimensions; \<open>None\<close> once the array behind it has been freed.\<close>

record data_info =
  di_data_type :: string
  di_size :: int
  di_gdim :: "coor option"

record 't ri_manager =
  ri_data_id_t :: char
  data_trans_protocol :: string
  ri_slave :: "'t sdm_slave"
  ri_node :: sdm_node
  ri_driver :: ds_driver
  ri_rfp :: rfp_manager
  data_id_hash__trans_info_map :: "(u32, trans_info option) smap"
  data_id_hash__data_info_map :: "(u32, data_info option) smap"
  busy_data_id_v :: "string list"
  failed_remote_get_data_id_v :: "string list"
  ri_syncer :: "u32 syncer"
  data_id__remote_get_t_map :: "(string, nat option) smap"

definition ri_new :: "char \<Rightarrow> string \<Rightarrow> 't sdm_slave \<Rightarrow> sdm_node \<Rightarrow> ds_driver \<Rightarrow> 't ri_manager" where
  "ri_new dt protocol sl nd d = \<lparr>ri_data_id_t = dt, data_trans_protocol = protocol, ri_slave = sl, ri_node = nd, ri_driver = d,
     ri_rfp = rfp_new dt protocol, data_id_hash__trans_info_map = [], data_id_hash__data_info_map = [], busy_data_id_v = [],
     failed_remote_get_data_id_v = [], ri_syncer = syncer_new, data_id__remote_get_t_map = []\<rparr>"

text \<open>What the manager works with: the query table, the number reader, the network between the sites and the one to the
  applications, the thread a condition variable wakes, and where its transport listens.\<close>

record 't ri_env =
  e_q :: "'t qtable_ops"
  e_lex :: lexer
  e_net :: net
  e_lnet :: net
  e_pick :: "tid list \<Rightarrow> tid"
  e_lip :: string
  e_lport :: string
  e_tmpfs :: string

text \<open>Effects: those of the control layer, a message to an application, a thread woken, started for a \<open>remote_get\<close> or
  interrupted.\<close>

datatype ri_effect =
    RSdm sdm_effect
  | RApp out_msg
  | RWake tid
  | RThread nat msg_map
  | RInterrupt nat

text \<open>How a call stands: over, or asleep on a point of the slave, of the fetch manager or of its own, or waiting for
  the data space to fetch the data of a put.\<close>

datatype ri_flow =
    RDone
  | RSlave u32
  | RFetch u32
  | ROwn u32
  | RData get_info string

type_synonym 't ri_result = "(ri_flow \<times> ri_effect list \<times> 't ri_manager) option"

definition rwakes :: "tid option \<Rightarrow> ri_effect list" where
  "rwakes w = (case w of None \<Rightarrow> [] | Some t \<Rightarrow> [RWake t])"

definition send_rimsg :: "'t ri_env \<Rightarrow> int \<Rightarrow> msg_map \<Rightarrow> 't ri_manager \<Rightarrow> (rc \<times> ri_effect list) option" where
  "send_rimsg E to_id m s =
     map_option (\<lambda>(r, os). (r, map (\<lambda>x. RSdm (ESend x)) os)) (send_msg (e_net E) to_id PACKET_RIMSG m (sl_node (ri_slave s)))"

definition send_app :: "'t ri_env \<Rightarrow> int \<Rightarrow> msg_map \<Rightarrow> 't ri_manager \<Rightarrow> (rc \<times> ri_effect list) option" where
  "send_app E to_id m s = map_option (\<lambda>(r, os). (r, map RApp os)) (send_msg (e_lnet E) to_id PACKET_RIMSG m (ri_node s))"

definition ri_hash :: "'t ri_manager \<Rightarrow> string \<Rightarrow> u32 \<Rightarrow> coor \<Rightarrow> coor \<Rightarrow> u32 option" where
  "ri_hash s ky ver lb ub = map_option hash_str (get_data_id (ri_data_id_t s) ky ver lb ub)"

subsection \<open>Requests of the applications\<close>

text \<open>\<open>reg_app\<close>, whose return code is ignored.\<close>

definition ri_reg_app :: "'t ri_env \<Rightarrow> tid \<Rightarrow> int \<Rightarrow> 't ri_manager \<Rightarrow> 't ri_result" where
  "ri_reg_app E t cl_id s = do {
     (f, es, sl) \<leftarrow> slave_reg_app (e_net E) t cl_id (ri_slave s);
     Some (case f of Done _ \<Rightarrow> RDone | Sleep p _ \<Rightarrow> RSlave p, map RSdm es, s\<lparr>ri_slave := sl\<rparr>) }"

definition ri_reg_app_resume :: "int \<Rightarrow> 't ri_manager \<Rightarrow> 't ri_manager option" where
  "ri_reg_app_resume cl_id s = map_option (\<lambda>(_, sl). s\<lparr>ri_slave := sl\<rparr>) (slave_reg_app_resume cl_id (ri_slave s))"

text \<open>The decoder allocates the three arrays after it has read the numbers; when it fails before, the caller frees
  pointers that were never set.\<close>

definition arrays_set :: "lexer \<Rightarrow> msg_map \<Rightarrow> bool" where
  "arrays_set L m \<longleftrightarrow> lex_u32 L (msg_get ''ver'' m) \<noteq> None \<and> lex_int L (msg_get ''size'' m) \<noteq> None \<and>
     lex_int L (msg_get ''ndim'' m) \<noteq> None"

text \<open>The reply to a get; when it cannot be sent the arrays are freed twice.\<close>

definition get_reply :: "'t ri_env \<Rightarrow> int \<Rightarrow> string \<Rightarrow> msg_map \<Rightarrow> 't ri_manager \<Rightarrow> 't ri_result" where
  "get_reply E cl_id ds_id m s = do {
     (r, es) \<leftarrow> send_app E cl_id (smap_put ''ds_id'' ds_id m) s;
     if r \<noteq> 0 then None else Some (RDone, es, s) }"

definition get_answer :: "'t ri_env \<Rightarrow> int \<Rightarrow> msg_map \<Rightarrow> rc \<Rightarrow> 't ri_manager \<Rightarrow> 't ri_result" where
  "get_answer E cl_id m r s =
     (if r \<noteq> 0 then get_reply E cl_id ''-1'' m s
      else do {
        data_id \<leftarrow> get_data_id_msg (ri_data_id_t s) m;
        get_reply E cl_id (dec_int (nd_id (sl_node (ri_slave s)))) m (s\<lparr>busy_data_id_v := tsvec_push_back data_id (busy_data_id_v s)\<rparr>) })"

text \<open>From the wait for a transfer on: \<open>failed\<close> ids are refused, the others asked of the control layer.\<close>

definition get_ask :: "'t ri_env \<Rightarrow> tid \<Rightarrow> bool \<Rightarrow> int \<Rightarrow> msg_map \<Rightarrow> string \<Rightarrow> u32 \<Rightarrow> coor \<Rightarrow> coor \<Rightarrow> 't ri_manager \<Rightarrow> 't ri_result" where
  "get_ask E t blocking cl_id m ky ver lb ub s = do {
     data_id \<leftarrow> get_data_id_msg (ri_data_id_t s) m;
     if tsvec_contains data_id (failed_remote_get_data_id_v s) then get_reply E cl_id ''-1'' m s
     else do {
       (f, es, sl) \<leftarrow> slave_get (e_q E) (e_net E) t cl_id blocking ky ver lb ub (ri_slave s);
       let s = s\<lparr>ri_slave := sl\<rparr>;
       (case f of
          Sleep p _ \<Rightarrow> Some (RSlave p, map RSdm es, s)
        | Done r \<Rightarrow> map_option (\<lambda>(f, es', s). (f, map RSdm es @ es', s)) (get_answer E cl_id m r s)) } }"

definition get_ask_resume :: "'t ri_env \<Rightarrow> int \<Rightarrow> msg_map \<Rightarrow> string \<Rightarrow> u32 \<Rightarrow> coor \<Rightarrow> coor \<Rightarrow> 't ri_manager \<Rightarrow> 't ri_result" where
  "get_ask_resume E cl_id m ky ver lb ub s = do {
     (r, sl) \<leftarrow> slave_get_resume (e_q E) ky ver lb ub (ri_slave s);
     get_answer E cl_id m r (s\<lparr>ri_slave := sl\<rparr>) }"

definition get_msg :: "bool \<Rightarrow> msg_map \<Rightarrow> msg_map" where
  "get_msg blocking m = smap_put ''type'' (if blocking then BLOCKING_GET_REPLY else GET_REPLY) m"

text \<open>\<open>handle_get\<close> after \<open>reg_app\<close>.\<close>

definition get_decoded :: "'t ri_env \<Rightarrow> tid \<Rightarrow> bool \<Rightarrow> int \<Rightarrow> msg_map \<Rightarrow> 't ri_manager \<Rightarrow> 't ri_result" where
  "get_decoded E t blocking cl_id m s =
     (let m = get_msg blocking m in
      do { r \<leftarrow> decode_data_msg (e_lex E) m;
           (case r of
              None \<Rightarrow> if arrays_set (e_lex E) m then get_reply E cl_id ''-1'' m s else None
            | Some (ky, ver, _, _, _, _, lb, ub) \<Rightarrow>
                if length lb < NDIM then None
                else do {
                  (p, rf) \<leftarrow> wait_for_get t ky ver lb ub (ri_rfp s);
                  let s = s\<lparr>ri_rfp := rf\<rparr>;
                  (case p of
                     Some p \<Rightarrow> Some (RFetch p, [], s)
                   | None \<Rightarrow> get_ask E t blocking cl_id m ky ver lb ub s) }) })"

definition handle_get :: "'t ri_env \<Rightarrow> tid \<Rightarrow> bool \<Rightarrow> int \<Rightarrow> msg_map \<Rightarrow> 't ri_manager \<Rightarrow> 't ri_result" where
  "handle_get E t blocking cl_id m s = do {
     (f, es, s) \<leftarrow> ri_reg_app E t cl_id s;
     if f \<noteq> RDone then Some (f, es, s)
     else map_option (\<lambda>(f, es', s). (f, es @ es', s)) (get_decoded E t blocking cl_id m s) }"

definition handle_get_done :: "'t ri_env \<Rightarrow> msg_map \<Rightarrow> 't ri_manager \<Rightarrow> 't ri_result" where
  "handle_get_done E m s = do {
     data_id \<leftarrow> get_data_id_msg (ri_data_id_t s) m;
     (_, v) \<leftarrow> tsvec_del data_id (busy_data_id_v s);
     (_, w, y) \<leftarrow> notify (e_pick E) (hash_str (''D'' @ data_id)) (ri_syncer s);
     Some (RDone, rwakes w, s\<lparr>busy_data_id_v := v, ri_syncer := y\<rparr>) }"

text \<open>\<open>handle_put\<close> after \<open>reg_app\<close>; a reply that cannot be sent is only logged.\<close>

definition put_decoded :: "'t ri_env \<Rightarrow> int \<Rightarrow> msg_map \<Rightarrow> 't ri_manager \<Rightarrow> 't ri_result" where
  "put_decoded E p_id m s =
     (let m = smap_put ''type'' PUT_REPLY m in
      do { r \<leftarrow> decode_data_msg (e_lex E) m;
           (case r of
              None \<Rightarrow> if arrays_set (e_lex E) m
                      then map_option (\<lambda>(_, es). (RDone, es, s)) (send_app E p_id (smap_put ''ds_id'' ''-1'' m) s) else None
            | Some (ky, ver, ty, sz, _, g, lb, ub) \<Rightarrow>
                if length lb < NDIM then None
                else do {
                  (r, es, sl) \<leftarrow> slave_put (e_q E) (e_net E) True ky ver lb ub p_id (ri_slave s);
                  let s = s\<lparr>ri_slave := sl\<rparr>;
                  if r \<noteq> 0
                  then map_option (\<lambda>(_, es'). (RDone, map RSdm es @ es', s)) (send_app E p_id (smap_put ''ds_id'' ''-1'' m) s)
                  else do {
                    h \<leftarrow> ri_hash s ky ver lb ub;
                    let i = dec_int (nd_id (sl_node (ri_slave s)));
                    let s = s\<lparr>data_id_hash__data_info_map :=
                      smap_put h (Some \<lparr>di_data_type = ty, di_size = sz, di_gdim = Some g\<rparr>) (data_id_hash__data_info_map s)\<rparr>;
                    map_option (\<lambda>(_, es'). (RDone, map RSdm es @ es', s)) (send_app E p_id (smap_put ''ds_id'' i m) s) } }) })"

definition handle_put :: "'t ri_env \<Rightarrow> tid \<Rightarrow> int \<Rightarrow> msg_map \<Rightarrow> 't ri_manager \<Rightarrow> 't ri_result" where
  "handle_put E t p_id m s = do {
     (f, es, s) \<leftarrow> ri_reg_app E t p_id s;
     if f \<noteq> RDone then Some (f, es, s)
     else map_option (\<lambda>(f, es', s). (f, es @ es', s)) (put_decoded E p_id m s) }"

definition handle_app_msg :: "'t ri_env \<Rightarrow> tid \<Rightarrow> msg_map \<Rightarrow> 't ri_manager \<Rightarrow> 't ri_result" where
  "handle_app_msg E t m s = do {
     cl_id \<leftarrow> lex_int (e_lex E) (msg_get ''cl_id'' m);
     let ty = msg_get ''type'' m;
     if ty = GET then handle_get E t False cl_id m s
     else if ty = BLOCKING_GET then handle_get E t True cl_id m s
     else if ty = GET_DONE then handle_get_done E m s
     else if ty = PUT then handle_put E t cl_id m s
     else Some (RDone, [], s) }"


subsection \<open>Moving an item out\<close>

text \<open>\<open>trans_info_query\<close>: a failed send returns 1, and the caller goes on all the same.\<close>

definition trans_info_query :: "'t ri_env \<Rightarrow> tid \<Rightarrow> int \<Rightarrow> msg_map \<Rightarrow> 't ri_manager \<Rightarrow> 't ri_result" where
  "trans_info_query E t to_id m s = do {
     (r, es) \<leftarrow> send_rimsg E to_id (smap_put ''type'' RI_TINFO_QUERY m) s;
     if r \<noteq> 0 then Some (RDone, es, s)
     else do {
       data_id \<leftarrow> get_data_id_msg (ri_data_id_t s) m;
       let p = sync_point RI_TINFO_QUERY data_id;
       y \<leftarrow> fall_asleep p t (ri_syncer s);
       Some (ROwn p, es, s\<lparr>ri_syncer := y\<rparr>) } }"

definition trans_info_query_resume :: "msg_map \<Rightarrow> 't ri_manager \<Rightarrow> 't ri_manager option" where
  "trans_info_query_resume m s = do {
     data_id \<leftarrow> get_data_id_msg (ri_data_id_t s) m;
     (_, y) \<leftarrow> del_sync_point (sync_point RI_TINFO_QUERY data_id) (ri_syncer s);
     Some (s\<lparr>ri_syncer := y\<rparr>) }"

text \<open>\<open>remote_put\<close> up to the wait for the data. Both maps are read with \<open>operator[]\<close>: a missing entry is a null
  pointer.\<close>

definition remote_put_failed :: "'t ri_env \<Rightarrow> msg_map \<Rightarrow> 't ri_manager \<Rightarrow> 't ri_result" where
  "remote_put_failed E m s = do {
     to_id \<leftarrow> lex_int (e_lex E) (msg_get ''to_id'' m);
     map_option (\<lambda>(_, es). (RDone, es, s)) (send_rimsg E to_id (smap_put ''type'' RI_FAIL_REMOTE_GET m) s) }"

definition remote_put :: "'t ri_env \<Rightarrow> msg_map \<Rightarrow> 't ri_manager \<Rightarrow> 't ri_result" where
  "remote_put E m s = do {
     r \<leftarrow> decode_msg_map (e_lex E) m;
     (case r of
        None \<Rightarrow> Some (RDone, [], s)
      | Some (ndim, ky, ver, lb, ub) \<Rightarrow> if length lb < NDIM then None else do {
          _ \<leftarrow> lex_int (e_lex E) (msg_get ''to_id'' m);
          h \<leftarrow> ri_hash s ky ver lb ub;
          let (di, dm) = tsmap_at None h (data_id_hash__data_info_map s);
          let (ti, tm) = tsmap_at None h (data_id_hash__trans_info_map s);
          let s = s\<lparr>data_id_hash__data_info_map := dm, data_id_hash__trans_info_map := tm\<rparr>;
          di \<leftarrow> di;
          ti \<leftarrow> ti;
          g \<leftarrow> di_gdim di;
          w \<leftarrow> wa_put_start ky ver (di_size di) ndim g lb ub (ri_driver s);
          (case w of
             Inl _ \<Rightarrow> remote_put_failed E m s
           | Inr (gi, d) \<Rightarrow> Some (RData gi (di_data_type di), [], s\<lparr>ri_driver := d\<rparr>)) }) }"

text \<open>\<open>data\<close> is what the data space wrote for the get; the first component is what the peer receives.\<close>

definition remote_put_resume :: "'t ri_env \<Rightarrow> wire \<Rightarrow> string \<Rightarrow> string \<Rightarrow> get_info \<Rightarrow> msg_map \<Rightarrow> 't ri_manager \<Rightarrow>
    (string \<times> ri_flow \<times> ri_effect list \<times> 't ri_manager) option" where
  "remote_put_resume E W data ty gi m s = do {
     (r, sock, d, rf) \<leftarrow> wa_put_finish W ty data gi (ri_driver s) (ri_rfp s);
     let s = s\<lparr>ri_driver := d, ri_rfp := rf\<rparr>;
     if r \<noteq> 0 then map_option (\<lambda>x. (sock, x)) (remote_put_failed E m s) else Some (sock, RDone, [], s) }"

text \<open>\<open>handle_dm_move\<close>: the map of the transport infos is keyed by hashes, but looked up with the id of a data space.
  The message grows by what the receiver needs to know of the item.\<close>

definition move_msg :: "data_info \<Rightarrow> coor \<Rightarrow> msg_map \<Rightarrow> msg_map" where
  "move_msg di g m = smap_put ''gdim_'' (arr_to_str (take NDIM g))
     (smap_put ''size'' (dec_int (di_size di)) (smap_put ''data_type'' (di_data_type di) m))"

definition handle_dm_move :: "'t ri_env \<Rightarrow> tid \<Rightarrow> msg_map \<Rightarrow> 't ri_manager \<Rightarrow> (msg_map \<times> ri_flow \<times> ri_effect list \<times> 't ri_manager) option" where
  "handle_dm_move E t m s = do {
     to_id \<leftarrow> lex_int (e_lex E) (msg_get ''to_id'' m);
     if \<not> tsmap_contains (word_of_int to_id) (data_id_hash__trans_info_map s) \<or> data_trans_protocol s = INFINIBAND \<or>
        data_trans_protocol s = TCP
     then do {
       data_id \<leftarrow> get_data_id_msg (ri_data_id_t s) m;
       let (di, dm) = tsmap_at None (hash_str data_id) (data_id_hash__data_info_map s);
       let s = s\<lparr>data_id_hash__data_info_map := dm\<rparr>;
       di \<leftarrow> di;
       g \<leftarrow> di_gdim di;
       let m = move_msg di g m;
       (f, es, s) \<leftarrow> trans_info_query E t to_id m s;
       if f \<noteq> RDone then Some (m, f, es, s)
       else map_option (\<lambda>(f, es', s). (m, f, es @ es', s)) (remote_put E m s) }
     else map_option (\<lambda>x. (m, x)) (remote_put E m s) }"

definition handle_dm_move_resume :: "'t ri_env \<Rightarrow> msg_map \<Rightarrow> 't ri_manager \<Rightarrow> 't ri_result" where
  "handle_dm_move_resume E m s = do { s \<leftarrow> trans_info_query_resume m s; remote_put E m s }"

text \<open>Over GridFTP the put is announced once it is done.\<close>

definition handle_dm_move_end :: "'t ri_env \<Rightarrow> msg_map \<Rightarrow> 't ri_manager \<Rightarrow> 't ri_result" where
  "handle_dm_move_end E m s =
     (if data_trans_protocol s = GRIDFTP
      then do {
        to_id \<leftarrow> lex_int (e_lex E) (msg_get ''to_id'' m);
        map_option (\<lambda>(_, es). (RDone, es, s)) (send_rimsg E to_id (smap_put ''type'' RI_GRIDFTP_PUT m) s) }
      else Some (RDone, [], s))"

definition handle_dm_del :: "msg_map \<Rightarrow> rc" where
  "handle_dm_del m = 0"

definition handle_dm_act :: "'t ri_env \<Rightarrow> tid \<Rightarrow> msg_map \<Rightarrow> 't ri_manager \<Rightarrow> (msg_map \<times> ri_flow \<times> ri_effect list \<times> 't ri_manager) option" where
  "handle_dm_act E t m s =
     (if msg_get ''type'' m = SDM_MOVE then handle_dm_move E t m s else Some (m, RDone, [], s))"

subsection \<open>Moving an item in\<close>

text \<open>\<open>remote_get\<close> up to the wait for the item, with whether it starts the listening thread. \<open>None\<close> as the first
  component is the failed decoding.\<close>

definition remote_get :: "'t ri_env \<Rightarrow> (nat \<Rightarrow> char) \<Rightarrow> tid \<Rightarrow> msg_map \<Rightarrow> 't ri_manager \<Rightarrow> (bool option \<times> 't ri_manager) option" where
  "remote_get E junk t m s = do {
     r \<leftarrow> decode_data_msg (e_lex E) m;
     (case r of
        None \<Rightarrow> Some (None, s)
      | Some (ky, ver, _, sz, ndim, g, lb, ub) \<Rightarrow> if length lb < NDIM then None else do {
          (listen, rf) \<leftarrow> wa_get_start junk t ky ver sz ndim g lb ub (ri_rfp s);
          Some (Some listen, s\<lparr>ri_rfp := rf\<rparr>) }) }"

text \<open>The rest: the item is put into the local data space and into the table of the slave, its description is kept,
  those who wait for it are told. At the end the arrays are freed, the one the description points to among them; an
  early return leaves them.\<close>

definition remote_get_resume ::
  "'t ri_env \<Rightarrow> (string \<Rightarrow> 'l \<Rightarrow> rc \<times> 'l) \<Rightarrow> ('l \<Rightarrow> 'l) \<Rightarrow> msg_map \<Rightarrow> 'l \<Rightarrow> 't ri_manager \<Rightarrow>
     (rc \<times> ri_effect list \<times> 'l \<times> 't ri_manager) option" where
  "remote_get_resume E dput dsync m l s = do {
     r \<leftarrow> decode_data_msg (e_lex E) m;
     (ky, ver, ty, sz, ndim, g, lb, ub) \<leftarrow> r;
     (err, l, rf) \<leftarrow> wa_get_resume dput dsync ky ver lb ub l (ri_rfp s);
     let s = s\<lparr>ri_rfp := rf\<rparr>;
     if err \<noteq> 0 then Some (1, [], l, s)
     else do {
       (r, es, sl) \<leftarrow> slave_put (e_q E) (e_net E) False ky ver lb ub REMOTE_P_ID (ri_slave s);
       let s = s\<lparr>ri_slave := sl\<rparr>;
       if r \<noteq> 0 then Some (1, map RSdm es, l, s)
       else do {
         h \<leftarrow> ri_hash s ky ver lb ub;
         (_, w, rf) \<leftarrow> rfp_notify_remote_get_done (e_pick E) ky ver lb ub (ri_rfp s);
         (err, es') \<leftarrow> slave_notify_remote_get_done (e_net E) ky ver lb ub (ri_slave s);
         let s = s\<lparr>ri_rfp := rf, data_id_hash__data_info_map :=
           smap_put h (Some \<lparr>di_data_type = ty, di_size = sz, di_gdim = (if err \<noteq> 0 then Some g else None)\<rparr>)
             (data_id_hash__data_info_map s)\<rparr>;
         Some (err, map RSdm es @ rwakes w @ map RSdm es', l, s) } } }"

subsection \<open>Messages between the managers\<close>

text \<open>\<open>j\<close> numbers the thread that is started.\<close>

definition handle_tinfo_query :: "'t ri_env \<Rightarrow> nat \<Rightarrow> msg_map \<Rightarrow> 't ri_manager \<Rightarrow> 't ri_result" where
  "handle_tinfo_query E j m s =
     (let m = smap_put ''tmpfs_dir'' (e_tmpfs E) (smap_put ''lport'' (e_lport E)
                (smap_put ''lip'' (e_lip E) (smap_put ''type'' RI_TINFO_QUERY_REPLY m)));
          thr = (data_trans_protocol s = INFINIBAND \<or> data_trans_protocol s = TCP)
      in do {
        data_id \<leftarrow> get_data_id_msg (ri_data_id_t s) m;
        let s = (if thr then s\<lparr>data_id__remote_get_t_map := smap_put data_id (Some j) (data_id__remote_get_t_map s)\<rparr> else s);
        id \<leftarrow> lex_int (e_lex E) (msg_get ''id'' m);
        map_option (\<lambda>(_, es). (RDone, (if thr then [RThread j m] else []) @ es, s)) (send_rimsg E id m s) })"

definition handle_tinfo_query_reply :: "'t ri_env \<Rightarrow> msg_map \<Rightarrow> 't ri_manager \<Rightarrow> 't ri_result" where
  "handle_tinfo_query_reply E m s = do {
     data_id \<leftarrow> get_data_id_msg (ri_data_id_t s) m;
     let ti = \<lparr>ti_lip = msg_get ''lip'' m, ti_lport = msg_get ''lport'' m, ti_tmpfs_dir = msg_get ''tmpfs_dir'' m\<rparr>;
     (_, w, y) \<leftarrow> notify (e_pick E) (sync_point RI_TINFO_QUERY data_id) (ri_syncer s);
     Some (RDone, rwakes w, s\<lparr>ri_syncer := y,
       data_id_hash__trans_info_map := smap_put (hash_str data_id) (Some ti) (data_id_hash__trans_info_map s)\<rparr>) }"

text \<open>Interrupting the thread of a transfer and forgetting it; there must be one.\<close>

definition stop_remote_get :: "string \<Rightarrow> 't ri_manager \<Rightarrow> (nat \<times> 't ri_manager) option" where
  "stop_remote_get data_id s = do {
     let (th, tm) = tsmap_at None data_id (data_id__remote_get_t_map s);
     j \<leftarrow> th;
     tm \<leftarrow> tsmap_del data_id tm;
     (_, rf) \<leftarrow> clean_up_for_retry data_id (ri_rfp s);
     Some (j, s\<lparr>data_id__remote_get_t_map := tm, ri_rfp := rf\<rparr>) }"

definition handle_repeat_trans :: "'t ri_env \<Rightarrow> nat \<Rightarrow> msg_map \<Rightarrow> 't ri_manager \<Rightarrow> 't ri_result" where
  "handle_repeat_trans E j m s = do {
     data_id \<leftarrow> get_data_id_msg (ri_data_id_t s) m;
     r \<leftarrow> decode_item (e_lex E) m;
     (case r of
        None \<Rightarrow> Some (RDone, [], s)
      | Some (ky, ver, lb, ub) \<Rightarrow> do {
          (m, es, s) \<leftarrow>
            (if slave_query (e_q E) ky ver lb ub (ri_slave s) \<noteq> 0
             then do {
               let m = smap_put ''lport'' (e_lport E) (smap_put ''repeat'' [] m);
               (i, s) \<leftarrow> stop_remote_get data_id s;
               Some (m, [RInterrupt i, RThread j m],
                 s\<lparr>data_id__remote_get_t_map := smap_put data_id (Some j) (data_id__remote_get_t_map s)\<rparr>) }
             else Some (m, [], s));
          id \<leftarrow> lex_int (e_lex E) (msg_get ''id'' m);
          map_option (\<lambda>(_, es'). (RDone, es @ es', s)) (send_rimsg E id (smap_put ''type'' RI_REPEAT_TRANS_REPLY m) s) }) }"

text \<open>The reply: the transport info is looked up under the id of the data space.\<close>

definition repeat_over :: "'t ri_env \<Rightarrow> msg_map \<Rightarrow> 't ri_manager \<Rightarrow> 't ri_result" where
  "repeat_over E m s = do {
     data_id \<leftarrow> get_data_id_msg (ri_data_id_t s) m;
     (_, w, y) \<leftarrow> notify (e_pick E) (sync_point RI_REPEAT_TRANS data_id) (ri_syncer s);
     Some (RDone, rwakes w, s\<lparr>ri_syncer := y\<rparr>) }"

definition handle_repeat_trans_reply :: "'t ri_env \<Rightarrow> msg_map \<Rightarrow> 't ri_manager \<Rightarrow> 't ri_result" where
  "handle_repeat_trans_reply E m s = do {
     r \<leftarrow> decode_msg_map (e_lex E) m;
     (case r of
        None \<Rightarrow> Some (RDone, [], s)
      | Some (ndim, ky, ver, lb, ub) \<Rightarrow> if length lb < NDIM then None else do {
          to_id \<leftarrow> lex_int (e_lex E) (msg_get ''to_id'' m);
          h \<leftarrow> ri_hash s ky ver lb ub;
          let (di, dm) = tsmap_at None h (data_id_hash__data_info_map s);
          let (ti, tm) = tsmap_at None (word_of_int to_id) (data_id_hash__trans_info_map s);
          let s = s\<lparr>data_id_hash__data_info_map := dm, data_id_hash__trans_info_map := tm\<rparr>;
          if \<not> smap_contains ''repeat'' m then repeat_over E m s
          else do {
            di \<leftarrow> di;
            ti \<leftarrow> ti;
            g \<leftarrow> di_gdim di;
            w \<leftarrow> wa_put_start ky ver (di_size di) ndim g lb ub (ri_driver s);
            (case w of
               Inl _ \<Rightarrow> repeat_over E m s
             | Inr (gi, d) \<Rightarrow> Some (RData gi (di_data_type di), [], s\<lparr>ri_driver := d\<rparr>)) } }) }"

definition handle_repeat_trans_reply_resume :: "'t ri_env \<Rightarrow> wire \<Rightarrow> string \<Rightarrow> string \<Rightarrow> get_info \<Rightarrow> msg_map \<Rightarrow> 't ri_manager \<Rightarrow>
    (string \<times> ri_flow \<times> ri_effect list \<times> 't ri_manager) option" where
  "handle_repeat_trans_reply_resume E W data ty gi m s = do {
     (_, sock, d, rf) \<leftarrow> wa_put_finish W ty data gi (ri_driver s) (ri_rfp s);
     map_option (\<lambda>x. (sock, x)) (repeat_over E m (s\<lparr>ri_driver := d, ri_rfp := rf\<rparr>)) }"

definition handle_fail_remote_get :: "'t ri_env \<Rightarrow> msg_map \<Rightarrow> 't ri_manager \<Rightarrow> 't ri_result" where
  "handle_fail_remote_get E m s = do {
     data_id \<leftarrow> get_data_id_msg (ri_data_id_t s) m;
     let s = s\<lparr>failed_remote_get_data_id_v := tsvec_push_back data_id (failed_remote_get_data_id_v s)\<rparr>;
     (j, s) \<leftarrow> stop_remote_get data_id s;
     r \<leftarrow> decode_item (e_lex E) m;
     (case r of
        None \<Rightarrow> Some (RDone, [RInterrupt j], s)
      | Some (ky, ver, lb, ub) \<Rightarrow> do {
          (_, w, rf) \<leftarrow> rfp_notify_remote_get_done (e_pick E) ky ver lb ub (ri_rfp s);
          (_, es, sl) \<leftarrow> slave_stop_get (e_pick E) data_id (ri_slave s);
          Some (RDone, [RInterrupt j] @ rwakes w @ map RSdm es, s\<lparr>ri_rfp := rf, ri_slave := sl\<rparr>) }) }"

text \<open>A GridFTP put starts the get at once, in the thread of the message; under another protocol the process exits.\<close>

definition handle_gridftp_put :: "'t ri_env \<Rightarrow> (nat \<Rightarrow> char) \<Rightarrow> tid \<Rightarrow> msg_map \<Rightarrow> 't ri_manager \<Rightarrow> 't ri_result" where
  "handle_gridftp_put E junk t m s =
     (if data_trans_protocol s = GRIDFTP then map_option (\<lambda>(_, s). (RDone, [], s)) (remote_get E junk t m s) else None)"

definition handle_rimsg :: "'t ri_env \<Rightarrow> (nat \<Rightarrow> char) \<Rightarrow> tid \<Rightarrow> nat \<Rightarrow> msg_map \<Rightarrow> 't ri_manager \<Rightarrow> 't ri_result" where
  "handle_rimsg E junk t j m s =
     (let ty = msg_get ''type'' m in
      if ty = RI_TINFO_QUERY then handle_tinfo_query E j m s
      else if ty = RI_TINFO_QUERY_REPLY then handle_tinfo_query_reply E m s
      else if ty = RI_GRIDFTP_PUT then handle_gridftp_put E junk t m s
      else if ty = RI_REPEAT_TRANS then handle_repeat_trans E j m s
      else if ty = RI_REPEAT_TRANS_REPLY then handle_repeat_trans_reply E m s
      else if ty = RI_FAIL_REMOTE_GET then handle_fail_remote_get E m s
      else Some (RDone, [], s))"


subsection \<open>An item that was fetched\<close>

lemma notify_done_slave: "slave_put Q N ntf ky ver lb ub p sl = Some (r, es, sl') \<Longrightarrow> sl_node sl' = sl_node sl \<and> data_id_t sl' = data_id_t sl"
  by (auto simp: slave_put_def Let_def bind_eq_Some_conv split: if_splits)

text \<open>What a finished \<open>remote_get\<close> leaves behind of the item.\<close>

lemma remote_get_leaves:
  assumes "remote_get_resume E dput dsync m l s = Some (0, es, l', s')"
    "decode_data_msg (e_lex E) m = Some (Some (ky, ver, ty, sz, ndim, g, lb, ub))" "get_data_id (ri_data_id_t s) ky ver lb ub = Some i"
  shows "map_of (data_id_hash__data_info_map s') (hash_str i) = Some (Some \<lparr>di_data_type = ty, di_size = sz, di_gdim = None\<rparr>)"
    "ri_data_id_t s' = ri_data_id_t s" "data_trans_protocol s' = data_trans_protocol s"
  using assms by (auto simp: remote_get_resume_def ri_hash_def Let_def bind_eq_Some_conv split: if_splits)

text \<open>A data space that has fetched an item cannot send it on. The description of the item that \<open>remote_get\<close> keeps
  points to the array of the global dimensions, which it frees as its last step; the first move of the item to another
  data space reads the freed array.\<close>

theorem fetched_item_move_undefined:
  assumes "remote_get_resume E dput dsync m l s = Some (0, es, l', s')"
    "decode_data_msg (e_lex E) m = Some (Some (ky, ver, ty, sz, ndim, g, lb, ub))" "get_data_id (ri_data_id_t s) ky ver lb ub = Some i"
    "get_data_id_msg (ri_data_id_t s) m2 = Some i" "data_trans_protocol s = TCP"
  shows "handle_dm_move E t m2 s' = None"
proof -
  have "smap_get None (hash_str i) (data_id_hash__data_info_map s') = Some \<lparr>di_data_type = ty, di_size = sz, di_gdim = None\<rparr>"
    using remote_get_leaves(1) [OF assms(1-3)] by (simp add: smap_get_def)
  then show ?thesis using remote_get_leaves(2,3) [OF assms(1-3)] assms(4,5)
    by (auto simp: handle_dm_move_def tsmap_at_def bind_eq_None_conv)
qed

text \<open>A put keeps the array: the owner can move the item out, and asks the receiver first where to send it.\<close>

definition demo_env :: "int kvtable ri_env" where
  "demo_env = \<lparr>e_q = kvt_ops, e_lex = std_lexer, e_net = all_up, e_lnet = all_up, e_pick = hd, e_lip = ''10.0.0.2'', e_lport = ''6000'',
     e_tmpfs = []\<rparr>"

definition demo_ri :: "int kvtable ri_manager" where
  "demo_ri = ri_new KV_DATA_ID TCP asking_slave (node_new ''m'' True 0 ''10.0.0.2'' 7000 [] 0) (ds_driver_new 0 False False)"

definition demo_msg :: msg_map where
  "demo_msg = snd (encode_data_msg ''a'' 0 ''int'' 4 3 [9, 9, 9] [0, 0, 0] [0, 0, 1] [(''to_id'', ''0'')])"

definition demo_before :: "int kvtable ri_manager option" where
  "demo_before = do {
     (_, s) \<leftarrow> remote_get demo_env (\<lambda>_. CHR ''?'') 5 demo_msg demo_ri;
     let srv = tcp_server_t (rfp_trans (ri_rfp s));
     (_, _, y) \<leftarrow> notify hd (hash_str ''a_0'') (ts_syncer srv);
     Some (s\<lparr>ri_rfp := (ri_rfp s)\<lparr>rfp_trans := (rfp_trans (ri_rfp s))\<lparr>tcp_server_t := srv\<lparr>ts_syncer := y\<rparr>\<rparr>\<rparr>\<rparr>) }"

lemma demo_fetch:
  "map_option (\<lambda>s. (ri_data_id_t s, data_trans_protocol s)) demo_before = Some (KV_DATA_ID, TCP)"
  "map_option fst (do { s \<leftarrow> demo_before; remote_get_resume demo_env demo_put id demo_msg [] s }) = Some 0"
  "decode_data_msg (e_lex demo_env) demo_msg = Some (Some (''a'', 0, ''int'', 4, 3, [9, 9, 9], [0, 0, 0], [0, 0, 1]))"
  "get_data_id KV_DATA_ID ''a'' 0 [0, 0, 0] [0, 0, 1] = Some ''a_0''" "get_data_id_msg KV_DATA_ID demo_msg = Some ''a_0''"
  by code_simp+

theorem fetched_item_move_undefined_witness:
  "\<exists>s es l s'. demo_before = Some s \<and> remote_get_resume demo_env demo_put id demo_msg [] s = Some (0, es, l, s') \<and>
    handle_dm_move demo_env 6 demo_msg s' = None"
proof -
  obtain s where s: "demo_before = Some s" "ri_data_id_t s = KV_DATA_ID" "data_trans_protocol s = TCP" using demo_fetch(1) by auto
  have "map_option fst (remote_get_resume demo_env demo_put id demo_msg [] s) = Some 0" using demo_fetch(2) by (simp add: s(1))
  then obtain es l s' where r: "remote_get_resume demo_env demo_put id demo_msg [] s = Some (0, es, l, s')" by auto
  have "handle_dm_move demo_env 6 demo_msg s' = None"
    by (rule fetched_item_move_undefined [OF r demo_fetch(3) _ _ s(3)]) (simp_all only: s(2) demo_fetch(4,5))
  then show ?thesis using s(1) r by blast
qed

text \<open>A failed transfer is final: every later get of the item is refused, also after it has been put at this site.\<close>

lemma failed_stays_failed:
  assumes "get_data_id_msg (ri_data_id_t s) m = Some i" "i \<in> set (failed_remote_get_data_id_v s)"
  shows "get_ask E t blocking cl_id m ky ver lb ub s = get_reply E cl_id ''-1'' m s"
  using assms by (simp add: get_ask_def)

lemma put_keeps_failed:
  "put_decoded E p_id m s = Some (f, es, s') \<Longrightarrow> failed_remote_get_data_id_v s' = failed_remote_get_data_id_v s"
proof -
  assume a: "put_decoded E p_id m s = Some (f, es, s')"
  then obtain r where d: "decode_data_msg (e_lex E) (smap_put ''type'' PUT_REPLY m) = Some r"
    by (auto simp: put_decoded_def Let_def bind_eq_Some_conv)
  show ?thesis
  proof (cases r)
    case None
    then show ?thesis using a d by (auto simp: put_decoded_def Let_def split: if_splits)
  next
    case (Some x)
    then show ?thesis using a d by (cases x) (auto simp: put_decoded_def Let_def bind_eq_Some_conv split: if_splits)
  qed
qed

end
