(* ===== verification/WADS_Driver.thy ===== *)
theory WADS_Driver
  imports RI_Manager
begin

text \<open>
  \<open>WADSDriver\<close> (\<open>dataspaces_wa.cpp\<close>): the interface of an application. A put goes into the local data space and is
  then registered with the remote interaction manager of the site; a get is announced there first and read from the
  local data space when the reply says that the item has arrived. Both sleep until the reply; what follows is a function
  of its own.
\<close>

record wads =
  wa_app_id :: int
  wa_data_id_t :: char
  wa_node :: sdm_node
  wa_syncer :: "u32 syncer"
  data_id__ds_id_map :: "(string, int) smap"

definition wads_new :: "int \<Rightarrow> int \<Rightarrow> char \<Rightarrow> string \<Rightarrow> int \<Rightarrow> string \<Rightarrow> int \<Rightarrow> wads" where
  "wads_new app_id base_client_id dt lip lport jlip jlport = \<lparr>wa_app_id = base_client_id + app_id, wa_data_id_t = dt,
     wa_node = node_new ''s'' True (base_client_id + app_id) lip lport jlip jlport, wa_syncer = syncer_new, data_id__ds_id_map = []\<rparr>"

definition request_msg ::
  "string \<Rightarrow> string \<Rightarrow> u32 \<Rightarrow> string \<Rightarrow> int \<Rightarrow> int \<Rightarrow> coor \<Rightarrow> coor \<Rightarrow> coor \<Rightarrow> wads \<Rightarrow> msg_map" where
  "request_msg rt ky ver ty sz ndim g lb ub a =
     snd (encode_data_msg ky ver ty sz ndim g lb ub (smap_put ''cl_id'' (dec_int (wa_app_id a)) (smap_put ''type'' rt [])))"

text \<open>The common part of a put and a get: send the request, add the sync point of the reply and wait.\<close>

definition await_reply :: "net \<Rightarrow> tid \<Rightarrow> string \<Rightarrow> msg_map \<Rightarrow> string \<Rightarrow> u32 \<Rightarrow> coor \<Rightarrow> coor \<Rightarrow> rc \<Rightarrow> wads \<Rightarrow>
    (unit flow \<times> out_msg list \<times> wads) option" where
  "await_reply N t reply m ky ver lb ub failed a = do {
     (r, os) \<leftarrow> send_msg_to_master N PACKET_RIMSG m (wa_node a);
     if r \<noteq> 0 then Some (Done (if failed = 0 then r else failed), os, a)
     else do {
       data_id \<leftarrow> get_data_id (wa_data_id_t a) ky ver lb ub;
       let p = sync_point reply data_id;
       y \<leftarrow> fall_asleep p t (wa_syncer a);
       Some (Sleep p (), os, a\<lparr>wa_syncer := y\<rparr>) } }"

text \<open>\<open>put_rc\<close> is what the put into the local data space returns.\<close>

definition app_put :: "net \<Rightarrow> tid \<Rightarrow> rc \<Rightarrow> string \<Rightarrow> u32 \<Rightarrow> string \<Rightarrow> int \<Rightarrow> int \<Rightarrow> coor \<Rightarrow> coor \<Rightarrow> coor \<Rightarrow> wads \<Rightarrow>
    (unit flow \<times> out_msg list \<times> wads) option" where
  "app_put N t put_rc ky ver ty sz ndim g lb ub a =
     (if put_rc \<noteq> 0 then Some (Done 1, [], a)
      else await_reply N t PUT_REPLY (request_msg PUT ky ver ty sz ndim g lb ub a) ky ver lb ub 1 a)"

definition app_put_resume :: "string \<Rightarrow> u32 \<Rightarrow> coor \<Rightarrow> coor \<Rightarrow> wads \<Rightarrow> (rc \<times> wads) option" where
  "app_put_resume ky ver lb ub a = do {
     data_id \<leftarrow> get_data_id (wa_data_id_t a) ky ver lb ub;
     (_, y) \<leftarrow> del_sync_point (sync_point PUT_REPLY data_id) (wa_syncer a);
     let (v, dm) = tsmap_at 0 data_id (data_id__ds_id_map a);
     dm \<leftarrow> tsmap_del data_id dm;
     Some (if v = - 1 then 1 else 0, a\<lparr>wa_syncer := y, data_id__ds_id_map := dm\<rparr>) }"

definition app_get :: "net \<Rightarrow> tid \<Rightarrow> bool \<Rightarrow> string \<Rightarrow> u32 \<Rightarrow> string \<Rightarrow> int \<Rightarrow> int \<Rightarrow> coor \<Rightarrow> coor \<Rightarrow> coor \<Rightarrow> wads \<Rightarrow>
    (unit flow \<times> out_msg list \<times> wads) option" where
  "app_get N t blocking ky ver ty sz ndim g lb ub a =
     await_reply N t (if blocking then BLOCKING_GET_REPLY else GET_REPLY)
       (request_msg (if blocking then BLOCKING_GET else GET) ky ver ty sz ndim g lb ub a) ky ver lb ub 0 a"

text \<open>\<open>gets n\<close> is the result of the \<open>n\<close>-th attempt to read the local data space; after the third failure the entry of
  the reply stays.\<close>

definition try_3_times :: "(nat \<Rightarrow> rc) \<Rightarrow> rc" where
  "try_3_times gets = (if gets 0 = 0 then 0 else if gets 1 = 0 then 0 else gets 2)"

definition app_get_resume :: "net \<Rightarrow> bool \<Rightarrow> (nat \<Rightarrow> rc) \<Rightarrow> string \<Rightarrow> u32 \<Rightarrow> string \<Rightarrow> int \<Rightarrow> int \<Rightarrow> coor \<Rightarrow> coor \<Rightarrow> coor \<Rightarrow> wads \<Rightarrow>
    (rc \<times> out_msg list \<times> wads) option" where
  "app_get_resume N blocking gets ky ver ty sz ndim g lb ub a = do {
     data_id \<leftarrow> get_data_id (wa_data_id_t a) ky ver lb ub;
     (_, y) \<leftarrow> del_sync_point (sync_point (if blocking then BLOCKING_GET_REPLY else GET_REPLY) data_id) (wa_syncer a);
     let (v, dm) = tsmap_at 0 data_id (data_id__ds_id_map a);
     let a = a\<lparr>wa_syncer := y, data_id__ds_id_map := dm\<rparr>;
     if v = - 1 then do { dm \<leftarrow> tsmap_del data_id dm; Some (1, [], a\<lparr>data_id__ds_id_map := dm\<rparr>) }
     else
       let err = try_3_times gets
       in if err \<noteq> 0 then Some (err, [], a)
          else do {
            dm \<leftarrow> tsmap_del data_id dm;
            let a = a\<lparr>data_id__ds_id_map := dm\<rparr>;
            let m = smap_put ''type'' GET_DONE
              (request_msg (if blocking then BLOCKING_GET else GET) ky ver ty sz ndim g lb ub a);
            (err, os) \<leftarrow> send_msg_to_master N PACKET_RIMSG m (wa_node a);
            Some (err, os, a) } }"

text \<open>A reply; when the decoder fails before it has allocated the arrays, unset pointers are freed.\<close>

definition handle_ri_msg :: "lexer \<Rightarrow> (tid list \<Rightarrow> tid) \<Rightarrow> msg_map \<Rightarrow> wads \<Rightarrow> (tid option \<times> wads) option" where
  "handle_ri_msg L pick m a = do {
     r \<leftarrow> decode_msg_map L m;
     (case r of
        None \<Rightarrow> if lex_int L (msg_get ''ndim'' m) \<noteq> None \<and> lex_u32 L (msg_get ''ver'' m) \<noteq> None then Some (None, a) else None
      | Some (_, ky, ver, lb, ub) \<Rightarrow> if length lb < NDIM then None else do {
          data_id \<leftarrow> get_data_id (wa_data_id_t a) ky ver lb ub;
          ds_id \<leftarrow> lex_int L (msg_get ''ds_id'' m);
          (_, w, y) \<leftarrow> notify pick (sync_point (msg_get ''type'' m) data_id) (wa_syncer a);
          Some (w, a\<lparr>wa_syncer := y, data_id__ds_id_map := smap_put data_id ds_id (data_id__ds_id_map a)\<rparr>) }) }"

subsection \<open>What a request carries\<close>

definition data_fields :: "msg_map \<Rightarrow> string \<Rightarrow> u32 \<Rightarrow> string \<Rightarrow> int \<Rightarrow> coor \<Rightarrow> coor \<Rightarrow> coor \<Rightarrow> bool" where
  "data_fields m ky ver ty sz g lb ub \<longleftrightarrow> carries m ky ver lb ub \<and> msg_get ''data_type'' m = ty \<and> msg_get ''size'' m = dec_int sz \<and>
     msg_get ''gdim_'' m = arr_to_str g"

lemma request_fields:
  assumes "length g = NDIM" "length lb = NDIM" "length ub = NDIM"
  shows "data_fields (request_msg rt ky ver ty sz (int NDIM) g lb ub a) ky ver ty sz g lb ub"
    "msg_get ''cl_id'' (request_msg rt ky ver ty sz (int NDIM) g lb ub a) = dec_int (wa_app_id a)"
    "msg_get ''type'' (request_msg rt ky ver ty sz (int NDIM) g lb ub a) = rt"
  using assms by (simp_all add: data_fields_def carries_def request_msg_def encode_data_msg_def msg_get_def smap_get_def)

lemma fields_put [simp]:
  "k \<notin> {''ndim'', ''key'', ''ver'', ''lb_'', ''ub_'', ''data_type'', ''size'', ''gdim_''} \<Longrightarrow>
     data_fields (smap_put k v m) ky ver ty sz g lb ub = data_fields m ky ver ty sz g lb ub"
  by (auto simp: data_fields_def msg_get_def)

lemma fields_packet [simp]: "data_fields (gen_packet m n) ky ver ty sz g lb ub = data_fields m ky ver ty sz g lb ub"
  by (simp add: data_fields_def) (simp add: gen_packet_def msg_get_def)

lemma fields_decoded:
  assumes "data_fields m ky ver ty sz g lb ub" "lexer_ok L" "length g = NDIM" "length lb = NDIM" "length ub = NDIM"
    "- (2 ^ 31) \<le> sz" "sz < 2 ^ 31"
  shows "decode_data_msg L m = Some (Some (ky, ver, ty, sz, int NDIM, g, lb, ub))"
proof -
  have ne: "g \<noteq> []" "lb \<noteq> []" "ub \<noteq> []" using assms(3-5) by (auto simp: NDIM_def)
  have "lex_int L (dec_int (int NDIM)) = Some (int NDIM)" by (rule lex_ndim [OF assms(2)]) (simp add: NDIM_def)
  moreover have "lex_u32 L (dec (unat ver)) = Some ver" "lex_int L (dec_int sz) = Some sz" using assms(2,6,7) by (auto simp: lexer_ok_def)
  ultimately show ?thesis
    using assms(1,3-5) decode_coors3_print [OF assms(2-5)] tokens_arr [OF assms(2) ne(1)] tokens_arr [OF assms(2) ne(2)]
      tokens_arr [OF assms(2) ne(3)]
    by (simp add: decode_data_msg_def data_fields_def carries_def)
qed

lemma fields_item: "data_fields m ky ver ty sz g lb ub \<Longrightarrow> lexer_ok L \<Longrightarrow> length lb = NDIM \<Longrightarrow> length ub = NDIM \<Longrightarrow>
    decode_msg_map L m = Some (Some (int NDIM, ky, ver, lb, ub))"
proof -
  assume a: "data_fields m ky ver ty sz g lb ub" "lexer_ok L" "length lb = NDIM" "length ub = NDIM"
  then have ne: "lb \<noteq> []" "ub \<noteq> []" by (auto simp: NDIM_def)
  have "lex_int L (dec_int (int NDIM)) = Some (int NDIM)" by (rule lex_ndim [OF a(2)]) (simp add: NDIM_def)
  moreover have "lex_u32 L (dec (unat ver)) = Some ver" using a(2) by (simp add: lexer_ok_def)
  ultimately show ?thesis
    using a(1,3,4) decode_coors_print [OF a(2-4)] tokens_arr [OF a(2) ne(1)] tokens_arr [OF a(2) ne(2)]
    by (simp add: decode_msg_map_def data_fields_def carries_def)
qed

lemma msg_sent:
  assumes "linked N n j"
  obtains x where "send_msg N j T m n = Some (0, [x])" "o_map x = gen_packet m n"
  using that assms by (auto simp: linked_def send_msg_def send_to_peer_def client_send_def)

lemma packet_get: "k \<noteq> ''id'' \<Longrightarrow> k \<noteq> ''node_type'' \<Longrightarrow> msg_get k (gen_packet m n) = msg_get k m"
  by (simp add: gen_packet_def msg_get_def)


subsection \<open>A put of an application\<close>

text \<open>The manager's side: the item goes into the table of the slave, its description is kept, the master is notified and
  the application answered.\<close>

lemma manager_puts:
  assumes L: "lexer_ok (e_lex E)" and m: "data_fields m ky ver ty sz g lb ub" "msg_get ''type'' m = PUT" "msg_get ''cl_id'' m = dec_int cl"
    and sizes: "length g = NDIM" "length lb = NDIM" "length ub = NDIM" "- (2 ^ 31) \<le> sz" "sz < 2 ^ 31" "- (2 ^ 31) \<le> cl" "cl < 2 ^ 31"
    and reg: "cl \<in> set (app_id_v (ri_slave r))" and i: "get_data_id (ri_data_id_t r) ky ver lb ub = Some i"
    and nets: "linked (e_net E) (sl_node (ri_slave r)) (sdm_master_id (sl_node (ri_slave r)))" "sdm_master_id (sl_node (ri_slave r)) \<noteq> - 1"
      "linked (e_lnet E) (ri_node r) cl"
  obtains es x r' where "handle_app_msg E t m r = Some (RDone, es @ [RApp x], r')"
    "data_fields (o_map x) ky ver ty sz g lb ub" "msg_get ''type'' (o_map x) = PUT_REPLY"
    "msg_get ''ds_id'' (o_map x) = dec_int (nd_id (sl_node (ri_slave r)))"
    "sl_qtable (ri_slave r') = snd (qt_add (e_q E) ky ver lb ub cl (sl_qtable (ri_slave r)))"
    "map_of (data_id_hash__data_info_map r') (hash_str i) = Some (Some \<lparr>di_data_type = ty, di_size = sz, di_gdim = Some g\<rparr>)"
proof -
  let ?m = "smap_put ''type'' PUT_REPLY m"
  have reg_app: "ri_reg_app E t cl r = Some (RDone, [], r)" using reg by (simp add: ri_reg_app_def slave_reg_app_def)
  have dec: "decode_data_msg (e_lex E) ?m = Some (Some (ky, ver, ty, sz, int NDIM, g, lb, ub))"
    by (rule fields_decoded [OF _ L sizes(1-5)]) (simp add: m(1))
  let ?sl = "(ri_slave r)\<lparr>sl_qtable := snd (qt_add (e_q E) ky ver lb ub cl (sl_qtable (ri_slave r)))\<rparr>"
  have "linked (e_net E) (sl_node ?sl) (sdm_master_id (sl_node ?sl))" "sdm_master_id (sl_node ?sl) \<noteq> - 1" using nets(1,2) by simp_all
  from cmsg_sent_to_master [OF this] obtain n where
    "send_cmsg_to_master (e_net E) (encode_item ky ver lb ub (smap_put ''p_id'' (dec_int cl) (smap_put ''type'' SDM_PUT_NOTIFICATION []))) ?sl =
       Some (0, [ESend n])" by metis
  then have put: "slave_put (e_q E) (e_net E) True ky ver lb ub cl (ri_slave r) = Some (0, [ESend n], ?sl)"
    by (simp add: slave_put_def Let_def)
  let ?r = "r\<lparr>ri_slave := ?sl, data_id_hash__data_info_map :=
    smap_put (hash_str i) (Some \<lparr>di_data_type = ty, di_size = sz, di_gdim = Some g\<rparr>) (data_id_hash__data_info_map r)\<rparr>"
  let ?a = "smap_put ''ds_id'' (dec_int (nd_id (sl_node (ri_slave r)))) ?m"
  obtain x where x: "send_msg (e_lnet E) cl PACKET_RIMSG ?a (ri_node r) = Some (0, [x])" "o_map x = gen_packet ?a (ri_node r)"
    by (rule msg_sent [OF nets(3)])
  have "put_decoded E cl m r = Some (RDone, [RSdm (ESend n)] @ [RApp x], ?r)"
    using i x(1) by (simp add: put_decoded_def Let_def dec put ri_hash_def send_app_def sizes(2))
  then have "handle_put E t cl m r = Some (RDone, [RSdm (ESend n)] @ [RApp x], ?r)" by (simp add: handle_put_def reg_app)
  moreover have "lex_int (e_lex E) (dec_int cl) = Some cl" using L sizes(6,7) by (auto simp: lexer_ok_def)
  ultimately have "handle_app_msg E t m r = Some (RDone, [RSdm (ESend n)] @ [RApp x], ?r)"
    using m(2,3) by (simp add: handle_app_msg_def ri_types)
  then show ?thesis
    by (rule that) (simp_all add: x(2) m(1) packet_get, simp_all add: msg_get_def)
qed

text \<open>The application's side: the reply wakes the thread that waits for it.\<close>

lemma reply_wakes:
  assumes "lexer_ok L" "data_fields m ky ver ty sz g lb ub" "length lb = NDIM" "length ub = NDIM" "msg_get ''type'' m = rt"
    "msg_get ''ds_id'' m = dec_int d" "- (2 ^ 31) \<le> d" "d < 2 ^ 31" "get_data_id (wa_data_id_t a) ky ver lb ub = Some i"
    "sleeper (sync_point rt i) t (wa_syncer a)" "pick [t] = t"
  obtains y where "handle_ri_msg L pick m a = Some (Some t, a\<lparr>wa_syncer := y, data_id__ds_id_map := smap_put i d (data_id__ds_id_map a)\<rparr>)"
    "roused (sync_point rt i) y"
proof -
  obtain y where y: "notify pick (sync_point rt i) (wa_syncer a) = Some (0, Some t, y)" "roused (sync_point rt i) y"
    by (rule sleeper_notified [where pick = pick, OF assms(10,11)])
  have "lex_int L (dec_int d) = Some d" using assms(1,7,8) by (auto simp: lexer_ok_def)
  then have "handle_ri_msg L pick m a = Some (Some t, a\<lparr>wa_syncer := y, data_id__ds_id_map := smap_put i d (data_id__ds_id_map a)\<rparr>)"
    using fields_item [OF assms(2,1,3,4)] assms(3,5,6,9) y(1) by (simp add: handle_ri_msg_def)
  then show ?thesis using y(2) by (rule that)
qed

lemma awaits:
  assumes "linked N (wa_node a) (sdm_master_id (wa_node a))" "sdm_master_id (wa_node a) \<noteq> - 1"
    "get_data_id (wa_data_id_t a) ky ver lb ub = Some i" "\<not> smap_contains (sync_point reply i) (point_cv_map (wa_syncer a))"
  obtains x y where "await_reply N t reply m ky ver lb ub f a = Some (Sleep (sync_point reply i) (), [x], a\<lparr>wa_syncer := y\<rparr>)"
    "o_map x = gen_packet m (wa_node a)" "sleeper (sync_point reply i) t y"
proof -
  obtain x where x: "send_msg N (sdm_master_id (wa_node a)) PACKET_RIMSG m (wa_node a) = Some (0, [x])" "o_map x = gen_packet m (wa_node a)"
    by (rule msg_sent [OF assms(1)])
  obtain y where y: "fall_asleep (sync_point reply i) t (wa_syncer a) = Some y" "sleeper (sync_point reply i) t y"
    by (rule asleep_alone [OF assms(4)])
  have "await_reply N t reply m ky ver lb ub f a = Some (Sleep (sync_point reply i) (), [x], a\<lparr>wa_syncer := y\<rparr>)"
    using assms(2,3) x(1) y(1) by (simp add: await_reply_def send_msg_to_master_def)
  then show ?thesis using x(2) y(2) by (rule that)
qed


subsection \<open>A get of an application\<close>

lemma fields_id:
  assumes "data_fields m ky ver ty sz g lb ub" "length lb = NDIM" "length ub = NDIM" "get_data_id dt ky ver lb ub = Some i"
  shows "get_data_id_msg dt m = Some i"
  using assms by (auto simp: get_data_id_def get_data_id_msg_def data_fields_def carries_def split: if_splits)

text \<open>The manager's side, when the slave has the item: the access is reported to the master and the application
  answered.\<close>

lemma manager_serves:
  assumes L: "lexer_ok (e_lex E)" and m: "data_fields m ky ver ty sz g lb ub"
    "msg_get ''type'' m = (if blocking then BLOCKING_GET else GET)" "msg_get ''cl_id'' m = dec_int cl"
    and sizes: "length g = NDIM" "length lb = NDIM" "length ub = NDIM" "- (2 ^ 31) \<le> sz" "sz < 2 ^ 31" "- (2 ^ 31) \<le> cl" "cl < 2 ^ 31"
    and reg: "cl \<in> set (app_id_v (ri_slave r))" and i: "get_data_id (ri_data_id_t r) ky ver lb ub = Some i"
    and nets: "linked (e_net E) (sl_node (ri_slave r)) (sdm_master_id (sl_node (ri_slave r)))" "sdm_master_id (sl_node (ri_slave r)) \<noteq> - 1"
      "linked (e_lnet E) (ri_node r) cl"
    and here: "fst (qt_query (e_q E) ky ver lb ub [] (sl_qtable (ri_slave r))) = 0" "rfp_data_id_t (ri_rfp r) = ri_data_id_t r"
      "\<not> smap_contains i (data_id__recved_size_map (ri_rfp r))" "i \<notin> set (failed_remote_get_data_id_v r)"
  obtains es x r' where "handle_app_msg E t m r = Some (RDone, es @ [RApp x], r')"
    "data_fields (o_map x) ky ver ty sz g lb ub" "msg_get ''type'' (o_map x) = (if blocking then BLOCKING_GET_REPLY else GET_REPLY)"
    "msg_get ''ds_id'' (o_map x) = dec_int (nd_id (sl_node (ri_slave r)))"
    "busy_data_id_v r' = busy_data_id_v r @ [i]" "ri_syncer r' = ri_syncer r" "ri_data_id_t r' = ri_data_id_t r"
proof -
  let ?m = "get_msg blocking m"
  have reg_app: "ri_reg_app E t cl r = Some (RDone, [], r)" using reg by (simp add: ri_reg_app_def slave_reg_app_def)
  have f: "data_fields ?m ky ver ty sz g lb ub" by (simp add: get_msg_def m(1))
  note dec = fields_decoded [OF f L sizes(1-5)] and id = fields_id [OF f sizes(2,3) i]
  let ?sl = "(ri_slave r)\<lparr>num_get_req := num_get_req (ri_slave r) + 1\<rparr>"
  have "linked (e_net E) (sl_node ?sl) (sdm_master_id (sl_node ?sl))" "sdm_master_id (sl_node ?sl) \<noteq> - 1" using nets(1,2) by simp_all
  from cmsg_sent_to_master [OF this] obtain n where
    "send_cmsg_to_master (e_net E) (encode_item ky ver lb ub (smap_put ''app_id'' (dec_int cl) (smap_put ''type'' SDM_ACCESS []))) ?sl =
       Some (0, [ESend n])" by metis
  then have get: "slave_get (e_q E) (e_net E) t cl blocking ky ver lb ub (ri_slave r) =
      Some (Done 0, [ESend n], ?sl\<lparr>num_hit := num_hit (ri_slave r) + 1\<rparr>)"
    using here(1) by (simp add: slave_get_def slave_add_access_def Let_def)
  let ?a = "smap_put ''ds_id'' (dec_int (nd_id (sl_node (ri_slave r)))) ?m"
  obtain x where x: "send_msg (e_lnet E) cl PACKET_RIMSG ?a (ri_node r) = Some (0, [x])" "o_map x = gen_packet ?a (ri_node r)"
    by (rule msg_sent [OF nets(3)])
  let ?r = "r\<lparr>ri_rfp := ri_rfp r, ri_slave := ?sl\<lparr>num_hit := num_hit (ri_slave r) + 1\<rparr>, busy_data_id_v := busy_data_id_v r @ [i]\<rparr>"
  have "wait_for_get t ky ver lb ub (ri_rfp r) = Some (None, ri_rfp r)" using here(2,3) i by (simp add: wait_for_get_def)
  moreover have "get_ask E t blocking cl ?m ky ver lb ub (r\<lparr>ri_rfp := ri_rfp r\<rparr>) = Some (RDone, [RSdm (ESend n)] @ [RApp x], ?r)"
    using x(1) here(4) by (simp add: get_ask_def id get get_answer_def get_reply_def send_app_def)
  ultimately have "get_decoded E t blocking cl m r = Some (RDone, [RSdm (ESend n)] @ [RApp x], ?r)"
    using sizes(2) by (simp add: get_decoded_def Let_def dec)
  then have "handle_get E t blocking cl m r = Some (RDone, [RSdm (ESend n)] @ [RApp x], ?r)" by (simp add: handle_get_def reg_app)
  moreover have "lex_int (e_lex E) (dec_int cl) = Some cl" using L sizes(6,7) by (auto simp: lexer_ok_def)
  ultimately have "handle_app_msg E t m r = Some (RDone, [RSdm (ESend n)] @ [RApp x], ?r)"
    using m(2,3) by (cases blocking) (simp_all add: handle_app_msg_def ri_types)
  then show ?thesis
    by (rule that) (simp_all add: x(2) f packet_get, simp_all add: msg_get_def get_msg_def)
qed


subsection \<open>Concrete runs\<close>

definition demo_app :: wads where
  "demo_app = (wads_new 10 0 KV_DATA_ID ''10.0.0.9'' 7010 ''10.0.0.2'' 7000)
     \<lparr>wa_node := (node_new ''s'' True 10 ''10.0.0.9'' 7010 ''10.0.0.2'' 7000)
       \<lparr>nd_commer := snd (add_peer all_up 0 ''peer_0'' ''10.0.0.2'' 7000 commer_new), sdm_master_id := 0\<rparr>\<rparr>"

definition demo_site :: "int kvtable ri_manager" where
  "demo_site = demo_ri\<lparr>ri_slave := asking_slave\<lparr>app_id_v := [10]\<rparr>,
     ri_node := (node_new ''m'' True 0 ''10.0.0.2'' 7000 [] 0)\<lparr>nd_commer := snd (add_peer all_up 10 ''peer_10'' ''10.0.0.9'' 7010 commer_new)\<rparr>\<rparr>"

lemma demo_links:
  "linked all_up (wa_node demo_app) 0" "linked all_up (sl_node (ri_slave demo_site)) 0" "linked all_up (ri_node demo_site) 10"
  by (simp_all add: linked_def demo_app_def demo_site_def asking_slave_def add_peer_client commer_new_def node_new_def client_new_def
      add_peer_def all_up_def client_connect_def smap_contains_def)

lemma demo_ids:
  "wa_app_id demo_app = 10 \<and> wa_data_id_t demo_app = KV_DATA_ID \<and> sdm_master_id (wa_node demo_app) = 0 \<and>
   point_cv_map (wa_syncer demo_app) = [] \<and> ri_data_id_t demo_site = KV_DATA_ID \<and> app_id_v (ri_slave demo_site) = [10] \<and>
   sdm_master_id (sl_node (ri_slave demo_site)) = 0 \<and> nd_id (sl_node (ri_slave demo_site)) = 2"
  by code_simp



definition stocked_site :: "int kvtable ri_manager" where
  "stocked_site = demo_site\<lparr>ri_slave := (ri_slave demo_site)\<lparr>sl_qtable := snd (kvt_add ''a'' 0 [0, 0, 0] [1, 1, 1] 10 [])\<rparr>\<rparr>"

lemma stocked_links:
  "linked all_up (sl_node (ri_slave stocked_site)) 0" "linked all_up (ri_node stocked_site) 10"
  using demo_links(2,3) by (simp_all add: stocked_site_def)

lemma stocked_ids:
  "ri_data_id_t stocked_site = KV_DATA_ID \<and> app_id_v (ri_slave stocked_site) = [10] \<and>
   sdm_master_id (sl_node (ri_slave stocked_site)) = 0 \<and> nd_id (sl_node (ri_slave stocked_site)) = 2 \<and>
   fst (kvt_query ''a'' 0 [0, 0, 0] [1, 1, 1] [] (sl_qtable (ri_slave stocked_site))) = 0 \<and>
   rfp_data_id_t (ri_rfp stocked_site) = KV_DATA_ID \<and> data_id__recved_size_map (ri_rfp stocked_site) = [] \<and>
   failed_remote_get_data_id_v stocked_site = [] \<and> point_cv_map (ri_syncer stocked_site) = []"
  by code_simp


end
