(* ===== verification/RI_Move.thy ===== *)
theory RI_Move
  imports WADS_Driver
begin

text \<open>
  A data movement from end to end: the order \<open>SDM_MOVE\<close> reaches the \<open>RIManager\<close> beside the data space that holds the
  item, which asks the one beside the destination where to send it; the destination starts the thread that receives
  the item and answers; the holder gets the item out of its data space and sends it; the destination puts it into its
  own and tells the master.
\<close>

lemma carries_item:
  assumes "carries m ky ver lb ub" "lexer_ok L" "length lb = NDIM" "length ub = NDIM"
  shows "decode_msg_map L m = Some (Some (int NDIM, ky, ver, lb, ub))"
proof -
  have ne: "lb \<noteq> []" "ub \<noteq> []" using assms(3,4) by (auto simp: NDIM_def)
  have "lex_int L (dec_int (int NDIM)) = Some (int NDIM)" by (rule lex_ndim [OF assms(2)]) (simp add: NDIM_def)
  moreover have "lex_u32 L (dec (unat ver)) = Some ver" using assms(2) by (simp add: lexer_ok_def)
  ultimately show ?thesis
    using assms(1,3,4) decode_coors_print [OF assms(2-4)] tokens_arr [OF assms(2) ne(1)] tokens_arr [OF assms(2) ne(2)]
    by (simp add: decode_msg_map_def carries_def)
qed

lemma carries_id:
  assumes "carries m ky ver lb ub" "length lb = NDIM" "length ub = NDIM" "get_data_id dt ky ver lb ub = Some i"
  shows "get_data_id_msg dt m = Some i"
  using assms by (auto simp: get_data_id_def get_data_id_msg_def carries_def split: if_splits)

text \<open>An item that is moved: its name, its type and size, its place in the domain.\<close>

definition movable :: "char \<Rightarrow> string \<Rightarrow> u32 \<Rightarrow> string \<Rightarrow> int \<Rightarrow> coor \<Rightarrow> coor \<Rightarrow> coor \<Rightarrow> string \<Rightarrow> u64 \<Rightarrow> bool" where
  "movable dt ky ver ty sz g lb ub i n \<longleftrightarrow> length g = NDIM \<and> length lb = NDIM \<and> length ub = NDIM \<and>
     get_data_id dt ky ver lb ub = Some i \<and> CHR 0x00 \<notin> set i \<and> length i < TCP_MAX_DATA_ID_LENGTH \<and> elem_size ty = Some sz \<and>
     get_data_length NDIM g lb ub = n \<and> 0 < n \<and> uint n * sz < 2 ^ 31 \<and> uint n < 2 ^ 31"

definition item_info :: "string \<Rightarrow> u32 \<Rightarrow> int \<Rightarrow> coor \<Rightarrow> coor \<Rightarrow> coor \<Rightarrow> get_info" where
  "item_info ky ver sz g lb ub =
     \<lparr>gi_var_name = ky, gi_ver = ver, gi_size = sz, gi_ndim = NDIM, gi_gdim = g, gi_lb = lb, gi_ub = ub\<rparr>"

lemma wa_put_begins:
  assumes "movable dt ky ver ty sz g lb ub i n"
  shows "wa_put_start ky ver sz (int NDIM) g lb ub d =
    Some (Inr (item_info ky ver sz g lb ub, reg_get_push (item_info ky ver sz g lb ub) d))"
proof -
  have n: "get_data_length NDIM g lb ub = n" "0 < uint n" "uint n < 2 ^ 31" "uint n * sz < 2 ^ 31"
    using assms by (simp_all add: movable_def word_less_def)
  have "elem_size ty = Some sz" using assms by (simp add: movable_def)
  then have "0 < sz" by (auto simp: elem_size_def split: if_splits)
  then have "alloc_size sz (uint n) \<noteq> None" using n by (simp add: alloc_size_def mult.commute)
  then show ?thesis using n by (auto simp: wa_put_start_def int32_of_small item_info_def Let_def)
qed

lemma move_msg_fields:
  assumes "carries m ky ver lb ub" "length g = NDIM"
  shows "data_fields (move_msg \<lparr>di_data_type = ty, di_size = sz, di_gdim = x\<rparr> g m) ky ver ty sz g lb ub"
  using assms by (auto simp: data_fields_def move_msg_def) (simp_all add: msg_get_def)

text \<open>The holder asks where to send the item.\<close>

lemma move_asks:
  assumes "lexer_ok (e_lex E)" "movable dt ky ver ty sz g lb ub i n" "carries m ky ver lb ub" "msg_get ''to_id'' m = dec_int d"
    "- (2 ^ 31) \<le> d" "d < 2 ^ 31"
    and h: "ri_data_id_t h = dt" "data_trans_protocol h = TCP" "linked (e_net E) (sl_node (ri_slave h)) d"
      "map_of (data_id_hash__data_info_map h) (hash_str i) = Some (Some \<lparr>di_data_type = ty, di_size = sz, di_gdim = Some g\<rparr>)"
      "\<not> smap_contains (sync_point RI_TINFO_QUERY i) (point_cv_map (ri_syncer h))"
  obtains m1 x y where "handle_dm_move E t m h = Some (m1, ROwn (sync_point RI_TINFO_QUERY i), [RSdm (ESend x)], h\<lparr>ri_syncer := y\<rparr>)"
    "data_fields m1 ky ver ty sz g lb ub" "msg_get ''to_id'' m1 = dec_int d"
    "data_fields (o_map x) ky ver ty sz g lb ub" "msg_get ''id'' (o_map x) = dec_int (nd_id (sl_node (ri_slave h)))"
    "msg_get ''type'' (o_map x) = RI_TINFO_QUERY" "sleeper (sync_point RI_TINFO_QUERY i) t y"
proof -
  have len: "length g = NDIM" "length lb = NDIM" "length ub = NDIM" and i: "get_data_id dt ky ver lb ub = Some i"
    using assms(2) by (simp_all add: movable_def)
  let ?di = "\<lparr>di_data_type = ty, di_size = sz, di_gdim = Some g\<rparr>"
  let ?m1 = "move_msg ?di g m" let ?q = "smap_put ''type'' RI_TINFO_QUERY ?m1"
  have f: "data_fields ?m1 ky ver ty sz g lb ub" by (rule move_msg_fields [OF assms(3) len(1)])
  have to: "lex_int (e_lex E) (dec_int d) = Some d" using assms(1,5,6) by (auto simp: lexer_ok_def)
  have at: "tsmap_at None (hash_str i) (data_id_hash__data_info_map h) = (Some ?di, data_id_hash__data_info_map h)"
    using h(4) by (simp add: tsmap_at_def smap_get_def smap_touch_def smap_contains_def)
  obtain x where x: "send_msg (e_net E) d PACKET_RIMSG ?q (sl_node (ri_slave h)) = Some (0, [x])"
    "o_map x = gen_packet ?q (sl_node (ri_slave h))"
    by (rule msg_sent [OF h(3)])
  obtain y where y: "fall_asleep (sync_point RI_TINFO_QUERY i) t (ri_syncer h) = Some y" "sleeper (sync_point RI_TINFO_QUERY i) t y"
    by (rule asleep_alone [OF h(5)])
  have ids: "get_data_id_msg dt m = Some i" "get_data_id_msg dt ?m1 = Some i"
    by (rule carries_id [OF assms(3) len(2,3) i], rule fields_id [OF f len(2,3) i])
  have "handle_dm_move E t m h = Some (?m1, ROwn (sync_point RI_TINFO_QUERY i), [RSdm (ESend x)], h\<lparr>ri_syncer := y\<rparr>)"
    using to assms(4) h(1,2) ids at x(1) y(1)
    by (simp add: handle_dm_move_def trans_info_query_def send_rimsg_def Let_def)
  then show thesis
    by (rule that) (use f y(2) assms(4) in \<open>simp_all add: x(2) packet_get\<close>, simp_all add: move_msg_def gen_packet_def msg_get_def)
qed


text \<open>The destination starts a thread for the item, in which \<open>remote_get\<close> sleeps, and answers.\<close>

lemma destination_answers:
  assumes "lexer_ok (e_lex F)" "movable dt ky ver ty sz g lb ub i n" "data_fields q ky ver ty sz g lb ub"
    "msg_get ''id'' q = dec_int hid" "- (2 ^ 31) \<le> hid" "hid < 2 ^ 31"
    and r: "ri_data_id_t r = dt" "data_trans_protocol r = TCP" "linked (e_net F) (sl_node (ri_slave r)) hid"
  obtains mr z where "handle_tinfo_query F j q r = Some (RDone, [RThread j mr, RSdm (ESend z)],
      r\<lparr>data_id__remote_get_t_map := smap_put i (Some j) (data_id__remote_get_t_map r)\<rparr>)"
    "data_fields mr ky ver ty sz g lb ub" "data_fields (o_map z) ky ver ty sz g lb ub" "msg_get ''type'' (o_map z) = RI_TINFO_QUERY_REPLY"
proof -
  have len: "length lb = NDIM" "length ub = NDIM" and i: "get_data_id dt ky ver lb ub = Some i"
    using assms(2) by (simp_all add: movable_def)
  let ?m = "smap_put ''tmpfs_dir'' (e_tmpfs F) (smap_put ''lport'' (e_lport F)
    (smap_put ''lip'' (e_lip F) (smap_put ''type'' RI_TINFO_QUERY_REPLY q)))"
  have f: "data_fields ?m ky ver ty sz g lb ub" using assms(3) by simp
  have id: "get_data_id_msg dt ?m = Some i" by (rule fields_id [OF f len i])
  have hid: "lex_int (e_lex F) (dec_int hid) = Some hid" "msg_get ''id'' ?m = dec_int hid"
    using assms(1,4-6) by (auto simp: lexer_ok_def) (simp add: msg_get_def)
  let ?r = "r\<lparr>data_id__remote_get_t_map := smap_put i (Some j) (data_id__remote_get_t_map r)\<rparr>"
  obtain z where z: "send_msg (e_net F) hid PACKET_RIMSG ?m (sl_node (ri_slave ?r)) = Some (0, [z])"
    "o_map z = gen_packet ?m (sl_node (ri_slave ?r))"
    by (rule msg_sent [where m = ?m and n = "sl_node (ri_slave ?r)"]) (use r(3) in simp)
  have "handle_tinfo_query F j q r = Some (RDone, [RThread j ?m, RSdm (ESend z)], ?r)"
    using r(1,2) id hid z(1) by (simp add: handle_tinfo_query_def send_rimsg_def Let_def)
  then show thesis
    by (rule that) (use f in \<open>simp_all add: z(2) packet_get\<close>, simp_all add: msg_get_def)
qed

lemma destination_waits:
  assumes "lexer_ok (e_lex F)" "movable dt ky ver ty sz g lb ub i n" "data_fields mr ky ver ty sz g lb ub"
    and r: "rfp_data_id_t (ri_rfp r) = dt" "\<not> smap_contains (hash_str i) (point_cv_map (ts_syncer (tcp_server_t (rfp_trans (ri_rfp r)))))"
  obtains listen rf where "remote_get F junk t mr r = Some (Some listen, r\<lparr>ri_rfp := rf\<rparr>)"
    "wa_get_start junk t ky ver sz (int NDIM) g lb ub (ri_rfp r) = Some (listen, rf)"
proof -
  have len: "length g = NDIM" "length lb = NDIM" "length ub = NDIM" and i: "get_data_id dt ky ver lb ub = Some i" and e: "elem_size ty = Some sz"
    using assms(2) by (simp_all add: movable_def)
  have sz: "- (2 ^ 31) \<le> sz" "sz < 2 ^ 31" using e by (auto simp: elem_size_def split: if_splits)
  note dec = fields_decoded [OF assms(3,1) len sz]
  obtain y where "fall_asleep (hash_str i) t (ts_syncer (tcp_server_t (rfp_trans (ri_rfp r)))) = Some y"
    by (rule asleep_alone [OF r(2)])
  then obtain l rf where "wa_get_start junk t ky ver sz (int NDIM) g lb ub (ri_rfp r) = Some (l, rf)"
    using i r(1) by (auto simp: wa_get_start_def trans_init_get_def tcp_server_init_def fall_asleep_def Let_def)
  then show thesis using len(2) by (intro that [of l rf]) (simp_all add: remote_get_def dec)
qed

text \<open>The answer wakes the holder's thread, which asks its data space for the item.\<close>

lemma answer_wakes:
  assumes "movable dt ky ver ty sz g lb ub i n" "data_fields a ky ver ty sz g lb ub" "ri_data_id_t h = dt"
    "sleeper (sync_point RI_TINFO_QUERY i) t (ri_syncer h)" "e_pick E [t] = t"
  obtains ti y where "handle_tinfo_query_reply E a h = Some (RDone, [RWake t], h\<lparr>ri_syncer := y,
      data_id_hash__trans_info_map := smap_put (hash_str i) (Some ti) (data_id_hash__trans_info_map h)\<rparr>)"
    "roused (sync_point RI_TINFO_QUERY i) y"
proof -
  obtain y where y: "notify (e_pick E) (sync_point RI_TINFO_QUERY i) (ri_syncer h) = Some (0, Some t, y)" "roused (sync_point RI_TINFO_QUERY i) y"
    by (rule sleeper_notified [where pick = "e_pick E", OF assms(4,5)])
  have len: "length lb = NDIM" "length ub = NDIM" and i: "get_data_id dt ky ver lb ub = Some i" using assms(1) by (simp_all add: movable_def)
  have "get_data_id_msg (ri_data_id_t h) a = Some i" using fields_id [OF assms(2) len i] assms(3) by simp
  then show thesis using y by (intro that) (auto simp: handle_tinfo_query_reply_def rwakes_def Let_def)
qed

lemma holder_fetches:
  assumes "lexer_ok (e_lex E)" "movable dt ky ver ty sz g lb ub i n" "data_fields m1 ky ver ty sz g lb ub" "msg_get ''to_id'' m1 = dec_int d"
    "- (2 ^ 31) \<le> d" "d < 2 ^ 31"
    and h: "ri_data_id_t h = dt" "map_of (data_id_hash__data_info_map h) (hash_str i) = Some (Some \<lparr>di_data_type = ty, di_size = sz, di_gdim = Some g\<rparr>)"
      "map_of (data_id_hash__trans_info_map h) (hash_str i) = Some (Some ti)" "roused (sync_point RI_TINFO_QUERY i) (ri_syncer h)"
  obtains h' where "handle_dm_move_resume E m1 h = Some (RData (item_info ky ver sz g lb ub) ty, [], h')"
    "ri_driver h' = reg_get_push (item_info ky ver sz g lb ub) (ri_driver h)" "ri_rfp h' = ri_rfp h"
proof -
  have len: "length lb = NDIM" "length ub = NDIM" and i: "get_data_id dt ky ver lb ub = Some i" using assms(2) by (simp_all add: movable_def)
  obtain y where y: "del_sync_point (sync_point RI_TINFO_QUERY i) (ri_syncer h) = Some (0, y)" using roused_deletes [OF h(4)] by blast
  have id: "get_data_id_msg dt m1 = Some i" by (rule fields_id [OF assms(3) len i])
  have to: "lex_int (e_lex E) (dec_int d) = Some d" using assms(1,5,6) by (auto simp: lexer_ok_def)
  note dec = fields_item [OF assms(3,1) len]
  have at: "tsmap_at None (hash_str i) (data_id_hash__data_info_map h) = (Some \<lparr>di_data_type = ty, di_size = sz, di_gdim = Some g\<rparr>, data_id_hash__data_info_map h)"
    "tsmap_at None (hash_str i) (data_id_hash__trans_info_map h) = (Some ti, data_id_hash__trans_info_map h)"
    using h(2,3) by (simp_all add: tsmap_at_def smap_get_def smap_touch_def smap_contains_def)
  have "handle_dm_move_resume E m1 h = Some (RData (item_info ky ver sz g lb ub) ty, [],
      h\<lparr>ri_syncer := y, ri_driver := reg_get_push (item_info ky ver sz g lb ub) (ri_driver h)\<rparr>)"
    using h(1) id y dec len to assms(4) i at
    by (simp add: handle_dm_move_resume_def trans_info_query_resume_def remote_put_def ri_hash_def wa_put_begins [OF assms(2)])
  then show thesis by (rule that) simp_all
qed


text \<open>The holder sends what its data space gave it.\<close>

lemma holder_sends:
  assumes "lexer_ok L" "movable dt ky ver ty sz g lb ub i n" "length data = unat n * nat sz"
    and h: "rfp_data_id_t (ri_rfp h) = dt" "rfp_protocol (ri_rfp h) = TCP" "tc_connected (w_conn W)" "\<forall>k. w_link W k \<noteq> None"
      "reg_get_resume (item_info ky ver sz g lb ub) d = Some (0, d')"
  obtains sock h' cs where "remote_put_resume E W data ty (item_info ky ver sz g lb ub) m (h\<lparr>ri_driver := d\<rparr>) = Some (sock, RDone, [], h')"
    "tcp_init_recv L False sock = Some (map (\<lambda>x. (i, int (length x), x)) cs, Recv_done, [hash_str i])" "concat cs = data"
proof -
  have mv: "get_data_id (rfp_data_id_t (ri_rfp h)) ky ver lb ub = Some i" "CHR 0x00 \<notin> set i" "length i < TCP_MAX_DATA_ID_LENGTH" "elem_size ty = Some sz"
    "get_data_length (nat (int NDIM)) g lb ub = n" "0 < n" "uint n * sz < 2 ^ 31" "uint n < 2 ^ 31"
    using assms(2) h(1) by (simp_all add: movable_def)
  obtain sock s' cs where s: "wa_put_finish W ty data (item_info ky ver sz g lb ub) d (ri_rfp h) = Some (0, sock, d', s')"
    "tcp_init_recv L False sock = Some (map (\<lambda>x. (i, int (length x), x)) cs, Recv_done, [hash_str i])" "concat cs = data"
    by (rule wa_put_sends [OF assms(1) mv assms(3) h(2-4) wa_put_begins [OF assms(2)] h(5)])
  have "remote_put_resume E W data ty (item_info ky ver sz g lb ub) m (h\<lparr>ri_driver := d\<rparr>) =
      Some (sock, RDone, [], h\<lparr>ri_driver := d', ri_rfp := s'\<rparr>)"
    using s(1) by (simp add: remote_put_resume_def Let_def)
  then show ?thesis using s(2,3) by (rule that)
qed

lemma get_resume_keeps:
  "wa_get_resume dput dsync ky ver lb ub l s = Some (code, l', s') \<Longrightarrow> rfp_data_id_t s' = rfp_data_id_t s \<and> rfp_syncer s' = rfp_syncer s"
  by (auto simp: wa_get_resume_def Let_def case_prod_beta bind_eq_Some_conv split: if_splits)

text \<open>The destination's thread puts the item into its data space, enters it into the table of its slave and tells the
  master.\<close>

lemma destination_finishes:
  assumes "lexer_ok (e_lex F)" "movable dt ky ver ty sz g lb ub i n" "data_fields mr ky ver ty sz g lb ub" "fst (dput data l) = 0"
    and r: "ri_data_id_t r = dt" "rfp_data_id_t (ri_rfp r) = dt" "receiving i k data (ri_rfp r)"
      "roused (hash_str i) (ts_syncer (tcp_server_t (rfp_trans (ri_rfp r))))"
      "\<not> smap_contains (hash_str i) (point_cv_map (rfp_syncer (ri_rfp r)))"
      "linked (e_net F) (sl_node (ri_slave r)) (sdm_master_id (sl_node (ri_slave r)))" "sdm_master_id (sl_node (ri_slave r)) \<noteq> - 1"
  obtains z r' where "remote_get_resume F dput dsync mr l r = Some (0, [RSdm (ESend z)], dsync (snd (dput data l)), r')"
    "sl_qtable (ri_slave r') = snd (qt_add (e_q F) ky ver lb ub REMOTE_P_ID (sl_qtable (ri_slave r)))"
    "is_being_get ky ver lb ub (ri_rfp r') = Some False" "o_type z = PACKET_CMSG" "carries (o_map z) ky ver lb ub"
    "msg_get ''type'' (o_map z) = SDM_MOVE_REPLY"
proof -
  have len: "length g = NDIM" "length lb = NDIM" "length ub = NDIM" and i: "get_data_id dt ky ver lb ub = Some i" and e: "elem_size ty = Some sz"
    using assms(2) by (simp_all add: movable_def)
  have sz: "- (2 ^ 31) \<le> sz" "sz < 2 ^ 31" using e by (auto simp: elem_size_def split: if_splits)
  note dec = fields_decoded [OF assms(3,1) len sz]
  obtain rf code where rf: "wa_get_resume dput dsync ky ver lb ub l (ri_rfp r) = Some (code, dsync (snd (dput data l)), rf)"
    "code = 0 \<longleftrightarrow> fst (dput data l) = 0" "code = 0 \<longrightarrow> is_being_get ky ver lb ub rf = Some False"
    by (rule wa_get_finishes [where dput = dput and dsync = dsync and l = l, OF r(3) _ r(4)]) (use i r(2) in simp_all)
  have c: "code = 0" using rf(2) assms(4) by simp
  have keep: "rfp_data_id_t rf = dt" "rfp_syncer rf = rfp_syncer (ri_rfp r)"
    using get_resume_keeps [OF rf(1)] r(2) by simp_all
  have ntf: "rfp_notify_remote_get_done (e_pick F) ky ver lb ub rf = Some (0, None, rf)"
    using r(5) i keep by (simp add: rfp_notify_remote_get_done_def notify_def)
  let ?sl = "(ri_slave r)\<lparr>sl_qtable := snd (qt_add (e_q F) ky ver lb ub REMOTE_P_ID (sl_qtable (ri_slave r)))\<rparr>"
  have "linked (e_net F) (sl_node ?sl) (sdm_master_id (sl_node ?sl))" "sdm_master_id (sl_node ?sl) \<noteq> - 1" using r(6,7) by simp_all
  then obtain z where z: "slave_notify_remote_get_done (e_net F) ky ver lb ub ?sl = Some (0, [ESend z])" "o_type z = PACKET_CMSG"
    "o_map z = gen_packet (smap_put ''type'' SDM_MOVE_REPLY (encode_item ky ver lb ub [])) (sl_node ?sl)"
    unfolding slave_notify_remote_get_done_def by (rule cmsg_sent_to_master)
  let ?r = "r\<lparr>ri_rfp := rf, ri_slave := ?sl, data_id_hash__data_info_map :=
    smap_put (hash_str i) (Some \<lparr>di_data_type = ty, di_size = sz, di_gdim = None\<rparr>) (data_id_hash__data_info_map r)\<rparr>"
  have "remote_get_resume F dput dsync mr l r = Some (0, [RSdm (ESend z)], dsync (snd (dput data l)), ?r)"
    using dec rf(1) c ntf z(1) r(1) i by (simp add: remote_get_resume_def slave_put_def ri_hash_def rwakes_def Let_def)
  then show ?thesis
    by (rule that) (use rf(3) c z(2) len in \<open>simp_all add: z(3) packet_get item_carries, simp_all add: msg_get_def\<close>)
qed


text \<open>Both ends of the transfer: what the holder got from its data space, in \<open>d0\<close>, is put at the destination, whose
  thread has begun to listen.\<close>

lemma item_carried:
  assumes "lexer_ok (e_lex F)" "movable dt ky ver ty sz g lb ub i n" "length data = unat n * nat sz" "fst (dput data l) = 0"
    and h: "rfp_data_id_t (ri_rfp h) = dt" "rfp_protocol (ri_rfp h) = TCP" "tc_connected (w_conn W)" "\<forall>k. w_link W k \<noteq> None"
      "reg_get_resume (item_info ky ver sz g lb ub) d0 = Some (0, d1)"
    and r: "data_fields mr ky ver ty sz g lb ub" "wa_get_start junk t' ky ver sz (int NDIM) g lb ub (ri_rfp r) = Some (listen, rf0)"
      "ri_data_id_t r = dt" "rfp_data_id_t (ri_rfp r) = dt"
      "linked (e_net F) (sl_node (ri_slave r)) (sdm_master_id (sl_node (ri_slave r)))" "sdm_master_id (sl_node (ri_slave r)) \<noteq> - 1"
      "\<not> smap_contains (hash_str i) (point_cv_map (ts_syncer (tcp_server_t (rfp_trans (ri_rfp r)))))"
      "\<not> smap_contains (hash_str i) (point_cv_map (rfp_syncer (ri_rfp r)))" "\<not> ts_closed (tcp_server_t (rfp_trans (ri_rfp r)))"
      "e_pick F [t'] = t'"
  shows "\<exists>sock h4 rf w r3. remote_put_resume E W data ty (item_info ky ver sz g lb ub) m (h\<lparr>ri_driver := d0\<rparr>) = Some (sock, RDone, [], h4) \<and>
    conn_in_order (e_pick F) (e_lex F) sock rf0 = Some ([Some t'], rf) \<and>
    remote_get_resume F dput dsync mr l (r\<lparr>ri_rfp := rf\<rparr>) = Some (0, [RSdm (ESend w)], dsync (snd (dput data l)), r3) \<and>
    sl_qtable (ri_slave r3) = snd (qt_add (e_q F) ky ver lb ub REMOTE_P_ID (sl_qtable (ri_slave r))) \<and>
    is_being_get ky ver lb ub (ri_rfp r3) = Some False \<and> msg_get ''type'' (o_map w) = SDM_MOVE_REPLY \<and> carries (o_map w) ky ver lb ub"
proof -
  obtain sock h4 cs where send: "remote_put_resume E W data ty (item_info ky ver sz g lb ub) m (h\<lparr>ri_driver := d0\<rparr>) = Some (sock, RDone, [], h4)"
    "tcp_init_recv (e_lex F) False sock = Some (map (\<lambda>x. (i, int (length x), x)) cs, Recv_done, [hash_str i])" "concat cs = data"
    by (rule holder_sends [OF assms(1-3) h])
  have i: "get_data_id (rfp_data_id_t (ri_rfp r)) ky ver lb ub = Some i"
    and len: "unat (word_of_int sz * get_data_length (nat (int NDIM)) g lb ub) = length data"
    using assms(2,3) r(4) unat_mult_small [of ty sz n] by (simp_all add: movable_def)
  obtain rf where rf: "conn_in_order (e_pick F) (e_lex F) sock rf0 = Some ([Some t'], rf)" "receiving i (length data) data rf"
    "roused (hash_str i) (ts_syncer (tcp_server_t (rfp_trans rf)))" "rfp_data_id_t rf = rfp_data_id_t (ri_rfp r)" "rfp_syncer rf = rfp_syncer (ri_rfp r)"
    by (rule item_received [where pick = "e_pick F", OF r(2) i r(7,9) len r(10) send(2,3)])
  let ?r2 = "r\<lparr>ri_rfp := rf\<rparr>"
  obtain w r3 where "remote_get_resume F dput dsync mr l ?r2 = Some (0, [RSdm (ESend w)], dsync (snd (dput data l)), r3)"
    "sl_qtable (ri_slave r3) = snd (qt_add (e_q F) ky ver lb ub REMOTE_P_ID (sl_qtable (ri_slave ?r2)))"
    "is_being_get ky ver lb ub (ri_rfp r3) = Some False" "o_type w = PACKET_CMSG" "carries (o_map w) ky ver lb ub"
    "msg_get ''type'' (o_map w) = SDM_MOVE_REPLY"
    by (rule destination_finishes [where dput = dput and dsync = dsync and l = l, OF assms(1,2) r(1) assms(4), of ?r2]) (use r rf in simp_all)
  then show ?thesis using send(1) rf(1) by auto
qed

subsection \<open>A movement\<close>



subsection \<open>A concrete movement\<close>

definition node_between :: "int \<Rightarrow> int \<Rightarrow> sdm_node" where
  "node_between own other = (node_new ''s'' False own ''10.0.0.3'' 7002 ''10.0.0.1'' 7000)
     \<lparr>nd_commer := snd (add_peer all_up other ''peer'' ''10.0.0.4'' 7003 (snd (add_peer all_up 0 ''peer_0'' ''10.0.0.1'' 7000 commer_new))),
      sdm_master_id := 0\<rparr>"

definition demo_holder :: "int kvtable ri_manager" where
  "demo_holder = demo_ri\<lparr>ri_slave := asking_slave\<lparr>sl_node := node_between 2 3\<rparr>,
     data_id_hash__data_info_map := [(hash_str ''d_0'', Some \<lparr>di_data_type = ''int'', di_size = 4, di_gdim = Some [9, 9, 9]\<rparr>)]\<rparr>"

definition demo_destination :: "int kvtable ri_manager" where
  "demo_destination = demo_ri\<lparr>ri_slave := asking_slave\<lparr>sl_node := node_between 3 2\<rparr>\<rparr>"

definition demo_order :: msg_map where
  "demo_order = encode_item ''d'' 0 [0, 0, 0] [0, 0, 1] (smap_put ''to_id'' ''3'' (smap_put ''type'' SDM_MOVE []))"

lemma node_between_linked: "other \<noteq> 0 \<Longrightarrow> linked all_up (node_between own other) other \<and> linked all_up (node_between own other) 0"
  by (simp add: linked_def node_between_def add_peer_client commer_new_def node_new_def client_new_def
      add_peer_def all_up_def client_connect_def smap_contains_def)

lemma demo_movable: "movable KV_DATA_ID ''d'' 0 ''int'' 4 [9, 9, 9] [0, 0, 0] [0, 0, 1] ''d_0'' 2"
  using demo_transfer(1-3) by (simp add: movable_def NDIM_def TCP_MAX_DATA_ID_LENGTH_def)

lemma demo_order_carries: "carries demo_order ''d'' 0 [0, 0, 0] [0, 0, 1]"
  unfolding demo_order_def by (rule item_carries) (simp_all add: NDIM_def)

lemma demo_order_fields: "msg_get ''type'' demo_order = SDM_MOVE \<and> msg_get ''to_id'' demo_order = dec_int 3"
  by code_simp

lemma demo_holder_state:
  "ri_data_id_t demo_holder = KV_DATA_ID \<and> rfp_data_id_t (ri_rfp demo_holder) = KV_DATA_ID \<and> data_trans_protocol demo_holder = TCP \<and>
   rfp_protocol (ri_rfp demo_holder) = TCP \<and> nd_id (sl_node (ri_slave demo_holder)) = 2 \<and> point_cv_map (ri_syncer demo_holder) = []"
  by code_simp

lemma demo_destination_state:
  "ri_data_id_t demo_destination = KV_DATA_ID \<and> rfp_data_id_t (ri_rfp demo_destination) = KV_DATA_ID \<and>
   data_trans_protocol demo_destination = TCP \<and> sdm_master_id (sl_node (ri_slave demo_destination)) = 0 \<and>
   point_cv_map (ts_syncer (tcp_server_t (rfp_trans (ri_rfp demo_destination)))) = [] \<and>
   point_cv_map (rfp_syncer (ri_rfp demo_destination)) = [] \<and> \<not> ts_closed (tcp_server_t (rfp_trans (ri_rfp demo_destination)))"
  by code_simp

lemma demo_nodes: "sl_node (ri_slave demo_holder) = node_between 2 3" "sl_node (ri_slave demo_destination) = node_between 3 2"
  by (simp_all add: demo_holder_def demo_destination_def)


end
