(* ===== verification/Ib_Trans.thy ===== *)
theory Ib_Trans
  imports RFP
begin

text \<open>
  \<open>trans/ib_trans\<close>: the transport over InfiniBand. The client writes into a buffer of the server (RDMA) and the server
  answers every write but the last with a message that it is ready for the next. \<open>Connector\<close> turns the events of the
  connection manager and of the completion queue into calls of the two ends. The verbs library is outside the model:
  what its calls return is an argument, and a reliable connection delivers in order. \<open>None\<close> stands for undefined
  behaviour and for a process exit (\<open>TEST_NZ\<close>). A registered buffer is a function from offsets to bytes. What is only
  logged is left out.
\<close>

definition HEADER_DELIMITER :: char where "HEADER_DELIMITER = CHR 0x23"
definition RDMA_INIT :: char where "RDMA_INIT = CHR ''I''"
definition RDMA_MSG :: char where "RDMA_MSG = CHR ''M''"
definition RDMA_DATA :: char where "RDMA_DATA = CHR ''D''"
definition RDMA_DONE :: char where "RDMA_DONE = CHR ''O''"
definition IB_MAX_DATA_T_LENGTH :: nat where "IB_MAX_DATA_T_LENGTH = 1"
definition IB_MAX_DATA_ID_LENGTH :: nat where "IB_MAX_DATA_ID_LENGTH = 20"
definition IB_MAX_DATA_SIZE_LENGTH :: nat where "IB_MAX_DATA_SIZE_LENGTH = 15"
definition BUFFER_SIZE :: nat where "BUFFER_SIZE = 100 * 1024 * 1024"
definition WAIT_INIT :: char where "WAIT_INIT = CHR ''I''"
definition WAIT_SEND_DATA :: char where "WAIT_SEND_DATA = CHR ''S''"

lemmas ib_sizes = IB_MAX_DATA_T_LENGTH_def IB_MAX_DATA_ID_LENGTH_def IB_MAX_DATA_SIZE_LENGTH_def
lemmas ib_chars = HEADER_DELIMITER_def RDMA_INIT_def RDMA_MSG_def RDMA_DATA_def RDMA_DONE_def WAIT_INIT_def WAIT_SEND_DATA_def

text \<open>The id of a \<open>message\<close>; the address and the key of the server's buffer come with \<open>MSG_MR\<close>.\<close>

datatype message = MSG_INVALID | MSG_MR u64 u32 | MSG_READY_TO_RECV | MSG_DONE

text \<open>What posting a send and a receive returns.\<close>

record verbs =
  post_send_err :: rc
  post_recv_err :: rc

subsection \<open>Connector\<close>

datatype cm_event = ADDR_RESOLVED | ROUTE_RESOLVED | CONNECT_REQUEST | ESTABLISHED | DISCONNECTED | OTHER_EVENT
datatype conn_act = Build_conn | On_pre_conn | Resolve_route | Connect | Accept | On_conn | Destroy_qp | On_disconn | Destroy_id

text \<open>The acts of \<open>event_loop\<close> on an event, and whether it leaves the loop; an event it does not know ends the process.\<close>

definition conn_event :: "bool \<Rightarrow> cm_event \<Rightarrow> (conn_act list \<times> bool) option" where
  "conn_event exit_on_disconn e =
     (case e of
        ADDR_RESOLVED \<Rightarrow> Some ([Build_conn, On_pre_conn, Resolve_route], False)
      | ROUTE_RESOLVED \<Rightarrow> Some ([Connect], False)
      | CONNECT_REQUEST \<Rightarrow> Some ([Build_conn, On_pre_conn, Accept], False)
      | ESTABLISHED \<Rightarrow> Some ([On_conn], False)
      | DISCONNECTED \<Rightarrow> Some ([Destroy_qp, On_disconn, Destroy_id], exit_on_disconn)
      | OTHER_EVENT \<Rightarrow> None)"

fun event_loop :: "bool \<Rightarrow> cm_event list \<Rightarrow> conn_act list option" where
  "event_loop ex [] = Some []"
| "event_loop ex (e # es) = do {
     (as, leave) \<leftarrow> conn_event ex e;
     if leave then Some as else do { bs \<leftarrow> event_loop ex es; Some (as @ bs) } }"

text \<open>One turn of the loop of \<open>poll_cq\<close>: whether it goes on after a completion with status \<open>ok\<close>, given what
  \<open>on_completion\<close> returned. \<open>poll_cq\<close> gives up on a failed completion and on a handler that returns an error.\<close>

definition poll_goes_on :: "bool \<Rightarrow> rc \<Rightarrow> bool" where
  "poll_goes_on ok r \<longleftrightarrow> ok \<and> r = 0"

subsection \<open>IBClient\<close>

text \<open>\<open>ib_id\<close>: whether \<open>id_\<close> is set. The address and the key of the peer are unset before \<open>MSG_MR\<close>.\<close>

record ib_client =
  ib_syncer :: "char syncer"
  ib_id :: bool
  peer_addr :: u64
  peer_rkey :: u32
  size_data_bq :: "(int \<times> string) list"
  ib_buffer :: "nat \<Rightarrow> char"

definition ib_client_new :: "u64 \<Rightarrow> u32 \<Rightarrow> (nat \<Rightarrow> char) \<Rightarrow> ib_client" where
  "ib_client_new addr rkey junk =
     \<lparr>ib_syncer = syncer_new, ib_id = False, peer_addr = addr, peer_rkey = rkey, size_data_bq = [], ib_buffer = junk\<rparr>"

text \<open>A field of a header: the string, then delimiters. The number is printed with \<open>%d\<close>, which reads an \<open>int\<close>.\<close>

definition ib_field :: "nat \<Rightarrow> string \<Rightarrow> string" where
  "ib_field n s = s @ replicate (n - length s) HEADER_DELIMITER"

text \<open>\<open>atoi\<close>; a number that is not an \<open>int\<close> is undefined.\<close>

definition atoi :: "string \<Rightarrow> int option" where
  "atoi s =
     (let s = dropWhile (\<lambda>c. c \<in> {CHR '' '', CHR 0x09, CHR 0x0A, CHR 0x0B, CHR 0x0C, CHR 0x0D}) s;
          neg = (s \<noteq> [] \<and> hd s = CHR ''-'');
          ds = takeWhile is_digit (if s \<noteq> [] \<and> hd s \<in> {CHR ''-'', CHR ''+''} then tl s else s);
          v = (if neg then - int (undec ds) else int (undec ds))
      in if - (2 ^ 31) \<le> v \<and> v < 2 ^ 31 then Some v else None)"

text \<open>\<open>make_header\<close>: a code, the size and the bytes of the header; \<open>junk\<close> is what \<open>malloc\<close> left in it. Writing behind it
  is undefined.\<close>

definition header_size :: "char \<Rightarrow> nat option" where
  "header_size data_t =
     (if data_t = RDMA_INIT \<or> data_t = RDMA_DONE then Some (IB_MAX_DATA_T_LENGTH + 1)
      else if data_t = RDMA_MSG then Some (IB_MAX_DATA_T_LENGTH + IB_MAX_DATA_SIZE_LENGTH + 1)
      else if data_t = RDMA_DATA then Some (IB_MAX_DATA_T_LENGTH + IB_MAX_DATA_ID_LENGTH + IB_MAX_DATA_SIZE_LENGTH + 1)
      else None)"

definition make_header :: "(nat \<Rightarrow> char) \<Rightarrow> char \<Rightarrow> string \<Rightarrow> u64 \<Rightarrow> (rc \<times> int \<times> string) option" where
  "make_header junk data_t data_id data_size =
     (case header_size data_t of
        None \<Rightarrow> Some (1, 0, [])
      | Some n \<Rightarrow>
          if length data_id > IB_MAX_DATA_ID_LENGTH then Some (1, int n, [])
          else
            let fid = (if length data_id > 0 then ib_field IB_MAX_DATA_ID_LENGTH data_id else []);
                num = dec_int (int32_of data_size)
            in do {
              v \<leftarrow> atoi num;
              if data_size > 0 \<and> data_size \<noteq> word_of_int v then Some (1, int n, [])
              else
                let w = data_t # fid @ (if data_size > 0 then ib_field IB_MAX_DATA_SIZE_LENGTH num else []) @ [CHR 0x00]
                in if length w > n then None else Some (0, int n, w @ map junk [length w..<n]) })"

definition push_pair :: "int \<times> string \<Rightarrow> ib_client \<Rightarrow> ib_client" where
  "push_pair p c = c\<lparr>size_data_bq := bq_push p (size_data_bq c)\<rparr>"

definition send_header :: "(nat \<Rightarrow> char) \<Rightarrow> char \<Rightarrow> string \<Rightarrow> u64 \<Rightarrow> ib_client \<Rightarrow> (rc \<times> ib_client) option" where
  "send_header junk data_t data_id data_size c = do {
     (err, n, h) \<leftarrow> make_header junk data_t data_id data_size;
     if err \<noteq> 0 then Some (err, c) else Some (0, push_pair (n, h) c) }"

definition send_init :: "(nat \<Rightarrow> char) \<Rightarrow> ib_client \<Rightarrow> (rc \<times> ib_client) option" where
  "send_init junk c = send_header junk RDMA_INIT [] 0 c"

text \<open>The size of a message is an \<open>int\<close> here.\<close>

definition send_msg_ib :: "(nat \<Rightarrow> char) \<Rightarrow> string \<Rightarrow> ib_client \<Rightarrow> (rc \<times> ib_client) option" where
  "send_msg_ib junk msg c = do {
     (err, c) \<leftarrow> send_header junk RDMA_MSG [] (word_of_nat (length msg)) c;
     if err \<noteq> 0 then Some (err, c)
     else Some (0, push_pair (int (length msg) + 1, msg @ [CHR 0x00]) c) }"

text \<open>The chunks of \<open>n\<close> bytes at a pointer.\<close>

function ib_chunks :: "nat \<Rightarrow> string \<Rightarrow> (int \<times> string) list" where
  "ib_chunks n data =
     (if n = 0 then []
      else let chunk_size = (if n > BUFFER_SIZE then BUFFER_SIZE else n)
           in (int chunk_size, take chunk_size data) # ib_chunks (n - chunk_size) (drop chunk_size data))"
  by pat_completeness auto
termination
  by (relation "measure fst") (auto simp: BUFFER_SIZE_def)

declare ib_chunks.simps [simp del]

definition EOF_PAIR :: "int \<times> string" where
  "EOF_PAIR = (4, ''EOF'' @ [CHR 0x00])"

text \<open>\<open>send_data\<close> up to the wait (\<open>False\<close>: it returns at once), and after the wake-up.\<close>

definition send_data :: "(nat \<Rightarrow> char) \<Rightarrow> tid \<Rightarrow> string \<Rightarrow> u64 \<Rightarrow> string \<Rightarrow> ib_client \<Rightarrow> (rc \<times> bool \<times> ib_client) option" where
  "send_data junk t data_id data_size data c = do {
     (err, c) \<leftarrow> send_header junk RDMA_DATA data_id data_size c;
     if err \<noteq> 0 then Some (err, False, c)
     else if length data < unat data_size then None
     else do {
       let c = foldl (\<lambda>c p. push_pair p c) c (ib_chunks (unat data_size) data);
       let c = push_pair EOF_PAIR c;
       y \<leftarrow> sync_wait WAIT_SEND_DATA t (snd (add_sync_point WAIT_SEND_DATA 1 (ib_syncer c)));
       Some (0, True, c\<lparr>ib_syncer := y\<rparr>) } }"

definition send_data_resume :: "ib_client \<Rightarrow> (rc \<times> ib_client) option" where
  "send_data_resume c = do { (_, y) \<leftarrow> del_sync_point WAIT_SEND_DATA (ib_syncer c); Some (0, c\<lparr>ib_syncer := y\<rparr>) }"

text \<open>What the client does besides: writing into the peer's buffer (with the number of bytes as immediate data), starting
  a thread that runs \<open>send_next\<close>, waking a thread, disconnecting.\<close>

datatype ib_effect = Rdma_write u64 u32 u32 string | Start_send_next | Wakes tid | Disconnect

definition set_buffer :: "string \<Rightarrow> (nat \<Rightarrow> char) \<Rightarrow> nat \<Rightarrow> char" where
  "set_buffer w b i = (if i < length w then w ! i else b i)"

definition read_buffer :: "(nat \<Rightarrow> char) \<Rightarrow> nat \<Rightarrow> nat \<Rightarrow> string" where
  "read_buffer b off n = map b [off..<off + n]"

definition write_remote :: "verbs \<Rightarrow> u64 \<Rightarrow> ib_client \<Rightarrow> rc \<times> ib_effect list" where
  "write_remote V sz c =
     (if post_send_err V \<noteq> 0 then (post_send_err V, [])
      else (0, [Rdma_write (peer_addr c) (peer_rkey c) (ucast sz) (read_buffer (ib_buffer c) 0 (unat sz))]))"

text \<open>Using the unset \<open>id_\<close> is undefined, and so is copying more than there is or fits.\<close>

definition ib_send_chunk :: "verbs \<Rightarrow> u64 \<Rightarrow> string \<Rightarrow> ib_client \<Rightarrow> (rc \<times> ib_effect list \<times> ib_client) option" where
  "ib_send_chunk V chunk_size chunk c =
     (if \<not> ib_id c \<or> unat chunk_size > BUFFER_SIZE \<or> length chunk < unat chunk_size then None
      else let c = c\<lparr>ib_buffer := set_buffer (take (unat chunk_size) chunk) (ib_buffer c)\<rparr>;
               (err, es) = write_remote V chunk_size c
           in Some (err, es, c))"

text \<open>\<open>send_next\<close> with the pair it has popped; an error ends the process.\<close>

definition send_next :: "verbs \<Rightarrow> int \<times> string \<Rightarrow> ib_client \<Rightarrow> (ib_effect list \<times> ib_client) option" where
  "send_next V p c =
     (if fst p = 4 \<and> c_str (snd p) = ''EOF'' then Some ([], c)
      else do {
        (err, es, c) \<leftarrow> ib_send_chunk V (word_of_int (fst p)) (snd p) c;
        if err \<noteq> 0 then None else Some (es, c) })"

text \<open>The constructor up to its wait, and from its wake-up on. Failing to send the first header ends the process.\<close>

definition ib_client_start :: "tid \<Rightarrow> ib_client \<Rightarrow> ib_client option" where
  "ib_client_start t c = do {
     y \<leftarrow> sync_wait WAIT_INIT t (snd (add_sync_point WAIT_INIT 1 (ib_syncer c)));
     Some (c\<lparr>ib_syncer := y\<rparr>) }"

definition ib_client_started :: "(nat \<Rightarrow> char) \<Rightarrow> ib_client \<Rightarrow> (ib_effect list \<times> ib_client) option" where
  "ib_client_started junk c = do {
     (_, y) \<leftarrow> del_sync_point WAIT_INIT (ib_syncer c);
     (err, c) \<leftarrow> send_init junk (c\<lparr>ib_syncer := y\<rparr>);
     if err \<noteq> 0 then None else Some ([Start_send_next], c) }"

definition wakes_ib :: "tid option \<Rightarrow> ib_effect list" where
  "wakes_ib w = (case w of None \<Rightarrow> [] | Some t \<Rightarrow> [Wakes t])"

text \<open>\<open>on_completion\<close> for a received message and for any other completion.\<close>

definition client_on_recv ::
  "verbs \<Rightarrow> (tid list \<Rightarrow> tid) \<Rightarrow> message \<Rightarrow> ib_client \<Rightarrow> (rc \<times> ib_effect list \<times> ib_client) option" where
  "client_on_recv V pick m c =
     (case m of
        MSG_MR addr rkey \<Rightarrow> do {
          (_, w, y) \<leftarrow> notify pick WAIT_INIT (ib_syncer c);
          Some (post_recv_err V, wakes_ib w, c\<lparr>peer_addr := addr, peer_rkey := rkey, ib_id := True, ib_syncer := y\<rparr>) }
      | MSG_READY_TO_RECV \<Rightarrow> Some (post_recv_err V, [Start_send_next], c)
      | MSG_DONE \<Rightarrow> Some (1, [Disconnect], c)
      | MSG_INVALID \<Rightarrow> Some (post_recv_err V, [], c))"

definition client_on_other :: rc where
  "client_on_other = 0"

text \<open>The thread running \<open>init\<close> when \<open>rc_client_loop\<close> has returned.\<close>

definition client_loop_over :: "(tid list \<Rightarrow> tid) \<Rightarrow> ib_client \<Rightarrow> (ib_effect list \<times> ib_client) option" where
  "client_loop_over pick c = do {
     (_, w, y) \<leftarrow> notify pick WAIT_SEND_DATA (ib_syncer c);
     Some (wakes_ib w, c\<lparr>ib_syncer := y\<rparr>) }"

subsection \<open>IBServer\<close>

definition HEADER_RECV :: char where "HEADER_RECV = CHR ''H''"
definition DATA_RECV :: char where "DATA_RECV = CHR ''D''"

text \<open>\<open>sv_buffer\<close> and \<open>sv_msg\<close> are the buffer and the message of the connection.\<close>

record ib_server =
  recv_state :: char
  sv_data_t :: char
  data_size_to_recv :: u64
  data_size_recved :: u64
  sv_data_id :: string
  data_to_recv :: "string option"
  sv_buffer :: "nat \<Rightarrow> char"
  sv_msg :: message

definition ib_server_new :: "char \<Rightarrow> u64 \<Rightarrow> u64 \<Rightarrow> string \<Rightarrow> (nat \<Rightarrow> char) \<Rightarrow> message \<Rightarrow> ib_server" where
  "ib_server_new dt n1 n2 i b m =
     \<lparr>recv_state = HEADER_RECV, sv_data_t = dt, data_size_to_recv = n1, data_size_recved = n2, sv_data_id = i,
      data_to_recv = None, sv_buffer = b, sv_msg = m\<rparr>"

text \<open>A posted message, a posted receive, the two callbacks.\<close>

datatype sv_effect = Sv_send message | Sv_post_recv | Msg_recv_cb int string | Data_recv_cb string u64 string

definition server_send :: "verbs \<Rightarrow> message \<Rightarrow> ib_server \<Rightarrow> rc \<times> sv_effect list \<times> ib_server" where
  "server_send V m s =
     (if post_send_err V \<noteq> 0 then (post_send_err V, [], s\<lparr>sv_msg := m\<rparr>) else (0, [Sv_send m], s\<lparr>sv_msg := m\<rparr>))"

definition server_on_conn :: "verbs \<Rightarrow> u64 \<Rightarrow> u32 \<Rightarrow> ib_server \<Rightarrow> rc \<times> sv_effect list \<times> ib_server" where
  "server_on_conn V addr rkey s = server_send V (MSG_MR addr rkey) s"

text \<open>Cutting a field at the first delimiter: writing through the null pointer when there is none before the first NUL is
  undefined, and so is searching behind the field.\<close>

definition cut_field :: "string \<Rightarrow> string option" where
  "cut_field f =
     (let p = takeWhile (\<lambda>c. c \<noteq> HEADER_DELIMITER \<and> c \<noteq> CHR 0x00) f
      in if length p < length f \<and> f ! length p = HEADER_DELIMITER then Some p else None)"

definition proc_header :: "(nat \<Rightarrow> char) \<Rightarrow> ib_server \<Rightarrow> ib_server option" where
  "proc_header junk s = do {
     let b = sv_buffer s;
     let s = s\<lparr>sv_data_t := b 0\<rparr>;
     let off = IB_MAX_DATA_T_LENGTH;
     (off, s) \<leftarrow> (if sv_data_t s = RDMA_DATA
                  then do { i \<leftarrow> cut_field (read_buffer b off IB_MAX_DATA_ID_LENGTH);
                            Some (off + IB_MAX_DATA_ID_LENGTH, s\<lparr>sv_data_id := i\<rparr>) }
                  else Some (off, s));
     if sv_data_t s = RDMA_MSG \<or> sv_data_t s = RDMA_DATA
     then do {
       f \<leftarrow> cut_field (read_buffer b off IB_MAX_DATA_SIZE_LENGTH);
       n \<leftarrow> atoi f;
       let n = (word_of_int n :: u64);
       Some (s\<lparr>data_size_recved := 0, data_size_to_recv := n, data_to_recv := Some (map junk [0..<unat n])\<rparr>) }
     else Some s }"

text \<open>The end of \<open>on_completion\<close>: \<open>TEST_NZ\<close> exits when the receive cannot be posted.\<close>

definition server_ready :: "verbs \<Rightarrow> sv_effect list \<Rightarrow> ib_server \<Rightarrow> (rc \<times> sv_effect list \<times> ib_server) option" where
  "server_ready V es s =
     (if post_recv_err V \<noteq> 0 then None
      else let (err, fs, s) = server_send V MSG_READY_TO_RECV s in Some (err, es @ [Sv_post_recv] @ fs, s))"

text \<open>\<open>on_completion\<close> for a write of the client with immediate data: \<open>w\<close> is what the write has put into the buffer.\<close>

definition server_on_write ::
  "verbs \<Rightarrow> (nat \<Rightarrow> char) \<Rightarrow> u32 \<Rightarrow> ib_server \<Rightarrow> (rc \<times> sv_effect list \<times> ib_server) option" where
  "server_on_write V junk imm s =
     (let sz = ucast imm :: u64 in
      if sz = 0 \<or> sv_msg s = MSG_DONE then Some (server_send V MSG_DONE s)
      else if recv_state s = DATA_RECV
      then if sv_data_t s = RDMA_MSG
           then server_ready V [Msg_recv_cb (uint sz) (read_buffer (sv_buffer s) 0 (unat sz))] (s\<lparr>recv_state := HEADER_RECV\<rparr>)
           else if sv_data_t s = RDMA_DATA
           then if data_size_recved s + sz > data_size_to_recv s then Some (1, [], s)
                else do {
                  buf \<leftarrow> data_to_recv s;
                  buf \<leftarrow> write_at (unat (data_size_recved s)) (read_buffer (sv_buffer s) 0 (unat sz)) buf;
                  let s = s\<lparr>data_to_recv := Some buf, data_size_recved := data_size_recved s + sz\<rparr>;
                  if data_size_recved s = data_size_to_recv s
                  then let (err, fs, s') = server_send V MSG_DONE s;
                           es = Data_recv_cb (sv_data_id s) (data_size_recved s) buf # fs
                       in Some (if err \<noteq> 0 then err else 1, es, s')
                  else server_ready V [] s }
           else server_ready V [] s
      else if recv_state s = HEADER_RECV
      then do {
        s \<leftarrow> proc_header junk s;
        let s = (if sv_data_t s = RDMA_MSG \<or> sv_data_t s = RDMA_DATA then s\<lparr>recv_state := DATA_RECV\<rparr> else s);
        server_ready V [] s }
      else Some (1, [], s))"

text \<open>Every other completion, that of a send in particular, runs off the end of \<open>on_completion\<close>, which has no \<open>return\<close>
  there: undefined. \<open>fall\<close> is what the compiled function returns, if anything sensible.\<close>

definition server_on_other :: "rc option \<Rightarrow> rc option" where
  "server_on_other fall = fall"


subsection \<open>IBTrans\<close>

record ib_trans =
  it_s_lip :: string
  s_lport_queue :: "string list"

definition ib_trans_new :: "string \<Rightarrow> string list \<Rightarrow> ib_trans" where
  "ib_trans_new s_lip s_lport_list = foldl (\<lambda>s p. s\<lparr>s_lport_queue := bq_push p (s_lport_queue s)\<rparr>) \<lparr>it_s_lip = s_lip, s_lport_queue = []\<rparr> s_lport_list"

text \<open>Taking a port sleeps (\<open>None\<close>) while there is none.\<close>

definition get_s_lport :: "ib_trans \<Rightarrow> (string \<times> ib_trans) option" where
  "get_s_lport s = map_option (\<lambda>(p, q). (p, s\<lparr>s_lport_queue := q\<rparr>)) (bq_pop (s_lport_queue s))"

definition return_s_lport :: "string \<Rightarrow> ib_trans \<Rightarrow> ib_trans" where
  "return_s_lport p s = s\<lparr>s_lport_queue := bq_push p (s_lport_queue s)\<rparr>"

text \<open>\<open>init_client\<close> with the client connected: what it returns, if it returns without waiting (a wait ends with 0). What
  \<open>send_data\<close> returns is dropped.\<close>

definition ib_init_client ::
  "(nat \<Rightarrow> char) \<Rightarrow> tid \<Rightarrow> string \<Rightarrow> string \<Rightarrow> u64 \<Rightarrow> string \<Rightarrow> ib_client \<Rightarrow> (rc option \<times> ib_client) option" where
  "ib_init_client junk t data_type data_id data_length data c =
     (case elem_size data_type of
        None \<Rightarrow> Some (Some 1, c)
      | Some e \<Rightarrow> map_option (\<lambda>(_, waits, c). (if waits then None else Some 0, c))
          (send_data junk t data_id (data_length * word_of_int e) data c))"

subsection \<open>A connection\<close>

text \<open>The two ends, the threads in \<open>send_next\<close>, the writes and messages under way, the completions of the server's sends,
  the receives it has posted, whether the two polling threads run, whether the disconnection has been asked for, the
  threads woken and the calls of the server's callback.\<close>

record ib_conn =
  cn_client :: ib_client
  cn_server :: ib_server
  cn_senders :: nat
  cn_writes :: "(u32 \<times> string) list"
  cn_msgs :: "message list"
  cn_sent :: nat
  cn_posted :: nat
  cn_sv_polls :: bool
  cn_cl_polls :: bool
  cn_disc :: bool
  cn_woken :: "tid list"
  cn_delivered :: "(string \<times> u64 \<times> string) list"

fun client_effect :: "ib_effect \<Rightarrow> ib_conn \<Rightarrow> ib_conn" where
  "client_effect (Rdma_write _ _ imm w) S = S\<lparr>cn_writes := cn_writes S @ [(imm, w)]\<rparr>"
| "client_effect Start_send_next S = S\<lparr>cn_senders := Suc (cn_senders S)\<rparr>"
| "client_effect (Wakes t) S = S\<lparr>cn_woken := cn_woken S @ [t]\<rparr>"
| "client_effect Disconnect S = S\<lparr>cn_disc := True\<rparr>"

fun server_effect :: "sv_effect \<Rightarrow> ib_conn \<Rightarrow> ib_conn" where
  "server_effect (Sv_send m) S = S\<lparr>cn_msgs := cn_msgs S @ [m], cn_sent := Suc (cn_sent S)\<rparr>"
| "server_effect Sv_post_recv S = S\<lparr>cn_posted := Suc (cn_posted S)\<rparr>"
| "server_effect (Msg_recv_cb _ _) S = S"
| "server_effect (Data_recv_cb i n d) S = S\<lparr>cn_delivered := cn_delivered S @ [(i, n, d)]\<rparr>"

abbreviation after :: "('e \<Rightarrow> ib_conn \<Rightarrow> ib_conn) \<Rightarrow> 'e list \<Rightarrow> ib_conn \<Rightarrow> ib_conn" where
  "after f es S \<equiv> foldl (\<lambda>S e. f e S) S es"

text \<open>A thread pops a pair and sends it; the server's polling thread takes a write or the completion of a send; the
  client's takes a message; the disconnection ends the client's event loop.\<close>

inductive ib_step :: "verbs \<Rightarrow> (tid list \<Rightarrow> tid) \<Rightarrow> (nat \<Rightarrow> char) \<Rightarrow> rc option \<Rightarrow> ib_conn \<Rightarrow> ib_conn \<Rightarrow> bool"
  for V pick junk fall where
  Sends: "0 < cn_senders S \<Longrightarrow> bq_pop (size_data_bq (cn_client S)) = Some (p, q) \<Longrightarrow>
    send_next V p ((cn_client S)\<lparr>size_data_bq := q\<rparr>) = Some (es, c) \<Longrightarrow>
    ib_step V pick junk fall S (after client_effect es (S\<lparr>cn_client := c, cn_senders := cn_senders S - 1\<rparr>))"
| Written: "cn_sv_polls S \<Longrightarrow> 0 < cn_posted S \<Longrightarrow> cn_writes S = (imm, w) # ws \<Longrightarrow>
    server_on_write V junk imm ((cn_server S)\<lparr>sv_buffer := set_buffer w (sv_buffer (cn_server S))\<rparr>) = Some (r, es, v) \<Longrightarrow>
    ib_step V pick junk fall S (after server_effect es
      (S\<lparr>cn_server := v, cn_writes := ws, cn_posted := cn_posted S - 1, cn_sv_polls := poll_goes_on True r\<rparr>))"
| Sent: "cn_sv_polls S \<Longrightarrow> 0 < cn_sent S \<Longrightarrow> server_on_other fall = Some r \<Longrightarrow>
    ib_step V pick junk fall S (S\<lparr>cn_sent := cn_sent S - 1, cn_sv_polls := poll_goes_on True r\<rparr>)"
| Received: "cn_cl_polls S \<Longrightarrow> cn_msgs S = m # ms \<Longrightarrow> client_on_recv V pick m (cn_client S) = Some (r, es, c) \<Longrightarrow>
    ib_step V pick junk fall S (after client_effect es
      (S\<lparr>cn_client := c, cn_msgs := ms, cn_cl_polls := poll_goes_on True r\<rparr>))"
| Disconnected: "cn_disc S \<Longrightarrow> conn_event True DISCONNECTED = Some (as, True) \<Longrightarrow>
    client_loop_over pick (cn_client S) = Some (es, c) \<Longrightarrow>
    ib_step V pick junk fall S (after client_effect es (S\<lparr>cn_client := c, cn_disc := False\<rparr>))"

text \<open>The connection when the constructor of the client has run and \<open>send_data\<close> has gone to sleep, before any header was
  sent.\<close>

definition ib_begin ::
  "verbs \<Rightarrow> (tid list \<Rightarrow> tid) \<Rightarrow> (nat \<Rightarrow> char) \<Rightarrow> tid \<Rightarrow> u64 \<Rightarrow> u32 \<Rightarrow> string \<Rightarrow> u64 \<Rightarrow> string \<Rightarrow> ib_client \<Rightarrow> ib_server \<Rightarrow>
     (rc \<times> ib_conn) option" where
  "ib_begin V pick junk t addr rkey data_id data_size data c s = do {
     c \<leftarrow> ib_client_start t c;
     let (r, es, s) = server_on_conn V addr rkey s;
     (_, fs, c) \<leftarrow> client_on_recv V pick (MSG_MR addr rkey) c;
     (gs, c) \<leftarrow> ib_client_started junk c;
     (err, _, c) \<leftarrow> send_data junk t data_id data_size data c;
     Some (err, after client_effect gs
       \<lparr>cn_client = c, cn_server = s, cn_senders = 0, cn_writes = [], cn_msgs = [], cn_sent = length es, cn_posted = 1,
        cn_sv_polls = True, cn_cl_polls = True, cn_disc = False, cn_woken = [], cn_delivered = []\<rparr>) }"


subsection \<open>Headers\<close>

lemma read_written: "off + n \<le> length w \<Longrightarrow> read_buffer (set_buffer w b) off n = take n (drop off w)"
  by (rule nth_equalityI) (simp_all add: read_buffer_def set_buffer_def)

lemma delimiter_not_digit [simp]: "\<not> is_digit HEADER_DELIMITER"
  by (simp add: is_digit_def HEADER_DELIMITER_def)

lemma cut_ib_field:
  assumes "HEADER_DELIMITER \<notin> set s" "CHR 0x00 \<notin> set s" "length s < n"
  shows "cut_field (ib_field n s) = Some s" "length (ib_field n s) = n"
proof -
  obtain k where k: "n - length s = Suc k" using assms(3) by (cases "n - length s") auto
  have "takeWhile (\<lambda>c. c \<noteq> HEADER_DELIMITER \<and> c \<noteq> CHR 0x00) (s @ HEADER_DELIMITER # replicate k HEADER_DELIMITER) = s"
    using assms(1,2) by (subst takeWhile_append2) auto
  then show "cut_field (ib_field n s) = Some s" by (simp add: cut_field_def ib_field_def k)
  show "length (ib_field n s) = n" using assms(3) by (simp add: ib_field_def)
qed

lemma digits_taken: "takeWhile is_digit (dec n) = dec n"
  by (simp add: takeWhile_eq_all_conv dec_digits)

lemma dec_head: "is_digit (hd (dec n))"
  by (rule dec_digits [OF hd_in_set]) simp

lemma atoi_dec_int:
  assumes "- (2 ^ 31) \<le> v" "v < 2 ^ 31"
  shows "atoi (dec_int v) = Some v"
proof (cases "v < 0")
  case True
  then show ?thesis using assms(1) by (simp add: atoi_def dec_int_def digits_taken)
next
  case False
  have nd: "hd (dec (nat v)) \<notin> {CHR '' '', CHR 0x09, CHR 0x0A, CHR 0x0B, CHR 0x0C, CHR 0x0D, CHR ''-'', CHR ''+''}"
    using dec_head [of "nat v"] by (auto simp: is_digit_def)
  then have "dropWhile (\<lambda>c. c \<in> {CHR '' '', CHR 0x09, CHR 0x0A, CHR 0x0B, CHR 0x0C, CHR 0x0D}) (dec (nat v)) = dec (nat v)"
    by (cases "dec (nat v)") simp_all
  then show ?thesis using False assms(2) nd by (simp add: atoi_def dec_int_def digits_taken Let_def)
qed

lemma int32_of_range: "- (2 ^ 31) \<le> int32_of n" "int32_of n < 2 ^ 31"
  using sint_range_size [of "ucast n :: 32 word"] by (auto simp: int32_of_def word_size)

text \<open>The header of an item, as it goes into the queue and as the server reads it. A size that is not an \<open>int\<close> is
  refused.\<close>

definition data_header :: "string \<Rightarrow> u64 \<Rightarrow> string" where
  "data_header i n = RDMA_DATA # ib_field IB_MAX_DATA_ID_LENGTH i @ ib_field IB_MAX_DATA_SIZE_LENGTH (dec_int (uint n)) @ [CHR 0x00]"

definition init_header :: string where
  "init_header = [RDMA_INIT, CHR 0x00]"

lemma size_field:
  assumes "uint n < 2 ^ 31"
  shows "cut_field (ib_field 15 (dec_int (uint n))) = Some (dec_int (uint n))" "length (ib_field 15 (dec_int (uint n))) = 15"
proof -
  have "nat (uint n) < nat (10 ^ 10)" by (subst nat_less_eq_zless) (use assms in simp_all)
  then have "nat (uint n) < 10 ^ 10" by simp
  then have "length (dec (nat (uint n))) \<le> 10" by (rule length_dec) simp
  then have l: "length (dec_int (uint n)) < 15" by (simp add: dec_int_def)
  have d: "HEADER_DELIMITER \<notin> set (dec_int (uint n))" "CHR 0x00 \<notin> set (dec_int (uint n))"
    by (simp_all add: dec_int_def dec_not_in)
  show "cut_field (ib_field 15 (dec_int (uint n))) = Some (dec_int (uint n))" "length (ib_field 15 (dec_int (uint n))) = 15"
    using cut_ib_field [OF d l] by auto
qed

lemma atoi_size: "uint n < 2 ^ 31 \<Longrightarrow> atoi (dec_int (uint n)) = Some (uint n)"
  by (rule atoi_dec_int) (auto intro: order_trans [OF _ uint_ge_0])

lemma id_field_length: "length i \<le> 20 \<Longrightarrow> length (ib_field 20 i) = 20"
  by (simp add: ib_field_def)

lemma make_init_header: "make_header junk RDMA_INIT [] 0 = Some (0, 2, init_header)"
  by (simp add: make_header_def header_size_def init_header_def ib_sizes int32_of_small atoi_dec_int)

lemma make_data_header:
  assumes "i \<noteq> []" "length i \<le> 20" "0 < n" "uint n < 2 ^ 31"
  shows "make_header junk RDMA_DATA i n = Some (0, 37, data_header i n)"
proof -
  have "RDMA_DATA \<noteq> RDMA_INIT" "RDMA_DATA \<noteq> RDMA_DONE" "RDMA_DATA \<noteq> RDMA_MSG" by (simp_all add: ib_chars)
  moreover have "atoi (dec_int (int32_of n)) = Some (uint n)" using assms(4) by (simp add: int32_of_small atoi_size)
  ultimately show ?thesis using assms size_field [OF assms(4)] id_field_length [OF assms(2)]
    by (simp add: make_header_def header_size_def ib_sizes int32_of_small data_header_def)
qed

lemma large_item_refused:
  assumes "length i \<le> 20" "2 ^ 31 \<le> uint n" "uint n < 2 ^ 63"
  shows "make_header junk RDMA_DATA i n = Some (1, 37, [])"
proof -
  let ?v = "int32_of n"
  have v: "- (2 ^ 31) \<le> ?v" "?v < 2 ^ 31" by (rule int32_of_range)+
  have "n \<noteq> word_of_int ?v"
  proof
    assume "n = word_of_int ?v"
    then have "uint n = uint (word_of_int ?v :: u64)" by (rule arg_cong)
    then have u: "uint n = ?v mod 2 ^ 64" by (simp add: unsigned_of_int take_bit_eq_mod)
    show False
    proof (cases "?v < 0")
      case True
      then have "?v mod 2 ^ 64 = ?v + 2 ^ 64" using v mod_add_self2 [of ?v "2 ^ 64"] mod_pos_pos_trivial [of "?v + 2 ^ 64" "2 ^ 64"] by simp
      then show False using u v(1) assms(3) by simp
    next
      case False
      then show False using u v assms(2) by simp
    qed
  qed
  moreover have "0 < n" using assms(2) by (simp add: word_less_def)
  moreover have "RDMA_DATA \<noteq> RDMA_INIT" "RDMA_DATA \<noteq> RDMA_DONE" "RDMA_DATA \<noteq> RDMA_MSG" by (simp_all add: ib_chars)
  ultimately show ?thesis using assms(1) atoi_dec_int [OF v]
    by (simp add: make_header_def header_size_def ib_sizes)
qed

lemma proc_init_header: "proc_header junk (s\<lparr>sv_buffer := set_buffer init_header b\<rparr>) =
    Some (s\<lparr>sv_buffer := set_buffer init_header b, sv_data_t := RDMA_INIT\<rparr>)"
proof -
  have "RDMA_INIT \<noteq> RDMA_DATA" "RDMA_INIT \<noteq> RDMA_MSG" by (simp_all add: ib_chars)
  then show ?thesis by (simp add: proc_header_def init_header_def set_buffer_def)
qed

lemma proc_data_header:
  assumes "HEADER_DELIMITER \<notin> set i" "CHR 0x00 \<notin> set i" "length i < 20" "uint n < 2 ^ 31"
  shows "proc_header junk (s\<lparr>sv_buffer := set_buffer (data_header i n) b\<rparr>) =
    Some (s\<lparr>sv_buffer := set_buffer (data_header i n) b, sv_data_t := RDMA_DATA, sv_data_id := i,
      data_size_recved := 0, data_size_to_recv := n, data_to_recv := Some (map junk [0..<unat n])\<rparr>)"
proof -
  note idf = cut_ib_field [OF assms(1-3)] and sf = size_field [OF assms(4)]
  have b0: "set_buffer (data_header i n) b 0 = RDMA_DATA" by (simp add: set_buffer_def data_header_def)
  have f1: "read_buffer (set_buffer (data_header i n) b) 1 20 = ib_field 20 i"
    using idf sf by (simp add: read_written data_header_def ib_sizes)
  have f2: "read_buffer (set_buffer (data_header i n) b) 21 15 = ib_field 15 (dec_int (uint n))"
    using idf sf by (simp add: read_written data_header_def ib_sizes)
  have a: "atoi (dec_int (uint n)) = Some (uint n)" using assms(4) by (rule atoi_size)
  show ?thesis using b0 f1 f2 idf(1) sf(1) a by (simp add: proc_header_def ib_sizes Let_def)
qed

end
