(* ===== verification/Ib_Transfer.thy ===== *)
theory Ib_Transfer
  imports Ib_Trans "HOL-Library.Sublist"
begin

text \<open>
  A transfer over the InfiniBand connection of \<open>Ib_Trans\<close>, as runs of its step relation: which states the connection
  goes through, that every run ends, and what has happened by then.
\<close>

subsection \<open>What the server does with the pairs of an item\<close>

text \<open>A pair that \<open>send_next\<close> takes for the end indicator, whatever it is.\<close>

definition looks_like_eof :: "int \<times> string \<Rightarrow> bool" where
  "looks_like_eof p \<longleftrightarrow> fst p = 4 \<and> c_str (snd p) = ''EOF''"

definition chunk_of :: "nat \<Rightarrow> nat" where
  "chunk_of n = (if n > BUFFER_SIZE then BUFFER_SIZE else n)"

lemma chunk_of_range: "0 < n \<Longrightarrow> 0 < chunk_of n \<and> chunk_of n \<le> n \<and> chunk_of n \<le> BUFFER_SIZE"
  by (simp add: chunk_of_def BUFFER_SIZE_def)

lemma ib_chunks_step: "0 < n \<Longrightarrow> ib_chunks n d = (int (chunk_of n), take (chunk_of n) d) # ib_chunks (n - chunk_of n) (drop (chunk_of n) d)"
  by (subst ib_chunks.simps) (simp add: chunk_of_def Let_def)

lemma ib_chunks_0 [simp]: "ib_chunks 0 d = []"
  by (subst ib_chunks.simps) simp

text \<open>The pairs from byte \<open>r\<close> of the data on.\<close>

abbreviation rest_from :: "nat \<Rightarrow> string \<Rightarrow> (int \<times> string) list" where
  "rest_from r data \<equiv> ib_chunks (length data - r) (drop r data) @ [EOF_PAIR]"

text \<open>The server is ready for the pairs \<open>q\<close> of the item \<open>i\<close>.\<close>

definition filled :: "string \<Rightarrow> string \<Rightarrow> nat \<Rightarrow> ib_server \<Rightarrow> bool" where
  "filled i data r s \<longleftrightarrow> recv_state s = DATA_RECV \<and> sv_data_t s = RDMA_DATA \<and> sv_data_id s = i \<and>
     data_size_to_recv s = word_of_nat (length data) \<and> data_size_recved s = word_of_nat r \<and>
     (\<exists>buf. data_to_recv s = Some buf \<and> length buf = length data \<and> take r buf = take r data)"

definition last_pair :: "string \<Rightarrow> int \<times> string" where
  "last_pair data = last (ib_chunks (length data) data)"

definition expects :: "string \<Rightarrow> string \<Rightarrow> (int \<times> string) list \<Rightarrow> ib_server \<Rightarrow> bool" where
  "expects i data q s \<longleftrightarrow> sv_msg s \<noteq> MSG_DONE \<and>
     (recv_state s = HEADER_RECV \<and>
        (q = (2, init_header) # (37, data_header i (word_of_nat (length data))) # rest_from 0 data \<or>
         q = (37, data_header i (word_of_nat (length data))) # rest_from 0 data) \<or>
      (\<exists>r. r < length data \<and> q = rest_from r data \<and> suffix (ib_chunks (length data - r) (drop r data)) (ib_chunks (length data) data) \<and>
         filled i data r s))"

definition item_ok :: "string \<Rightarrow> string \<Rightarrow> bool" where
  "item_ok i data \<longleftrightarrow> i \<noteq> [] \<and> length i < IB_MAX_DATA_ID_LENGTH \<and> HEADER_DELIMITER \<notin> set i \<and> CHR 0x00 \<notin> set i \<and>
     data \<noteq> [] \<and> length data < 2 ^ 31"

definition verbs_ok :: "verbs \<Rightarrow> bool" where
  "verbs_ok V \<longleftrightarrow> post_send_err V = 0 \<and> post_recv_err V = 0"

lemma ready: "verbs_ok V \<Longrightarrow> server_ready V es s = Some (0, es @ [Sv_post_recv, Sv_send MSG_READY_TO_RECV], s\<lparr>sv_msg := MSG_READY_TO_RECV\<rparr>)"
  by (simp add: verbs_ok_def server_ready_def server_send_def)

lemma size_ok:
  "item_ok i data \<Longrightarrow> unat (word_of_nat (length data) :: u64) = length data \<and> uint (word_of_nat (length data) :: u64) < 2 ^ 31"
  by (simp add: item_ok_def unsigned_of_nat take_bit_nat_eq_self)

lemma data_header_length: "item_ok i data \<Longrightarrow> length (data_header i (word_of_nat (length data))) = 37"
  using size_field(2) [of "word_of_nat (length data) :: u64"] id_field_length [of i] size_ok [of i data]
  by (simp add: item_ok_def data_header_def ib_sizes)

lemma write_init:
  assumes "verbs_ok V" "recv_state s = HEADER_RECV" "sv_msg s \<noteq> MSG_DONE"
  shows "server_on_write V junk 2 (s\<lparr>sv_buffer := set_buffer init_header b\<rparr>) =
    Some (0, [Sv_post_recv, Sv_send MSG_READY_TO_RECV],
      s\<lparr>sv_buffer := set_buffer init_header b, sv_data_t := RDMA_INIT, sv_msg := MSG_READY_TO_RECV\<rparr>)"
proof -
  have "RDMA_INIT \<noteq> RDMA_DATA" "RDMA_INIT \<noteq> RDMA_MSG" "HEADER_RECV \<noteq> DATA_RECV"
    by (simp_all add: ib_chars HEADER_RECV_def DATA_RECV_def)
  then show ?thesis using assms proc_init_header [of junk b s] ready [OF assms(1)]
    by (simp add: server_on_write_def Let_def)
qed

lemma write_header:
  assumes "verbs_ok V" "recv_state s = HEADER_RECV" "sv_msg s \<noteq> MSG_DONE" "item_ok i data"
  shows "\<exists>s'. server_on_write V junk 37 (s\<lparr>sv_buffer := set_buffer (data_header i (word_of_nat (length data))) b\<rparr>) =
    Some (0, [Sv_post_recv, Sv_send MSG_READY_TO_RECV], s') \<and> filled i data 0 s' \<and> sv_msg s' \<noteq> MSG_DONE"
proof -
  note n = size_ok [OF assms(4)]
  have "HEADER_RECV \<noteq> DATA_RECV" by (simp add: HEADER_RECV_def DATA_RECV_def)
  then show ?thesis
    using assms n ready [OF assms(1)] proc_data_header [of i "word_of_nat (length data)" junk b s]
    by (simp add: server_on_write_def item_ok_def ib_sizes Let_def filled_def)
qed

lemma word_of_nat_small: "r < 2 ^ 31 \<Longrightarrow> unat (word_of_nat r :: u64) = r" "r < 2 ^ 31 \<Longrightarrow> unat (word_of_nat r :: u32) = r"
  by (simp_all add: unsigned_of_nat take_bit_nat_eq_self)

lemma write_at_end:
  assumes "take r buf = take r d" "length buf = length d" "r + c \<le> length d"
  shows "\<exists>buf'. write_at r (take c (drop r d)) buf = Some buf' \<and> length buf' = length d \<and> take (r + c) buf' = take (r + c) d"
  using assms by (simp add: write_at_def take_add min_absorb2)

lemma write_data:
  assumes "verbs_ok V" "filled i data r s" "r < length data" "length data < 2 ^ 31" "sv_msg s \<noteq> MSG_DONE"
    and c: "0 < c" "r + c \<le> length data"
  shows "\<exists>s'. server_on_write V junk (word_of_nat c) (s\<lparr>sv_buffer := set_buffer (take c (drop r data)) b\<rparr>) =
      Some (if r + c = length data
        then (1, [Data_recv_cb i (word_of_nat (length data)) data, Sv_send MSG_DONE], s')
        else (0, [Sv_post_recv, Sv_send MSG_READY_TO_RECV], s')) \<and>
    (r + c < length data \<longrightarrow> filled i data (r + c) s' \<and> sv_msg s' \<noteq> MSG_DONE)"
proof -
  obtain buf where buf: "data_to_recv s = Some buf" "length buf = length data" "take r buf = take r data"
    using assms(2) by (auto simp: filled_def)
  obtain buf' where buf': "write_at r (take c (drop r data)) buf = Some buf'" "length buf' = length data"
    "take (r + c) buf' = take (r + c) data"
    using write_at_end [OF buf(3,2) c(2)] by blast
  have w: "unat (word_of_nat r :: u64) = r" "unat (word_of_nat c :: u64) = c" "unat (word_of_nat (length data) :: u64) = length data"
      "unat (word_of_nat (r + c) :: u64) = r + c"
    using assms(3,4) c by (simp_all only: word_of_nat_small)
  have uc: "(ucast (word_of_nat c :: u32) :: u64) = word_of_nat c"
    by (subst word_unat_eq_iff) (use assms(3,4) c in \<open>simp add: unsigned_ucast_eq unsigned_of_nat take_bit_nat_eq_self\<close>)
  have sum: "word_of_nat r + word_of_nat c = (word_of_nat (r + c) :: u64)" by simp
  have nz: "(word_of_nat c :: u64) \<noteq> 0" using w(2) c(1) by (metis unat_0 less_not_refl)
  have le: "\<not> (word_of_nat (r + c) :: u64) > word_of_nat (length data)"
    using w(3,4) c(2) by (simp only: word_less_nat_alt)
  have eq: "(word_of_nat (r + c) :: u64) = word_of_nat (length data) \<longleftrightarrow> r + c = length data"
    using w(3,4) by metis
  have rd: "read_buffer (set_buffer (take c (drop r data)) b) 0 c = take c (drop r data)"
    using c(2) by (simp add: read_written)
  have dt: "RDMA_DATA \<noteq> RDMA_MSG" by (simp add: ib_chars)
  show ?thesis
    using assms(1,2,5) buf buf' c(2) dt nz le eq ready [OF assms(1)]
    by (auto simp: server_on_write_def Let_def uc filled_def w rd sum server_send_def verbs_ok_def simp del: of_nat_add)
qed

text \<open>The next pair and what the server makes of it when it arrives.\<close>

lemma chunk_nonempty: "ib_chunks n d = [] \<longleftrightarrow> n = 0"
  by (subst ib_chunks.simps) simp

definition sendable :: "int \<times> string \<Rightarrow> bool" where
  "sendable p \<longleftrightarrow> 0 < fst p \<and> fst p \<le> int BUFFER_SIZE \<and> length (snd p) = nat (fst p)"

lemma expects_shape:
  assumes "expects i data q s" "item_ok i data"
  obtains p q' where "q = p # q'" "sendable p"
proof -
  have "sendable (2, init_header)" "sendable (37, data_header i (word_of_nat (length data)))"
    using data_header_length [OF assms(2)] by (simp_all add: sendable_def BUFFER_SIZE_def init_header_def)
  moreover have "sendable (int (chunk_of (length data - r)), take (chunk_of (length data - r)) (drop r data))" if "r < length data" for r
    using that chunk_of_range [of "length data - r"] by (simp add: sendable_def)
  ultimately show thesis using assms(1) that by (auto simp: expects_def ib_chunks_step)
qed

lemma expects_write:
  assumes "expects i data (p # q) s" "item_ok i data" "verbs_ok V"
  shows "(\<exists>s'. server_on_write V junk (word_of_int (fst p)) (s\<lparr>sv_buffer := set_buffer (snd p) b\<rparr>) =
        Some (0, [Sv_post_recv, Sv_send MSG_READY_TO_RECV], s') \<and> expects i data q s') \<or>
    q = [EOF_PAIR] \<and> p = last_pair data \<and>
      (\<exists>s'. server_on_write V junk (word_of_int (fst p)) (s\<lparr>sv_buffer := set_buffer (snd p) b\<rparr>) =
        Some (1, [Data_recv_cb i (word_of_nat (length data)) data, Sv_send MSG_DONE], s'))"
proof -
  have d: "data \<noteq> []" "length data < 2 ^ 31" using assms(2) by (simp_all add: item_ok_def)
  have msg: "sv_msg s \<noteq> MSG_DONE" using assms(1) by (simp add: expects_def)
  consider (init) "recv_state s = HEADER_RECV" "p = (2, init_header)" "q = (37, data_header i (word_of_nat (length data))) # rest_from 0 data"
    | (header) "recv_state s = HEADER_RECV" "p = (37, data_header i (word_of_nat (length data)))" "q = rest_from 0 data"
    | (chunk) r where "r < length data" "p # q = rest_from r data" "suffix (ib_chunks (length data - r) (drop r data)) (ib_chunks (length data) data)" "filled i data r s"
    using assms(1) by (auto simp: expects_def)
  then show ?thesis
  proof cases
    case init
    then show ?thesis using write_init [OF assms(3) init(1) msg, of junk b] by (auto simp: expects_def)
  next
    case header
    have "expects i data q s'" if "filled i data 0 s'" "sv_msg s' \<noteq> MSG_DONE" for s'
      unfolding expects_def using that d header(3) by (intro conjI disjI2 exI [of _ 0]) auto
    then show ?thesis using write_header [OF assms(3) header(1) msg assms(2), of junk b] header(2) by auto
  next
    case chunk
    define c where "c = chunk_of (length data - r)"
    have c: "0 < c" "r + c \<le> length data" using chunk(1) chunk_of_range [of "length data - r"] by (auto simp: c_def)
    have pq: "p = (int c, take c (drop r data))" "q = rest_from (r + c) data"
      using chunk(1,2) by (simp_all add: ib_chunks_step c_def add.commute)
    have l: "suffix (p # ib_chunks (length data - (r + c)) (drop (r + c) data)) (ib_chunks (length data) data)"
      using chunk(1,3) pq(1) by (simp add: ib_chunks_step c_def add.commute)
    obtain s' where s': "server_on_write V junk (word_of_nat c) (s\<lparr>sv_buffer := set_buffer (take c (drop r data)) b\<rparr>) =
        Some (if r + c = length data then (1, [Data_recv_cb i (word_of_nat (length data)) data, Sv_send MSG_DONE], s')
          else (0, [Sv_post_recv, Sv_send MSG_READY_TO_RECV], s'))"
      "r + c < length data \<longrightarrow> filled i data (r + c) s' \<and> sv_msg s' \<noteq> MSG_DONE"
      using write_data [OF assms(3) chunk(4,1) d(2) msg c] by blast
    show ?thesis
    proof (cases "r + c = length data")
      case True
      moreover have "p = last_pair data" using l True by (auto simp: last_pair_def suffix_def)
      moreover have "server_on_write V junk (word_of_int (fst p)) (s\<lparr>sv_buffer := set_buffer (snd p) b\<rparr>) =
          Some (1, [Data_recv_cb i (word_of_nat (length data)) data, Sv_send MSG_DONE], s')"
        using s'(1) True pq(1) by simp
      moreover have "q = [EOF_PAIR]" using pq(2) True by simp
      ultimately show ?thesis by blast
    next
      case False
      then have lt: "r + c < length data" using c(2) by simp
      then have "expects i data q s'"
        unfolding expects_def using s'(2) lt pq(2) suffix_ConsD [OF l]
        by (intro conjI disjI2 exI [of _ "r + c"]) auto
      then show ?thesis using s'(1) pq(1) False by simp
    qed
  qed
qed

lemma send_next_write:
  assumes "sendable p" "\<not> looks_like_eof p" "verbs_ok V" "ib_id c"
  shows "send_next V p c = Some ([Rdma_write (peer_addr c) (peer_rkey c) (word_of_int (fst p)) (snd p)],
    c\<lparr>ib_buffer := set_buffer (snd p) (ib_buffer c)\<rparr>)"
proof -
  have n: "unat (word_of_int (fst p) :: u64) = nat (fst p)" "nat (fst p) \<le> BUFFER_SIZE"
    using assms(1) by (auto simp: sendable_def BUFFER_SIZE_def unsigned_of_int take_bit_int_eq_self nat_le_iff)
  have "(ucast (word_of_int k :: u64) :: u32) = word_of_int k" for k :: int by transfer (simp add: take_bit_take_bit)
  moreover have "read_buffer (set_buffer (snd p) b) 0 (nat (fst p)) = snd p" for b
    using assms(1) by (simp add: read_written sendable_def)
  ultimately show ?thesis using assms n
    by (auto simp: send_next_def ib_send_chunk_def write_remote_def looks_like_eof_def verbs_ok_def sendable_def)
qed

lemma send_next_eof: "looks_like_eof p \<Longrightarrow> send_next V p c = Some ([], c)"
  by (simp add: send_next_def looks_like_eof_def)

lemma expects_eof:
  assumes "expects i data (p # q) s" "looks_like_eof p" "item_ok i data"
  shows "p \<in> set (ib_chunks (length data) data)"
proof -
  obtain r where "r < length data" "p # q = rest_from r data"
    "suffix (ib_chunks (length data - r) (drop r data)) (ib_chunks (length data) data)"
    using assms(1,2) by (auto simp: expects_def looks_like_eof_def)
  moreover from this have "p \<in> set (ib_chunks (length data - r) (drop r data))" by (simp add: ib_chunks_step)
  ultimately show ?thesis using set_mono_suffix by blast
qed

subsection \<open>The states of a transfer\<close>

definition asleep_open :: "tid \<Rightarrow> ib_conn \<Rightarrow> bool" where
  "asleep_open t S \<longleftrightarrow> ib_id (cn_client S) \<and> sleeper WAIT_SEND_DATA t (ib_syncer (cn_client S)) \<and> cn_cl_polls S \<and>
     \<not> cn_disc S \<and> cn_woken S = []"

text \<open>Some of the item is still to be sent: a thread is about to send the next pair, the write is under way, or the answer
  is.\<close>

definition under_way :: "string \<Rightarrow> string \<Rightarrow> tid \<Rightarrow> ib_conn \<Rightarrow> bool" where
  "under_way i data t S \<longleftrightarrow> asleep_open t S \<and> cn_delivered S = [] \<and> cn_sv_polls S \<and> cn_posted S = 1 \<and>
     (let q = rev (size_data_bq (cn_client S)) in
        cn_senders S = 1 \<and> cn_writes S = [] \<and> cn_msgs S = [] \<and> expects i data q (cn_server S) \<or>
        cn_senders S = 0 \<and> cn_msgs S = [] \<and>
          (\<exists>p. cn_writes S = [(word_of_int (fst p), snd p)] \<and> \<not> looks_like_eof p \<and> expects i data (p # q) (cn_server S)) \<or>
        cn_senders S = 0 \<and> cn_writes S = [] \<and> cn_msgs S = [MSG_READY_TO_RECV] \<and> expects i data q (cn_server S))"

text \<open>A chunk was taken for the end indicator.\<close>

definition cut_off :: "string \<Rightarrow> tid \<Rightarrow> ib_conn \<Rightarrow> bool" where
  "cut_off data t S \<longleftrightarrow> asleep_open t S \<and> cn_delivered S = [] \<and> cn_senders S = 0 \<and> cn_writes S = [] \<and> cn_msgs S = [] \<and>
     (\<exists>p \<in> set (ib_chunks (length data) data). looks_like_eof p)"

definition arrived :: "string \<Rightarrow> string \<Rightarrow> tid \<Rightarrow> ib_conn \<Rightarrow> bool" where
  "arrived i data t S \<longleftrightarrow> cn_delivered S = [(i, word_of_nat (length data), data)] \<and> \<not> looks_like_eof (last_pair data) \<and>
     \<not> cn_sv_polls S \<and> cn_senders S = 0 \<and> cn_writes S = [] \<and>
     (asleep_open t S \<and> cn_msgs S = [MSG_DONE] \<or>
      cn_msgs S = [] \<and> cn_disc S \<and> cn_woken S = [] \<and> sleeper WAIT_SEND_DATA t (ib_syncer (cn_client S)) \<or>
      cn_msgs S = [] \<and> \<not> cn_disc S \<and> cn_woken S = [t] \<and> roused WAIT_SEND_DATA (ib_syncer (cn_client S)))"

definition transfer_inv :: "string \<Rightarrow> string \<Rightarrow> tid \<Rightarrow> ib_conn \<Rightarrow> bool" where
  "transfer_inv i data t S \<longleftrightarrow> under_way i data t S \<or> cut_off data t S \<or> arrived i data t S"

lemma popped: "bq_pop b = Some (p, q) \<longleftrightarrow> rev b = p # rev q"
  by (cases b rule: rev_cases) (auto simp: bq_pop_def)

lemma client_loop_over_wakes:
  assumes "sleeper WAIT_SEND_DATA t (ib_syncer c)" "pick [t] = t"
  obtains y where "client_loop_over pick c = Some ([Wakes t], c\<lparr>ib_syncer := y\<rparr>)" "roused WAIT_SEND_DATA y"
proof -
  obtain y where "notify pick WAIT_SEND_DATA (ib_syncer c) = Some (0, Some t, y)" "roused WAIT_SEND_DATA y"
    by (rule sleeper_notified [where pick = pick, OF assms])
  then show thesis by (intro that [of y]) (simp_all add: client_loop_over_def wakes_ib_def)
qed

lemma under_way_step:
  assumes "verbs_ok V" "item_ok i data" "ib_step V pick junk (Some 0) S S'" "under_way i data t S"
  shows "transfer_inv i data t S'"
  using assms(3)
proof cases
  case (Sends p b es c)
  then have q: "rev (size_data_bq (cn_client S)) = p # rev b" and e: "expects i data (p # rev b) (cn_server S)"
    and S: "asleep_open t S" "cn_delivered S = []" "cn_sv_polls S" "cn_posted S = 1" "cn_senders S = 1" "cn_writes S = []" "cn_msgs S = []"
    using assms(4) by (auto simp: popped under_way_def Let_def)
  show ?thesis
  proof (cases "looks_like_eof p")
    case True
    then have "p \<in> set (ib_chunks (length data) data)" by (rule expects_eof [OF e _ assms(2)])
    moreover have "es = []" "c = (cn_client S)\<lparr>size_data_bq := b\<rparr>" using Sends(4) by (simp_all add: send_next_eof [OF True])
    ultimately have "cut_off data t S'" using True Sends(1) S unfolding cut_off_def asleep_open_def by simp blast
    then show ?thesis by (simp add: transfer_inv_def)
  next
    case False
    have p: "sendable p" using expects_shape [OF e assms(2)] by blast
    define c0 where "c0 = (cn_client S)\<lparr>size_data_bq := b\<rparr>"
    have "ib_id c0" using S(1) by (simp add: c0_def asleep_open_def)
    then have "es = [Rdma_write (peer_addr c0) (peer_rkey c0) (word_of_int (fst p)) (snd p)]" "c = c0\<lparr>ib_buffer := set_buffer (snd p) (ib_buffer c0)\<rparr>"
      using Sends(4) send_next_write [OF p False assms(1)] by (simp_all add: c0_def [symmetric])
    then have S': "S' = S\<lparr>cn_client := c, cn_senders := 0, cn_writes := [(word_of_int (fst p), snd p)]\<rparr>"
        "rev (size_data_bq c) = rev b" "asleep_open t S'"
      using Sends(1) S by (simp_all add: c0_def asleep_open_def)
    then have "\<exists>p. cn_writes S' = [(word_of_int (fst p), snd p)] \<and> \<not> looks_like_eof p \<and>
        expects i data (p # rev (size_data_bq (cn_client S'))) (cn_server S')"
      using e False by (intro exI [of _ p]) simp
    then have "under_way i data t S'" using S'(1,3) S unfolding under_way_def Let_def by simp
    then show ?thesis by (simp add: transfer_inv_def)
  qed
next
  case (Written imm w ws r es v)
  let ?q = "rev (size_data_bq (cn_client S))"
  obtain p where p: "imm = word_of_int (fst p)" "w = snd p" "ws = []" "\<not> looks_like_eof p" "expects i data (p # ?q) (cn_server S)"
    and S: "asleep_open t S" "cn_delivered S = []" "cn_sv_polls S" "cn_posted S = 1" "cn_senders S = 0" "cn_msgs S = []"
    using assms(4) Written(4) by (auto simp: under_way_def Let_def)
  from expects_write [OF p(5) assms(2,1), of junk "sv_buffer (cn_server S)"]
  show ?thesis
  proof (elim disjE conjE exE)
    fix s' assume "server_on_write V junk (word_of_int (fst p)) ((cn_server S)\<lparr>sv_buffer := set_buffer (snd p) (sv_buffer (cn_server S))\<rparr>) =
        Some (0, [Sv_post_recv, Sv_send MSG_READY_TO_RECV], s')" "expects i data ?q s'"
    then have "es = [Sv_post_recv, Sv_send MSG_READY_TO_RECV]" "r = 0" "v = s'" "expects i data ?q s'"
      using Written(5) p(1,2) by simp_all
    then have "under_way i data t S'" using Written(1) S p(3) by (simp add: under_way_def asleep_open_def Let_def poll_goes_on_def)
    then show ?thesis by (simp add: transfer_inv_def)
  next
    fix s' assume "server_on_write V junk (word_of_int (fst p)) ((cn_server S)\<lparr>sv_buffer := set_buffer (snd p) (sv_buffer (cn_server S))\<rparr>) =
        Some (1, [Data_recv_cb i (word_of_nat (length data)) data, Sv_send MSG_DONE], s')" "p = last_pair data"
    then have "es = [Data_recv_cb i (word_of_nat (length data)) data, Sv_send MSG_DONE]" "r = 1" "v = s'" "\<not> looks_like_eof (last_pair data)"
      using Written(5) p(1,2,4) by simp_all
    then have "arrived i data t S'" using Written(1) S p(3) by (simp add: arrived_def asleep_open_def poll_goes_on_def)
    then show ?thesis by (simp add: transfer_inv_def)
  qed
next
  case (Sent r)
  then have "under_way i data t S'" using assms(4)
    by (simp add: under_way_def asleep_open_def Let_def poll_goes_on_def server_on_other_def)
  then show ?thesis by (simp add: transfer_inv_def)
next
  case (Received m ms r es c)
  then have m: "m = MSG_READY_TO_RECV" "ms = []"
    and S: "asleep_open t S" "cn_delivered S = []" "cn_sv_polls S" "cn_posted S = 1" "cn_senders S = 0" "cn_writes S = []"
      "expects i data (rev (size_data_bq (cn_client S))) (cn_server S)"
    using assms(4) by (auto simp: under_way_def Let_def)
  have "r = 0" "es = [Start_send_next]" "c = cn_client S" using Received(4) assms(1) by (auto simp: m client_on_recv_def verbs_ok_def)
  then have "under_way i data t S'" using Received(1) S
    by (simp add: m under_way_def asleep_open_def Let_def poll_goes_on_def)
  then show ?thesis by (simp add: transfer_inv_def)
next
  case Disconnected
  then show ?thesis using assms(4) by (simp add: under_way_def asleep_open_def)
qed

lemma cut_off_step: "ib_step V pick junk (Some 0) S S' \<Longrightarrow> cut_off data t S \<Longrightarrow> cut_off data t S'"
  by (erule ib_step.cases) (auto simp: cut_off_def asleep_open_def)

lemma arrived_step:
  assumes "ib_step V pick junk (Some 0) S S'" "arrived i data t S" "pick [t] = t"
  shows "arrived i data t S'"
  using assms(1)
proof cases
  case (Received m ms r es c)
  then have m: "m = MSG_DONE" "ms = []" "asleep_open t S" using assms(2) by (auto simp: arrived_def)
  then have "es = [Disconnect]" "r = 1" "c = cn_client S" using Received(4) by (simp_all add: client_on_recv_def)
  then show ?thesis using Received(1) assms(2) m by (simp add: arrived_def asleep_open_def poll_goes_on_def)
next
  case (Disconnected as es c)
  then have sl: "sleeper WAIT_SEND_DATA t (ib_syncer (cn_client S))" and a: "cn_msgs S = []" "cn_woken S = []"
    using assms(2) by (auto simp: arrived_def asleep_open_def)
  obtain y where "client_loop_over pick (cn_client S) = Some ([Wakes t], (cn_client S)\<lparr>ib_syncer := y\<rparr>)" "roused WAIT_SEND_DATA y"
    by (rule client_loop_over_wakes [where pick = pick, OF sl assms(3)])
  then show ?thesis using Disconnected assms(2) a by (auto simp: arrived_def)
qed (use assms(2) in \<open>simp_all add: arrived_def\<close>)

lemma transfer_inv_step:
  assumes "verbs_ok V" "item_ok i data" "pick [t] = t" "ib_step V pick junk (Some 0) S S'" "transfer_inv i data t S"
  shows "transfer_inv i data t S'"
  using assms(5) under_way_step [OF assms(1,2,4)] cut_off_step [OF assms(4)] arrived_step [OF assms(4) _ assms(3)]
  by (auto simp: transfer_inv_def)


text \<open>Every step uses something up.\<close>

definition work :: "ib_conn \<Rightarrow> nat" where
  "work S = 5 * length (size_data_bq (cn_client S)) + 4 * length (cn_writes S) + 2 * length (cn_msgs S) + cn_senders S +
     cn_sent S + (if cn_disc S then 1 else 0)"

fun posts :: "sv_effect list \<Rightarrow> nat" where
  "posts [] = 0"
| "posts (Sv_send m # es) = Suc (posts es)"
| "posts (e # es) = posts es"

lemma posts_append [simp]: "posts (es @ fs) = posts es + posts fs"
  by (induction es rule: posts.induct) simp_all

lemma work_server: "work (after server_effect es S) = work S + 3 * posts es"
  by (induction es arbitrary: S rule: posts.induct) (simp_all add: work_def)

lemma server_send_posts: "server_send V m s = (r, es, s') \<Longrightarrow> posts es \<le> 1"
  by (auto simp: server_send_def split: if_splits)

lemma server_ready_posts: "server_ready V es s = Some (r, fs, s') \<Longrightarrow> posts fs \<le> posts es + 1"
  using server_send_posts [of V MSG_READY_TO_RECV s]
  by (fastforce simp: server_ready_def Let_def split: if_splits prod.splits)

lemma server_on_write_posts:
  assumes "server_on_write V junk imm s = Some (r, es, s')"
  shows "posts es \<le> 1"
proof -
  have "posts es \<le> 1" if "server_ready V [] x = Some (r, es, s')" for x
    using server_ready_posts [OF that] by simp
  moreover have "posts es \<le> 1" if "server_ready V [Msg_recv_cb a b] x = Some (r, es, s')" for a b x
    using server_ready_posts [OF that] by simp
  moreover have "posts es \<le> 1" if "server_send V MSG_DONE x = (r, es, s')" for x
    using server_send_posts [OF that] by simp
  moreover have "posts fs \<le> 1" if "server_send V MSG_DONE x = (e, fs, s')" for x e fs
    using server_send_posts [OF that] by simp
  ultimately show ?thesis using assms
    by (auto simp: server_on_write_def Let_def bind_eq_Some_conv split: if_splits prod.splits)
qed

lemma work_client:
  "work (client_effect Start_send_next S) = work S + 1" "work (client_effect (Wakes t) S) = work S"
  "work (client_effect Disconnect S) \<le> work S + 1"
  by (simp_all add: work_def)

lemma client_on_recv_works:
  assumes "client_on_recv V pick m c = Some (r, es, c')"
  shows "size_data_bq c' = size_data_bq c" "work (after client_effect es S) \<le> work S + 1"
proof -
  show "size_data_bq c' = size_data_bq c"
    using assms by (auto simp: client_on_recv_def bind_eq_Some_conv split: message.splits)
  show "work (after client_effect es S) \<le> work S + 1"
    using assms work_client [where S = S]
    by (cases m) (auto simp: client_on_recv_def bind_eq_Some_conv wakes_ib_def simp del: client_effect.simps split: option.splits)
qed

lemma send_next_works:
  assumes "send_next V p c = Some (es, c')"
  shows "size_data_bq c' = size_data_bq c" "work (after client_effect es S) \<le> work S + 4"
  using assms by (auto simp: send_next_def ib_send_chunk_def write_remote_def bind_eq_Some_conv work_def Let_def split: if_splits)

lemma step_works:
  assumes "ib_step V pick junk fall S S'"
  shows "work S' < work S"
  using assms
proof cases
  case (Sends p q es c)
  have "length (size_data_bq (cn_client S)) = Suc (length q)"
    using Sends(3) by (auto simp: bq_pop_def split: if_splits)
  then have "work (S\<lparr>cn_client := c, cn_senders := cn_senders S - 1\<rparr>) + 6 = work S"
    using Sends(2) send_next_works(1) [OF Sends(4)] by (simp add: work_def)
  then show ?thesis using send_next_works(2) [OF Sends(4), of "S\<lparr>cn_client := c, cn_senders := cn_senders S - 1\<rparr>"] Sends(1) by simp
next
  case (Written imm w ws r es v)
  then show ?thesis using server_on_write_posts [OF Written(5)] by (simp add: work_server) (simp add: work_def)
next
  case (Sent r)
  then show ?thesis by (simp add: work_def)
next
  case (Received m ms r es c)
  let ?S = "S\<lparr>cn_client := c, cn_msgs := ms, cn_cl_polls := poll_goes_on True r\<rparr>"
  have "work ?S + 2 = work S" using Received(3) client_on_recv_works(1) [OF Received(4)] by (simp add: work_def)
  then show ?thesis using client_on_recv_works(2) [OF Received(4), of ?S] Received(1) by simp
next
  case (Disconnected as es c)
  then have "size_data_bq c = size_data_bq (cn_client S)" "work (after client_effect es T) = work T" for T
    using work_client(2) [of _ T]
    by (auto simp: client_loop_over_def bind_eq_Some_conv wakes_ib_def simp del: client_effect.simps split: option.splits)
  then show ?thesis using Disconnected(1,2) by (simp add: work_def)
qed

lemma ib_run_bounded: "(ib_step V pick junk fall ^^ k) S S' \<Longrightarrow> k + work S' \<le> work S"
proof (induction k arbitrary: S')
  case (Suc k)
  then obtain T where "(ib_step V pick junk fall ^^ k) S T" "ib_step V pick junk fall T S'" by auto
  then show ?case using Suc.IH [of T] step_works [of V pick junk fall T S'] by simp
qed simp


text \<open>A transfer under way can go on, and one that has arrived goes on until the sender is awake.\<close>

lemma under_way_goes_on:
  assumes "verbs_ok V" "item_ok i data" "under_way i data t S"
  shows "\<exists>S'. ib_step V pick junk fall S S'"
proof -
  let ?q = "rev (size_data_bq (cn_client S))"
  have S: "ib_id (cn_client S)" "cn_sv_polls S" "cn_posted S = 1" "cn_cl_polls S"
    using assms(3) by (auto simp: under_way_def asleep_open_def)
  consider (send) "cn_senders S = 1" "expects i data ?q (cn_server S)"
    | (wrote) p where "cn_writes S = [(word_of_int (fst p), snd p)]" "expects i data (p # ?q) (cn_server S)"
    | (answer) "cn_msgs S = [MSG_READY_TO_RECV]"
    using assms(3) by (auto simp: under_way_def Let_def)
  then show ?thesis
  proof cases
    case send
    obtain p q where q: "?q = p # q" "sendable p" by (rule expects_shape [OF send(2) assms(2)])
    then have pop: "bq_pop (size_data_bq (cn_client S)) = Some (p, rev q)" by (simp add: popped)
    obtain es c where "send_next V p ((cn_client S)\<lparr>size_data_bq := rev q\<rparr>) = Some (es, c)"
      using send_next_eof [of p V] send_next_write [OF q(2) _ assms(1)] S(1) by (cases "looks_like_eof p") auto
    then show ?thesis using ib_step.Sends [OF _ pop] send(1) by fastforce
  next
    case wrote
    obtain r es v where "server_on_write V junk (word_of_int (fst p))
        ((cn_server S)\<lparr>sv_buffer := set_buffer (snd p) (sv_buffer (cn_server S))\<rparr>) = Some (r, es, v)"
      using expects_write [OF wrote(2) assms(2,1), of junk "sv_buffer (cn_server S)"] by blast
    then show ?thesis using ib_step.Written [OF S(2) _ wrote(1)] S(3) by fastforce
  next
    case answer
    then show ?thesis using ib_step.Received [OF S(4) answer] by (fastforce simp: client_on_recv_def)
  qed
qed

lemma arrived_goes_on:
  assumes "arrived i data t S" "pick [t] = t" "cn_woken S \<noteq> [t]"
  shows "\<exists>S'. ib_step V pick junk fall S S'"
proof -
  have "cn_msgs S = [MSG_DONE] \<and> cn_cl_polls S \<or> cn_disc S \<and> sleeper WAIT_SEND_DATA t (ib_syncer (cn_client S))"
    using assms(1,3) by (auto simp: arrived_def asleep_open_def)
  then show ?thesis
  proof (elim disjE conjE)
    assume "cn_msgs S = [MSG_DONE]" "cn_cl_polls S"
    then show ?thesis using ib_step.Received [of S MSG_DONE "[]"] by (fastforce simp: client_on_recv_def)
  next
    assume d: "cn_disc S" and sl: "sleeper WAIT_SEND_DATA t (ib_syncer (cn_client S))"
    obtain y where "client_loop_over pick (cn_client S) = Some ([Wakes t], (cn_client S)\<lparr>ib_syncer := y\<rparr>)"
      by (rule client_loop_over_wakes [where pick = pick, OF sl assms(2)])
    then show ?thesis using ib_step.Disconnected [OF d, of "[Destroy_qp, On_disconn, Destroy_id]"] by (fastforce simp: conn_event_def)
  qed
qed

text \<open>The start: everything is in the queue and the sender sleeps.\<close>

lemma push_all: "size_data_bq (foldl (\<lambda>c p. push_pair p c) c ps) = rev ps @ size_data_bq c"
    "ib_syncer (foldl (\<lambda>c p. push_pair p c) c ps) = ib_syncer c" "ib_id (foldl (\<lambda>c p. push_pair p c) c ps) = ib_id c"
  by (induction ps arbitrary: c) (simp_all add: push_pair_def bq_push_def)

definition one_point :: "char \<Rightarrow> tid list \<Rightarrow> char syncer" where
  "one_point p ts = \<lparr>point_cv_map = [(p, Some ts)], point_m_map = [(p, True)], point__num_peers_map = [(p, 1)]\<rparr>"

lemma one_point_life:
  "sync_wait p t (snd (add_sync_point p 1 syncer_new)) = Some (one_point p [t])"
  "pick [t] = t \<Longrightarrow> notify pick p (one_point p [t]) = Some (0, Some t, one_point p [])"
  "del_sync_point p (one_point p []) = Some (0, syncer_new)"
  by (simp_all add: one_point_def sync_wait_def add_sync_point_def notify_def del_sync_point_def syncer_new_def tsmap_contains_def
      smap_contains_def smap_get_def tsmap_at_def tsmap_del_def smap_touch_def smap_erase_def)

lemma one_point_sleeper: "sleeper p t (one_point p [t])"
  by (simp add: sleeper_def one_point_def smap_contains_def)

lemma begun:
  assumes "verbs_ok V" "item_ok i data" "pick [t] = t"
  obtains S where "ib_begin V pick junk t addr rkey i (word_of_nat (length data)) data (ib_client_new a k jb) (ib_server_new dt n1 n2 si sb sm) =
      Some (0, S)" "under_way i data t S" "work S = 5 * length (ib_chunks (length data) data) + 17"
proof -
  let ?n = "word_of_nat (length data) :: u64"
  have n: "unat ?n = length data" "0 < ?n" "uint ?n < 2 ^ 31" "i \<noteq> []" "length i \<le> 20"
    using size_ok [OF assms(2)] assms(2) by (auto simp: item_ok_def ib_sizes word_less_nat_alt)
  note v = assms(1) [unfolded verbs_ok_def]
  define c1 where "c1 = (ib_client_new a k jb)\<lparr>ib_syncer := syncer_new, peer_addr := addr, peer_rkey := rkey, ib_id := True,
    size_data_bq := [(2, init_header)]\<rparr>"
  have init: "ib_client_start t (ib_client_new a k jb) = Some ((ib_client_new a k jb)\<lparr>ib_syncer := one_point WAIT_INIT [t]\<rparr>)"
    by (simp add: ib_client_start_def ib_client_new_def one_point_life)
  have mr: "client_on_recv V pick (MSG_MR addr rkey) ((ib_client_new a k jb)\<lparr>ib_syncer := one_point WAIT_INIT [t]\<rparr>) =
      Some (0, [Wakes t], (ib_client_new a k jb)\<lparr>ib_syncer := one_point WAIT_INIT [], peer_addr := addr, peer_rkey := rkey, ib_id := True\<rparr>)"
    using v by (simp add: client_on_recv_def one_point_life(2) [where pick = pick, OF assms(3)] wakes_ib_def)
  have st: "ib_client_started junk ((ib_client_new a k jb)\<lparr>ib_syncer := one_point WAIT_INIT [], peer_addr := addr, peer_rkey := rkey, ib_id := True\<rparr>) =
      Some ([Start_send_next], c1)"
    by (simp add: ib_client_started_def one_point_life(3) send_init_def send_header_def make_init_header push_pair_def bq_push_def c1_def
        ib_client_new_def)
  define c2 where "c2 = (foldl (\<lambda>c p. push_pair p c) (push_pair (37, data_header i ?n) c1) (ib_chunks (length data) data @ [EOF_PAIR]))
    \<lparr>ib_syncer := one_point WAIT_SEND_DATA [t]\<rparr>"
  have sy: "ib_syncer (push_pair p c) = ib_syncer c" "ib_id (push_pair p c) = ib_id c"
      "size_data_bq (push_pair p c) = p # size_data_bq c" for p c
    by (simp_all add: push_pair_def bq_push_def)
  have sd: "send_data junk t i ?n data c1 = Some (0, True, c2)"
    using n make_data_header [OF n(4,5,2,3), of junk]
    by (simp add: send_data_def send_header_def c2_def sy push_all c1_def one_point_life)
  define S where "S = \<lparr>cn_client = c2, cn_server = (ib_server_new dt n1 n2 si sb sm)\<lparr>sv_msg := MSG_MR addr rkey\<rparr>, cn_senders = 1,
    cn_writes = [], cn_msgs = [], cn_sent = 1, cn_posted = 1, cn_sv_polls = True, cn_cl_polls = True, cn_disc = False,
    cn_woken = [], cn_delivered = []\<rparr>"
  have q: "rev (size_data_bq c2) = (2, init_header) # (37, data_header i ?n) # rest_from 0 data" "ib_id c2"
    by (simp_all add: c2_def push_all sy c1_def)
  have "ib_begin V pick junk t addr rkey i ?n data (ib_client_new a k jb) (ib_server_new dt n1 n2 si sb sm) = Some (0, S)"
    using v by (simp add: ib_begin_def init mr st sd server_on_conn_def server_send_def S_def)
  moreover have "asleep_open t S" using q(2) by (simp add: asleep_open_def S_def c2_def one_point_sleeper)
  then have "under_way i data t S" using q by (simp add: under_way_def S_def expects_def ib_server_new_def)
  moreover have "length (size_data_bq c2) = length (ib_chunks (length data) data) + 3"
    using arg_cong [OF q(1), of length] by simp
  then have "work S = 5 * length (ib_chunks (length data) data) + 17" by (simp add: work_def S_def)
  ultimately show thesis by (rule that)
qed

subsection \<open>Properties\<close>

lemma run_inv:
  assumes "(ib_step V pick junk (Some 0))\<^sup>*\<^sup>* S0 S" "verbs_ok V" "item_ok i data" "pick [t] = t" "under_way i data t S0"
  shows "transfer_inv i data t S"
  using assms(1)
proof induction
  case base
  then show ?case using assms(5) by (simp add: transfer_inv_def)
next
  case (step S S')
  then show ?case using transfer_inv_step [where pick = pick, OF assms(2-4)] by blast
qed


text \<open>C34: an item whose last chunk is four bytes, the letters \<open>EOF\<close> and a NUL, is taken for the end indicator by the
  sending thread: in no run is anything handed over or the sender woken, though every run ends.\<close>

theorem eof_item_lost:
  assumes "verbs_ok V" "item_ok i data" "pick [t] = t" "looks_like_eof (last_pair data)"
  shows "\<exists>S0. ib_begin V pick junk t addr rkey i (word_of_nat (length data)) data (ib_client_new a k jb) (ib_server_new dt n1 n2 si sb sm) =
      Some (0, S0) \<and>
    (\<forall>m S. (ib_step V pick junk (Some 0) ^^ m) S0 S \<longrightarrow> m \<le> 5 * length (ib_chunks (length data) data) + 17 \<and>
      cn_delivered S = [] \<and> cn_woken S = [])"
proof -
  obtain S0 where S0: "ib_begin V pick junk t addr rkey i (word_of_nat (length data)) data (ib_client_new a k jb) (ib_server_new dt n1 n2 si sb sm) =
      Some (0, S0)" "under_way i data t S0" "work S0 = 5 * length (ib_chunks (length data) data) + 17"
    by (rule begun [where pick = pick, OF assms(1-3)])
  have "m \<le> 5 * length (ib_chunks (length data) data) + 17 \<and> cn_delivered S = [] \<and> cn_woken S = []"
    if run: "(ib_step V pick junk (Some 0) ^^ m) S0 S" for m S
  proof -
    have "transfer_inv i data t S"
      by (rule run_inv [where pick = pick, OF relpowp_imp_rtranclp [OF run] assms(1-3) S0(2)])
    then show ?thesis using assms(4) ib_run_bounded [OF run] S0(3)
      by (auto simp: transfer_inv_def under_way_def cut_off_def arrived_def asleep_open_def)
  qed
  then show ?thesis using S0(1) by blast
qed

definition demo_verbs :: verbs where
  "demo_verbs = \<lparr>post_send_err = 0, post_recv_err = 0\<rparr>"

lemma demo_item:
  "verbs_ok demo_verbs" "item_ok ''d_1'' ''abcd''" "item_ok ''d_1'' (''EOF'' @ [CHR 0x00])"
  "ib_chunks 4 d = [(4, take 4 d)]"
  by (simp_all add: verbs_ok_def demo_verbs_def item_ok_def ib_sizes HEADER_DELIMITER_def ib_chunks_step chunk_of_def BUFFER_SIZE_def)

lemma demo_chunks: "ib_chunks (Suc (Suc (Suc (Suc 0)))) d = [(4, take 4 d)]"
  using demo_item(4) [of d] by (simp add: numeral_eq_Suc)


theorem eof_item_lost_witness:
  "\<exists>S0. ib_begin demo_verbs hd (\<lambda>_. CHR ''?'') 5 7 9 ''d_1'' 4 (''EOF'' @ [CHR 0x00]) (ib_client_new 0 0 (\<lambda>_. CHR ''?''))
      (ib_server_new CHR ''?'' 0 0 [] (\<lambda>_. CHR ''?'') MSG_INVALID) = Some (0, S0) \<and>
    (\<forall>m S. (ib_step demo_verbs hd (\<lambda>_. CHR ''?'') (Some 0) ^^ m) S0 S \<longrightarrow> m \<le> 22 \<and> cn_delivered S = [] \<and> cn_woken S = [])"
proof -
  have "looks_like_eof (last_pair (''EOF'' @ [CHR 0x00]))"
    by (simp add: last_pair_def demo_chunks looks_like_eof_def c_str_def)
  from eof_item_lost [where pick = hd and t = 5, OF demo_item(1,3) _ this, of "\<lambda>_. CHR ''?''" 7 9 0 0 "\<lambda>_. CHR ''?''" "CHR ''?''" 0 0 "[]"
      "\<lambda>_. CHR ''?''" MSG_INVALID]
  show ?thesis by (simp add: demo_chunks)
qed

end
