(* ===== verification/Xor.thy ===== *)
theory Xor
  imports Base "HOL-Library.Multiset"
begin

unbundle bit_operations_syntax

text \<open>
  \<open>XORER\<close> (\<open>resilience/xor.cpp\<close>): the parity of data chunks, in one thread and divided among several. Memory is a
  list of bytes; reading or writing behind it is undefined (\<open>None\<close>). The threads of \<open>parallel_xor\<close> write disjoint
  parts of the result, so their steps can be taken one thread after the other, in any order.
\<close>

type_synonym bytes = "8 word list"

subsection \<open>Two chunks\<close>

text \<open>\<open>_xor\<close> of two chunks: the shorter one is replaced by a copy padded with zeros. The two chunks and the result.\<close>

definition padded :: "nat \<Rightarrow> nat \<Rightarrow> bytes \<Rightarrow> bytes option" where
  "padded sz own b = (if length b < own then None else if own < sz then Some (take own b @ replicate (sz - own) 0) else Some b)"

definition xor_two :: "nat \<Rightarrow> bytes \<Rightarrow> nat \<Rightarrow> bytes \<Rightarrow> bytes \<Rightarrow> (rc \<times> bytes \<times> bytes \<times> bytes) option" where
  "xor_two size_1 b1 size_2 b2 r = do {
     let sz = max size_1 size_2;
     b1 \<leftarrow> padded sz size_1 b1;
     b2 \<leftarrow> padded sz size_2 b2;
     if length r < sz then None
     else Some (0, b1, b2, map2 (XOR) (take sz b1) (take sz b2) @ drop sz r) }"

lemma xor_two_bytes:
  assumes "length b1 = n1" "length b2 = n2" "max n1 n2 \<le> length r"
  shows "\<exists>c1 c2 r'. xor_two n1 b1 n2 b2 r = Some (0, c1, c2, r') \<and> length r' = length r \<and>
    (\<forall>i < max n1 n2. r' ! i = (if i < n1 then b1 ! i else 0) XOR (if i < n2 then b2 ! i else 0))"
  using assms by (cases n1 n2 rule: linorder_cases) (auto simp: xor_two_def padded_def Let_def nth_append max_def)

subsection \<open>Many chunks\<close>

text \<open>One turn of the loop over the words.\<close>

definition xor_word :: "nat \<Rightarrow> bytes \<Rightarrow> bytes \<Rightarrow> bytes option" where
  "xor_word word_size w r = (if length w < word_size then None else Some (map2 (XOR) (take word_size r) (take word_size w) @ drop word_size r))"

fun xor_loop :: "nat \<Rightarrow> bytes list \<Rightarrow> bytes \<Rightarrow> bytes option" where
  "xor_loop word_size [] r = Some r"
| "xor_loop word_size (w # ws) r = do { r \<leftarrow> xor_word word_size w r; xor_loop word_size ws r }"

definition xor_words :: "nat \<Rightarrow> bytes list \<Rightarrow> bytes \<Rightarrow> bytes option" where
  "xor_words word_size ws r =
     (if length r < word_size then None else xor_loop word_size ws (replicate word_size 0 @ drop word_size r))"

text \<open>\<open>parallel_xor\<close>: where the part of thread \<open>i\<close> begins, how long it is, and what the thread does.\<close>

definition part_size :: "nat \<Rightarrow> nat \<Rightarrow> nat \<Rightarrow> nat" where
  "part_size num_thread chunk_size i =
     (if i < num_thread - 1 then chunk_size div num_thread
      else chunk_size div num_thread + (chunk_size - num_thread * (chunk_size div num_thread)))"

definition part_start :: "nat \<Rightarrow> nat \<Rightarrow> nat \<Rightarrow> nat" where
  "part_start num_thread chunk_size i = i * (chunk_size div num_thread)"

definition part_xor :: "nat \<Rightarrow> nat \<Rightarrow> bytes list \<Rightarrow> nat \<Rightarrow> bytes \<Rightarrow> bytes option" where
  "part_xor num_thread chunk_size chunks i r =
     (let off = part_start num_thread chunk_size i
      in if length r < off \<or> list_ex (\<lambda>c. length c < off) chunks then None
         else map_option (\<lambda>p. take off r @ p)
           (xor_words (part_size num_thread chunk_size i) (map (drop off) chunks) (drop off r)))"

text \<open>\<open>sched\<close>: the order in which the threads run.\<close>

definition parallel_xor :: "nat list \<Rightarrow> nat \<Rightarrow> nat \<Rightarrow> bytes list \<Rightarrow> bytes \<Rightarrow> (rc \<times> bytes) option" where
  "parallel_xor sched num_thread chunk_size chunks r =
     map_option (Pair 0) (foldl (\<lambda>r i. Option.bind r (part_xor num_thread chunk_size chunks i)) (Some r) sched)"

subsection \<open>The parity\<close>

definition parity :: "bytes list \<Rightarrow> nat \<Rightarrow> 8 word" where
  "parity ws i = foldr (\<lambda>w p. w ! i XOR p) ws 0"

lemma xor_loop_nth:
  assumes "n \<le> length r" "list_all (\<lambda>w. n \<le> length w) ws"
  shows "\<exists>r'. xor_loop n ws r = Some r' \<and> length r' = length r \<and>
    (\<forall>i < length r. r' ! i = (if i < n then r ! i XOR parity ws i else r ! i))"
  using assms
proof (induction ws arbitrary: r)
  case Nil
  then show ?case by (simp add: parity_def)
next
  case (Cons w ws)
  let ?r = "map2 (XOR) (take n r) (take n w) @ drop n r"
  have len: "length ?r = length r" using Cons.prems by simp
  have nth: "?r ! i = (if i < n then r ! i XOR w ! i else r ! i)" if "i < length r" for i
    using Cons.prems that by (simp add: nth_append)
  obtain r' where "xor_loop n ws ?r = Some r'" "length r' = length r"
    "\<forall>i < length r. r' ! i = (if i < n then ?r ! i XOR parity ws i else ?r ! i)"
    using Cons.IH [of ?r] Cons.prems len by auto
  then show ?case using Cons.prems nth by (auto simp: xor_word_def parity_def xor.assoc)
qed

lemma xor_words_nth:
  assumes "n \<le> length r" "list_all (\<lambda>w. n \<le> length w) ws"
  shows "\<exists>r'. xor_words n ws r = Some r' \<and> length r' = length r \<and>
    (\<forall>i < length r. r' ! i = (if i < n then parity ws i else r ! i))"
  using xor_loop_nth [of n "replicate n 0 @ drop n r" ws] assms by (auto simp: xor_words_def nth_append)


lemma parity_drop: "list_all (\<lambda>c. off \<le> length c) cs \<Longrightarrow> parity (map (drop off) cs) j = parity cs (off + j)"
  by (induction cs) (simp_all add: parity_def)

definition in_part :: "nat \<Rightarrow> nat \<Rightarrow> nat \<Rightarrow> nat \<Rightarrow> bool" where
  "in_part nt n i j \<longleftrightarrow> part_start nt n i \<le> j \<and> j < part_start nt n i + part_size nt n i"

lemma part_inside: "i < nt \<Longrightarrow> part_start nt n i + part_size nt n i \<le> n"
proof -
  assume "i < nt"
  let ?q = "n div nt"
  have nq: "nt * ?q \<le> n" by simp
  show ?thesis
  proof (cases "i < nt - 1")
    case True
    then have "Suc i * ?q \<le> nt * ?q" by (intro mult_le_mono1) simp
    then have "i * ?q + ?q \<le> nt * ?q" by simp
    then have "i * ?q + ?q \<le> n" using nq by linarith
    then show ?thesis using True by (simp add: part_start_def part_size_def)
  next
    case False
    then have "Suc i = nt" using \<open>i < nt\<close> by simp
    then have "i * ?q + ?q = nt * ?q" by (metis add.commute mult_Suc)
    then have "i * ?q + (?q + (n - nt * ?q)) \<le> n" using nq by linarith
    then show ?thesis using False by (simp add: part_start_def part_size_def)
  qed
qed

lemma part_covers:
  assumes "0 < nt" "j < n"
  shows "\<exists>i < nt. in_part nt n i j"
proof -
  let ?q = "n div nt"
  show ?thesis
  proof (cases "j < (nt - 1) * ?q")
    case True
    then have q: "0 < ?q" by (cases "?q") auto
    have i: "j div ?q < nt - 1" using True q by (simp add: less_mult_imp_div_less)
    have "j div ?q * ?q \<le> j" "j < j div ?q * ?q + ?q"
      using q div_mult_mod_eq [of j ?q] mod_less_divisor [OF q, of j] by linarith+
    then show ?thesis using i by (intro exI [of _ "j div ?q"]) (simp add: in_part_def part_start_def part_size_def)
  next
    case False
    have "(nt - 1) * ?q + ?q = nt * ?q" using assms(1) by (cases nt) simp_all
    moreover have "nt * ?q \<le> n" by simp
    ultimately have "(nt - 1) * ?q + (?q + (n - nt * ?q)) = n" by linarith
    then show ?thesis using False assms by (intro exI [of _ "nt - 1"]) (simp add: in_part_def part_start_def part_size_def)
  qed
qed

lemma part_xor_nth:
  assumes "i < nt" "n \<le> length r" "list_all (\<lambda>c. n \<le> length c) cs"
  shows "\<exists>r'. part_xor nt n cs i r = Some r' \<and> length r' = length r \<and>
    (\<forall>j < length r. r' ! j = (if in_part nt n i j then parity cs j else r ! j))"
proof -
  let ?o = "part_start nt n i" and ?s = "part_size nt n i"
  have p: "?o + ?s \<le> n" by (rule part_inside [OF assms(1)])
  have l: "list_all (\<lambda>c. ?o \<le> length c) cs" "list_all (\<lambda>w. ?s \<le> length w) (map (drop ?o) cs)"
    using assms(3) p by (auto simp: list_all_iff)
  have s: "?s \<le> length (drop ?o r)" using assms(2) p by simp
  obtain x where x: "xor_words ?s (map (drop ?o) cs) (drop ?o r) = Some x" "length x = length r - ?o"
    "\<forall>j < length r - ?o. x ! j = (if j < ?s then parity (map (drop ?o) cs) j else drop ?o r ! j)"
    using xor_words_nth [OF s l(2)] by auto
  have "(take ?o r @ x) ! j = (if in_part nt n i j then parity cs j else r ! j)" if "j < length r" for j
    using that x(2,3) assms(2) p by (auto simp: nth_append in_part_def parity_drop [OF l(1)] min_def)
  moreover have "\<not> list_ex (\<lambda>c. length c < ?o) cs" using l(1) by (auto simp: list_all_iff list_ex_iff)
  ultimately show ?thesis using x(1,2) assms(2) p by (auto simp: part_xor_def Let_def)
qed

lemma parts_nth:
  assumes "\<forall>i \<in> set sched. i < nt" "n \<le> length r" "list_all (\<lambda>c. n \<le> length c) cs"
  shows "\<exists>r'. foldl (\<lambda>r i. Option.bind r (part_xor nt n cs i)) (Some r) sched = Some r' \<and> length r' = length r \<and>
    (\<forall>j < length r. r' ! j = (if \<exists>i \<in> set sched. in_part nt n i j then parity cs j else r ! j))"
  using assms
proof (induction sched arbitrary: r)
  case (Cons i ks)
  obtain x where x: "part_xor nt n cs i r = Some x" "length x = length r"
    "\<forall>j < length r. x ! j = (if in_part nt n i j then parity cs j else r ! j)"
    using part_xor_nth [of i nt n r cs] Cons.prems by auto
  obtain r' where "foldl (\<lambda>r i. Option.bind r (part_xor nt n cs i)) (Some x) ks = Some r'" "length r' = length x"
    "\<forall>j < length x. r' ! j = (if \<exists>i \<in> set ks. in_part nt n i j then parity cs j else x ! j)"
    using Cons.IH [of x] Cons.prems x(2) by auto
  then show ?case using x by auto
qed simp

subsection \<open>Properties\<close>

text \<open>C33: dividing the work among any positive number of threads, in whatever order they run, gives what one thread
  computes in one go: the bytewise parity of the chunks, and nothing behind it is touched.\<close>

theorem parallel_xor_is_xor:
  assumes "0 < num_thread" "mset sched = mset [0..<num_thread]" "n \<le> length r" "list_all (\<lambda>c. n \<le> length c) chunks"
  shows "\<exists>r'. parallel_xor sched num_thread n chunks r = Some (0, r') \<and> xor_words n chunks r = Some r' \<and>
    take n r' = map (parity chunks) [0..<n] \<and> drop n r' = drop n r"
proof -
  have "set sched = {0..<num_thread}" using mset_eq_setD [OF assms(2)] by simp
  then have sched: "\<forall>i \<in> set sched. i < num_thread" "\<forall>i < num_thread. i \<in> set sched" by auto
  obtain p where p: "foldl (\<lambda>r i. Option.bind r (part_xor num_thread n chunks i)) (Some r) sched = Some p" "length p = length r"
    "\<forall>j < length r. p ! j = (if \<exists>i \<in> set sched. in_part num_thread n i j then parity chunks j else r ! j)"
    using parts_nth [OF sched(1) assms(3,4)] by auto
  obtain x where x: "xor_words n chunks r = Some x" "length x = length r" "\<forall>i < length r. x ! i = (if i < n then parity chunks i else r ! i)"
    using xor_words_nth [OF assms(3,4)] by auto
  have "(\<exists>i \<in> set sched. in_part num_thread n i j) \<longleftrightarrow> j < n" for j
    using part_covers [OF assms(1), of j n] part_inside [of _ num_thread n] sched by (fastforce simp: in_part_def)
  then have "p = x" using p(2,3) x(2,3) by (intro nth_equalityI) simp_all
  moreover have "take n x = map (parity chunks) [0..<n]" "drop n x = drop n r"
    using x(2,3) assms(3) by (auto intro!: nth_equalityI)
  ultimately show ?thesis using p(1) x(1) by (simp add: parallel_xor_def)
qed

text \<open>A lost chunk is the parity of the other chunks and the parity.\<close>

lemma parity_append: "parity (xs @ ys) j = parity xs j XOR parity ys j"
  by (induction xs) (simp_all add: parity_def xor.assoc)

lemma lost_chunk_recovered:
  assumes "n \<le> length p" "take n p = map (parity (xs @ c # ys)) [0..<n]" "j < n"
  shows "parity (xs @ p # ys) j = c ! j"
proof -
  have "p ! j = parity (xs @ c # ys) j" using assms by (metis (no_types, lifting) add.left_neutral diff_zero length_upt nth_map nth_take nth_upt)
  then have "p ! j = parity xs j XOR (c ! j XOR parity ys j)" by (simp add: parity_append) (simp add: parity_def)
  then have "parity (xs @ p # ys) j = parity xs j XOR ((parity xs j XOR (c ! j XOR parity ys j)) XOR parity ys j)"
    by (simp add: parity_append) (simp add: parity_def)
  then show ?thesis by (simp add: xor.assoc xor.left_commute)
qed

theorem parallel_xor_is_xor_witness:
  "\<exists>r'. parallel_xor [1, 0] 2 3 [[1, 2, 3], [4, 6, 8]] [9, 9, 9, 9] = Some (0, r') \<and> take 3 r' = [5, 4, 11]"
  using parallel_xor_is_xor [of 2 "[1, 0]" 3 "[9, 9, 9, 9]" "[[1, 2, 3], [4, 6, 8]]"]
  by (auto simp: upt_rec parity_def)

end
