(* ===== verification/Hilbert_Cmp.thy ===== *)
theory Hilbert_Cmp
  imports Hilbert
begin

text \<open>
  \<open>mfa_hilbert_cmp\<close> of \<open>hilbert.c\<close>: which of two points lies further along the curve, told from their bits without
  computing the indices. The coordinates are byte arrays, least significant byte first (the \<open>whichByte\<close> of a
  little-endian machine). A \<open>BitReader\<close> collects one bit of every coordinate; \<open>None\<close> is undefined: a read behind the
  array, and a shift by too much (an \<open>int\<close> from 31 dimensions on, a \<open>bitmask_t\<close> from 64 on).
\<close>

unbundle bit_operations_syntax

type_synonym bit_reader = "nat \<Rightarrow> u64 option"

primrec int_bits :: "nat \<Rightarrow> 8 word list \<Rightarrow> nat \<Rightarrow> nat \<Rightarrow> u64 option" where
  "int_bits nBytes c y 0 = Some 0"
| "int_bits nBytes c y (Suc d) = do {
     bits \<leftarrow> int_bits nBytes c y d;
     let p = d * nBytes + y div 8;
     if length c \<le> p then None
     else let b = drop_bit (y mod 8) (c ! p) AND 1
          in if 32 \<le> d \<or> b \<noteq> 0 \<and> 31 \<le> d then None else Some (bits OR push_bit d (ucast b)) }"

definition getIntBits :: "nat \<Rightarrow> nat \<Rightarrow> 8 word list \<Rightarrow> bit_reader" where
  "getIntBits nDims nBytes c y = int_bits nBytes c y nDims"

primrec cmp_work :: "nat \<Rightarrow> nat \<Rightarrow> nat \<Rightarrow> nat \<Rightarrow> bit_reader \<Rightarrow> bit_reader \<Rightarrow> nat \<Rightarrow> u64 \<Rightarrow> u64 \<Rightarrow> int option" where
  "cmp_work nDims nBits maxy 0 c1 c2 rotation bits index = Some 0"
| "cmp_work nDims nBits maxy (Suc y) c1 c2 rotation bits index =
     (if Suc y \<le> maxy then Some 0
      else do {
        reflection \<leftarrow> c1 y;
        r2 \<leftarrow> c2 y;
        let diff = reflection XOR r2;
        let bits = rotateRight (bits XOR reflection) rotation nDims;
        if diff \<noteq> 0
        then let diff = xor_scan 1 nDims (rotateRight diff rotation nDims);
                 index = xor_scan 1 nDims index;
                 bits = xor_scan 1 nDims bits
             in Some (if ((index XOR word_of_nat y XOR word_of_nat nBits) AND 1 = 1) = (bits < bits XOR diff) then - 1 else 1)
        else cmp_work nDims nBits maxy y c1 c2 (adjust_rotation rotation nDims bits) (reflection XOR push_bit rotation 1)
               (index XOR bits) })"

definition mfa_hilbert_cmp :: "nat \<Rightarrow> nat \<Rightarrow> nat \<Rightarrow> 8 word list \<Rightarrow> 8 word list \<Rightarrow> int option" where
  "mfa_hilbert_cmp nDims nBytes nBits c1 c2 =
     (if nDims = 0 \<or> 64 \<le> nDims \<and> 0 < nBits then None
      else let bits = push_bit (nDims - 1) 1
      in cmp_work nDims nBits 0 nBits (getIntBits nDims nBytes c1) (getIntBits nDims nBytes c2) 0 bits bits)"

subsection \<open>The inverse Gray code\<close>

definition scan :: "u64 \<Rightarrow> u64" where
  "scan w = xor_scan 1 64 w"

lemma scan_unique: "x XOR drop_bit 1 x = w \<Longrightarrow> scan w = x"
  using xor_scan_gray [of 1 64 x 64] by (simp add: scan_def)

lemma gray_scan: "scan w XOR drop_bit 1 (scan w) = w"
  unfolding scan_def by (rule gray_xor_scan [where m = 64]) simp_all

lemma bit_scan: "bit (scan w) p \<longleftrightarrow> bit w p \<noteq> bit (scan w) (Suc p)"
proof -
  have "bit (scan w XOR drop_bit 1 (scan w)) p = bit w p" by (simp only: gray_scan)
  then show ?thesis by (auto simp: bit_xor_iff bit_drop_bit_eq)
qed

lemma fits_scan [intro]: "fits m w \<Longrightarrow> fits m (scan w)"
  unfolding scan_def by (rule fits_xor_scan)

lemma scan_limit: "fits m w \<Longrightarrow> m \<le> limit \<Longrightarrow> xor_scan 1 limit w = scan w"
  using scan_unique [OF gray_xor_scan [of 1 m w limit]] by simp

lemma scan_xor: "scan (a XOR b) = scan a XOR scan b"
proof (rule scan_unique)
  have "(scan a XOR drop_bit 1 (scan a)) XOR (scan b XOR drop_bit 1 (scan b)) = a XOR b" by (simp only: gray_scan)
  then show "(scan a XOR scan b) XOR drop_bit 1 (scan a XOR scan b) = a XOR b" by (simp add: ac_simps)
qed

lemma scan_0 [simp]: "scan 0 = 0"
  by (rule scan_unique) simp

lemma scan_inj [simp]: "scan a = scan b \<longleftrightarrow> a = b"
  by (metis gray_scan)

text \<open>The parity of a word.\<close>

definition par :: "u64 \<Rightarrow> bool" where
  "par w \<longleftrightarrow> bit (scan w) 0"

lemma par_xor: "par (a XOR b) \<longleftrightarrow> par a \<noteq> par b"
  by (simp add: par_def scan_xor bit_xor_iff del: bit_0)

definition flipped :: "bool \<Rightarrow> nat \<Rightarrow> u64" where
  "flipped c m = (if c then mask m else 0)"

lemma bit_flipped [simp]: "bit (flipped c m) p \<longleftrightarrow> c \<and> p < m \<and> p < 64"
  by (auto simp: flipped_def bit_mask_iff)

lemma scan_append:
  assumes "fits m lo" "fits k hi" "m + k \<le> 64"
  shows "scan (push_bit m hi OR lo) = push_bit m (scan hi) OR (scan lo XOR flipped (par hi) m)"
proof (rule scan_unique, rule bit_word_eqI)
  fix p
  let ?x = "push_bit m (scan hi) OR (scan lo XOR flipped (par hi) m)"
  have f: "fits m (scan lo)" "fits k (scan hi)" using assms by auto
  have x: "bit ?x q \<longleftrightarrow> (if q < m then bit (scan lo) q \<noteq> par hi else bit (scan hi) (q - m))" for q
    using fitsD [OF f(1), of q] fitsD [OF f(2), of "q - m"] assms(3)
    by (auto simp: bit_or_iff bit_push_u64 bit_xor_iff)
  consider "Suc p < m" | "Suc p = m" | "m \<le> p" by linarith
  then show "bit (?x XOR drop_bit 1 ?x) p \<longleftrightarrow> bit (push_bit m hi OR lo) p"
  proof cases
    case 1
    then show ?thesis using x [of p] x [of "Suc p"] bit_scan [of lo p]
      by (simp add: bit_xor_iff bit_drop_bit_eq bit_or_iff bit_push_u64) blast
  next
    case 2
    then have "\<not> bit (scan lo) (Suc p)" using fitsD [OF f(1), of m] by auto
    then have "bit (scan lo) p \<longleftrightarrow> bit lo p" using bit_scan [of lo p] by simp
    moreover have "bit ?x p \<longleftrightarrow> bit (scan lo) p \<noteq> par hi" "bit ?x (Suc p) \<longleftrightarrow> par hi"
      using x [of p] x [of "Suc p"] 2 by (simp_all add: par_def del: bit_0)
    moreover have "bit (push_bit m hi OR lo) p \<longleftrightarrow> bit lo p" using 2 by (auto simp: bit_or_iff bit_push_u64)
    moreover have "bit (?x XOR drop_bit 1 ?x) p \<longleftrightarrow> bit ?x p \<noteq> bit ?x (Suc p)" by (simp only: bit_xor_iff bit_drop_bit_eq plus_1_eq_Suc comp_def)
    ultimately show ?thesis by blast
  next
    case 3
    have "bit hi (p - m) \<Longrightarrow> p < 64" "\<not> bit lo p" using assms 3 by (auto dest!: fitsD)
    then show ?thesis using 3 x [of p] x [of "Suc p"] bit_scan [of hi "p - m"]
      by (auto simp: bit_xor_iff bit_drop_bit_eq bit_or_iff bit_push_u64 Suc_diff_le)
  qed
qed

lemma scan_top: "0 < D \<Longrightarrow> D \<le> 64 \<Longrightarrow> scan (push_bit (D - 1) 1) = mask D"
proof (rule scan_unique, rule bit_word_eqI)
  fix p
  assume "0 < D" "D \<le> 64"
  then show "bit (mask D XOR drop_bit 1 (mask D :: u64)) p \<longleftrightarrow> bit (push_bit (D - 1) (1 :: u64)) p"
    by (auto simp: bit_xor_iff bit_drop_bit_eq bit_mask_iff bit_push_u64 bit_1_iff simp del: push_bit_of_1)
qed

lemma par_top: "0 < D \<Longrightarrow> D \<le> 64 \<Longrightarrow> par (push_bit (D - 1) 1)"
  by (simp only: par_def scan_top) (simp add: bit_mask_iff del: bit_0)


subsection \<open>Digits\<close>

definition digit :: "nat \<Rightarrow> u64 \<Rightarrow> nat \<Rightarrow> u64" where
  "digit D w n = drop_bit (n * D) w AND ones D"

lemma fits_digit [simp]: "0 < D \<Longrightarrow> fits D (digit D w n)"
  by (simp add: digit_def fits_and_ones)

lemma bit_digit: "0 < D \<Longrightarrow> bit (digit D w n) p \<longleftrightarrow> p < D \<and> bit w (n * D + p)"
  using bit_u64 [of w "n * D + p"] by (auto simp: digit_def bit_and_iff bit_drop_bit_eq)

lemma digit_xor: "digit D (v XOR w) n = digit D v n XOR digit D w n"
  by (rule bit_word_eqI) (auto simp: digit_def bit_and_iff bit_xor_iff bit_drop_bit_eq)

lemma digit_shifted: "0 < D \<Longrightarrow> digit D (drop_bit D w) n = digit D w (Suc n)"
  by (rule bit_word_eqI) (auto simp: bit_digit bit_drop_bit_eq add.commute add.left_commute)

lemma take_digit: "0 < D \<Longrightarrow> take_bit (Suc n * D) w = push_bit (n * D) (digit D w n) OR take_bit (n * D) w"
  by (rule bit_word_eqI) (auto simp: bit_take_bit_iff bit_or_iff bit_push_u64 bit_digit dest: bit_u64)

lemma take_bit_neg:
  assumes "k \<le> 64"
  shows "take_bit k (- take_bit k w) = take_bit k (- w :: u64)"
proof -
  have "uint (- x) = take_bit 64 (- uint x)" for x :: u64 by (simp add: uint_word_ariths take_bit_eq_mod)
  then have "uint (take_bit k (- x)) = take_bit k (- uint x)" for x :: u64 using assms by (simp add: unsigned_take_bit_eq)
  moreover have "take_bit k (- uint (take_bit k w)) = take_bit k (- uint w)"
    by (simp only: unsigned_take_bit_eq) (simp add: take_bit_eq_mod mod_minus_eq)
  ultimately show ?thesis by (simp only: word_uint_eq_iff)
qed

lemma and_mask: "v AND (w AND mask k) = take_bit k v AND take_bit k (w :: u64)"
  by (rule bit_word_eqI) (auto simp: bit_and_iff bit_take_bit_iff bit_mask_iff dest: bit_u64)

text \<open>The bit that is always flipped at the top of a digit does not change the rotation.\<close>

lemma adjust_top:
  assumes "1 < D" "D \<le> 64"
  shows "adjust_rotation r D (w XOR push_bit (D - 1) 1) = adjust_rotation r D w"
proof -
  let ?t = "push_bit (D - 1) 1 :: u64" and ?m = "drop_bit 1 (ones D)"
  have m: "?m = mask (D - 1)" using assms by (intro bit_word_eqI) (auto simp: bit_drop_bit_eq bit_mask_iff)
  have low: "take_bit (D - 1) (w XOR ?t) = take_bit (D - 1) w"
    by (rule bit_word_eqI) (auto simp: bit_take_bit_iff bit_xor_iff bit_push_u64 simp del: push_bit_of_1)
  have "take_bit (D - 1) (- (w XOR ?t)) = take_bit (D - 1) (- w)"
    using arg_cong [OF low, of "\<lambda>x. take_bit (D - 1) (- x)"] using assms(2) by (simp only: take_bit_neg diff_le_self order_trans [OF diff_le_self])
  with low have "(w XOR ?t) AND ((- (w XOR ?t)) AND ?m) = w AND ((- w) AND ?m)" unfolding m and_mask by (simp only:)
  then show ?thesis by (simp only: adjust_rotation_def Let_def)
qed

text \<open>The correction that \<open>mfa_hilbert_c2i\<close> applies to the index: the top bit of every digit but the highest.\<close>

primrec repeated :: "nat \<Rightarrow> nat \<Rightarrow> u64" where
  "repeated D 0 = 0"
| "repeated D (Suc B) = push_bit D (repeated D B) OR 1"

lemma bit_repeated: "0 < D \<Longrightarrow> bit (repeated D B) p \<longleftrightarrow> p < 64 \<and> (\<exists>z<B. p = z * D)"
proof (induction B arbitrary: p)
  case (Suc B)
  have "(\<exists>z<Suc B. p = z * D) \<longleftrightarrow> p = 0 \<or> D \<le> p \<and> (\<exists>z<B. p - D = z * D)"
  proof
    assume "\<exists>z<Suc B. p = z * D"
    then obtain z where z: "z < Suc B" "p = z * D" by blast
    then show "p = 0 \<or> D \<le> p \<and> (\<exists>z<B. p - D = z * D)" by (cases z) auto
  next
    assume "p = 0 \<or> D \<le> p \<and> (\<exists>z<B. p - D = z * D)"
    then show "\<exists>z<Suc B. p = z * D"
    proof
      assume "D \<le> p \<and> (\<exists>z<B. p - D = z * D)"
      then obtain z where "z < B" "p = Suc z * D" by auto
      then show ?thesis by blast
    qed auto
  qed
  moreover have "bit (repeated D (Suc B)) p \<longleftrightarrow> p < 64 \<and> D \<le> p \<and> bit (repeated D B) (p - D) \<or> p = 0"
    by (auto simp: bit_or_iff bit_push_u64 bit_1_iff simp del: bit_0)
  ultimately show ?case using less_imp_diff_less [of p 64 D] by (simp only: Suc.IH [OF Suc.prems]) fastforce
qed simp

lemma unat_repeated: "0 < D \<Longrightarrow> D * B \<le> 64 \<Longrightarrow> unat (repeated D B) * (2 ^ D - 1) = 2 ^ (D * B) - 1"
proof (induction B)
  case (Suc B)
  let ?r = "unat (repeated D B)"
  have IH: "?r * (2 ^ D - 1) = 2 ^ (D * B) - 1" using Suc by simp
  have one: "(1 :: nat) \<le> 2 ^ D - 1" using Suc(2) power_increasing [of 1 D "2 :: nat"] by simp
  then have "?r \<le> ?r * (2 ^ D - 1)" using mult_le_mono2 [OF one, of ?r] by simp
  then have r: "?r \<le> 2 ^ (D * B) - 1" by (simp only: IH)
  then have "?r < 2 ^ (D * B)" using zero_less_power [of "2 :: nat" "D * B"] by linarith
  then have "2 ^ D * ?r + 2 ^ D \<le> 2 ^ D * 2 ^ (D * B)" by (metis Suc_leI mult_Suc_right mult_le_mono2 add.commute)
  also have "\<dots> = 2 ^ (D * Suc B)" by (simp add: power_add)
  also have "\<dots> \<le> (2 :: nat) ^ 64" using Suc(3) by (intro power_increasing) auto
  finally have bound: "2 ^ D * ?r + 2 ^ D \<le> 2 ^ 64" .
  have "unat (push_bit D (repeated D B) OR 1) = unat (push_bit D (repeated D B) + 1)"
    using Suc(2) by (subst disjunctive_add [symmetric]) (auto simp: bit_push_bit_iff bit_1_iff)
  also have "push_bit D (repeated D B) + 1 = word_of_nat (2 ^ D * ?r + 1)"
    by (simp add: push_bit_eq_mult mult.commute)
  also have "unat (word_of_nat (2 ^ D * ?r + 1) :: u64) = 2 ^ D * ?r + 1"
    using bound one unfolding unat_of_nat by (intro mod_less) (simp add: less_le_trans)
  finally have u: "unat (repeated D (Suc B)) = 2 ^ D * ?r + 1" by simp
  have "(2 ^ D * ?r + 1) * (2 ^ D - 1) = 2 ^ D * (?r * (2 ^ D - 1)) + (2 ^ D - 1)" by (simp add: algebra_simps)
  also have "\<dots> = 2 ^ D * (2 ^ (D * B) - 1) + (2 ^ D - 1)" by (simp only: IH)
  also have "\<dots> = 2 ^ (D * Suc B) - (1 :: nat)" by (simp add: power_add diff_mult_distrib2)
  finally show ?case by (simp only: u)
qed simp

lemma nthbits_repeated:
  assumes "0 < D" "0 < B" "D * B \<le> 64"
  shows "nthbits D B = repeated D B"
proof -
  have unat_ones: "unat (ones k) = 2 ^ k - 1" if "0 < k" "k \<le> 64" for k
  proof -
    have "unat (word_of_nat (mask k) :: u64) = mask k"
      using that(2) power_increasing [of k 64 "2 :: nat"] by (simp only: unat_of_nat mask_eq_exp_minus_1) (intro mod_less, simp)
    then show ?thesis using that(1) by (simp add: ones_mask of_nat_mask_eq mask_eq_exp_minus_1)
  qed
  have "D \<le> D * B" using assms(2) by simp
  then have "D \<le> 64" using assms(3) by (rule order_trans)
  then have "unat (nthbits D B) = (2 ^ (D * B) - 1) div (2 ^ D - 1)"
    using assms by (simp add: nthbits_def unat_div unat_ones)
  also have "\<dots> = unat (repeated D B) * (2 ^ D - 1) div (2 ^ D - 1)" by (simp only: unat_repeated [OF assms(1,3)])
  also have "\<dots> = unat (repeated D B)" using assms(1) power_increasing [of 1 D "2 :: nat"] by (intro nonzero_mult_div_cancel_right) simp
  finally show ?thesis by (simp add: word_unat_eq_iff)
qed

lemma digit_correction:
  assumes "1 < D" "n < B" "D * B \<le> 64"
  shows "digit D (drop_bit 1 (nthbits D B)) n = (if Suc n < B then push_bit (D - 1) 1 else 0)"
proof (rule bit_word_eqI)
  fix p
  have "n * D + p + 1 = z * D \<longleftrightarrow> z = Suc n \<and> p = D - 1" if "p < D" for z
  proof
    assume z: "n * D + p + 1 = z * D"
    then have "n < z" using assms(1) that by (metis Suc_eq_plus1 add_lessD1 le_add1 less_Suc_eq_le mult_less_cancel2 add.assoc)
    moreover have "z * D \<le> Suc n * D" using z that by simp
    then have "z \<le> Suc n" using assms(1) by (metis mult_le_cancel2 gr_implies_not0 not_gr0 less_trans zero_less_one)
    ultimately have "z = Suc n" by simp
    with z that assms(1) show "z = Suc n \<and> p = D - 1" by auto
  qed (use assms(1) in auto)
  moreover have "Suc n < B \<Longrightarrow> Suc n * D < 64"
  proof -
    assume "Suc n < B"
    then have "Suc (Suc n) * D \<le> D * B" by (metis Suc_leI mult.commute mult_le_mono1)
    then show "Suc n * D < 64" using assms(1,3) by simp
  qed
  ultimately have "(n * D + p + 1 < 64 \<and> (\<exists>z<B. n * D + p + 1 = z * D)) \<longleftrightarrow> Suc n < B \<and> p = D - 1" if "p < D"
    using that assms(1) by fastforce
  moreover have "bit (digit D (drop_bit 1 (nthbits D B)) n) p \<longleftrightarrow> p < D \<and> n * D + p + 1 < 64 \<and> (\<exists>z<B. n * D + p + 1 = z * D)"
    using assms nthbits_repeated [of D B] by (simp add: bit_digit bit_drop_bit_eq bit_repeated)
  moreover have "D - 1 < 64" using assms by (cases B) auto
  ultimately show "bit (digit D (drop_bit 1 (nthbits D B)) n) p \<longleftrightarrow> bit (if Suc n < B then push_bit (D - 1) 1 else 0 :: u64) p"
    using assms(1) by (auto simp: bit_push_u64 bit_1_iff simp del: push_bit_of_1 bit_0)
qed


subsection \<open>Comparing words digit by digit\<close>

definition order_of :: "u64 \<Rightarrow> u64 \<Rightarrow> int" where
  "order_of a b = (if a < b then - 1 else if a = b then 0 else 1)"

lemma order_join:
  assumes "fits m l1" "fits m l2" "fits k h1" "fits k h2" "m + k \<le> 64"
  shows "order_of (push_bit m h1 OR l1) (push_bit m h2 OR l2) = (if h1 = h2 then order_of l1 l2 else order_of h1 h2)"
proof -
  have u: "unat (push_bit m h OR l) = unat h * 2 ^ m + unat l \<and> unat l < 2 ^ m" if "fits m l" "fits k h" for h l
  proof -
    note d = digit_split [OF that assms(5)]
    let ?x = "push_bit m h OR l"
    have "unat h = unat ?x div 2 ^ m" using arg_cong [OF d(1), of unat] by (simp only: unat_drop_bit_eq) (simp only: drop_bit_eq_div)
    moreover have "unat l = unat ?x mod 2 ^ m" using arg_cong [OF d(2), of unat] by (simp only: unsigned_take_bit_eq) (simp only: take_bit_eq_mod)
    ultimately show ?thesis by (simp add: div_mult_mod_eq)
  qed
  have lt: "unat h1 * 2 ^ m + unat l1 < unat h2 * 2 ^ m + unat l2 \<longleftrightarrow> unat h1 < unat h2 \<or> unat h1 = unat h2 \<and> unat l1 < unat l2"
    if "unat l1 < 2 ^ m" "unat l2 < 2 ^ m" for h1 h2 l1 l2
  proof -
    have less: "unat a * 2 ^ m + unat c < unat b * 2 ^ m + unat d" if "unat a < unat b" "unat c < 2 ^ m" for a b c d
    proof -
      have "Suc (unat a) * 2 ^ m \<le> unat b * 2 ^ m" using that(1) by (intro mult_le_mono1) simp
      then show ?thesis using that(2) by simp
    qed
    show ?thesis using less [of h1 h2 l1 l2] less [of h2 h1 l2 l1] that by (cases "unat h1" "unat h2" rule: linorder_cases) auto
  qed
  note u1 = u [OF assms(1,3)] and u2 = u [OF assms(2,4)]
  have l: "unat l1 < 2 ^ m" "unat l2 < 2 ^ m" using u1 u2 by simp_all
  have "push_bit m h1 OR l1 = push_bit m h2 OR l2 \<longleftrightarrow> h1 = h2 \<and> l1 = l2"
    using digit_split [OF assms(1,3,5)] digit_split [OF assms(2,4,5)] by metis
  moreover have "push_bit m h1 OR l1 < push_bit m h2 OR l2 \<longleftrightarrow> h1 < h2 \<or> h1 = h2 \<and> l1 < l2"
    using lt [OF l, of h1 h2] u1 u2 by (simp add: word_less_nat_alt word_unat_eq_iff)
  ultimately show ?thesis by (auto simp: order_of_def)
qed

lemma order_complement:
  assumes "fits k a" "fits k b"
  shows "order_of (a XOR mask k) (b XOR mask k) = order_of b a"
proof -
  have c: "x XOR mask k = mask k - x \<and> x \<le> mask k" if "fits k x" for x :: u64
  proof -
    have "x + (x XOR mask k) = x OR (x XOR mask k)"
      by (rule disjunctive_add) (use that in \<open>auto simp: bit_xor_iff bit_mask_iff dest: fitsD bit_u64\<close>)
    also have "\<dots> = mask k"
      by (rule bit_word_eqI) (use that in \<open>auto simp: bit_or_iff bit_xor_iff bit_mask_iff dest: fitsD bit_u64\<close>)
    finally have "x XOR mask k = mask k - x" by (simp add: eq_diff_eq add.commute)
    moreover have "x \<le> mask k" using that by (metis fits_def take_bit_eq_mask word_and_le1)
    ultimately show ?thesis by simp
  qed
  have "mask k - a < mask k - b \<longleftrightarrow> b < a" "mask k - a = mask k - b \<longleftrightarrow> a = b"
    using c [OF assms(1)] c [OF assms(2)] by (auto simp: word_less_nat_alt word_le_nat_alt unat_sub)
  then show ?thesis using c [OF assms(1)] c [OF assms(2)] by (auto simp: order_of_def)
qed

subsection \<open>The loop\<close>

lemma rotateRight_xor:
  assumes "fits D a" "fits D b" "r < D" "D \<le> 64"
  shows "rotateRight (a XOR b) r D = rotateRight a r D XOR rotateRight b r D"
  by (rule bit_word_eqI) (use assms in \<open>auto simp: bit_rotateRight fits_xor bit_xor_iff\<close>)

lemma rotateRight_0: "fits D a \<Longrightarrow> 0 < D \<Longrightarrow> D \<le> 64 \<Longrightarrow> rotateRight a 0 D = a"
  by (rule bit_word_eqI) (auto simp: bit_rotateRight dest: fitsD)

lemma xor_split:
  assumes "fits m l" "fits m l'"
  shows "(push_bit m h OR l) XOR (push_bit m h' OR l') = push_bit m (h XOR h') OR (l XOR l')"
  by (rule bit_word_eqI) (use assms in \<open>auto simp: bit_or_iff bit_xor_iff bit_push_u64 dest: fitsD\<close>)

lemma flipped_xor: "flipped a m XOR flipped b m = flipped (a \<noteq> b) m"
  by (auto simp: flipped_def)

lemma flipped_split: "flipped c (m + k) = push_bit m (flipped c k) OR flipped c m"
  by (rule bit_word_eqI) (auto simp: bit_or_iff bit_push_u64)

lemma fits_flipped [simp]: "fits m (flipped c m)"
  by (simp add: fits_bit)

lemma fits_top: "0 < D \<Longrightarrow> fits D (push_bit (D - 1) 1)"
  by (rule fits_flip) simp

text \<open>The part of the index that the digits from \<open>n\<close> down determine, when the parity of those above is even.\<close>

definition low_index :: "nat \<Rightarrow> nat \<Rightarrow> u64 \<Rightarrow> nat \<Rightarrow> nat \<Rightarrow> u64 \<Rightarrow> u64" where
  "low_index D B Y n r f =
     scan (c2i_loop D (Y XOR drop_bit D Y) n 0 r f XOR take_bit (n * D) (drop_bit 1 (nthbits D B)))"

lemma low_index_Suc:
  assumes "1 < D" "r < D" "fits D f" "Suc n \<le> B" "D * B \<le> 64"
    and g: "g = rotateRight (f XOR digit D Y n XOR digit D Y (Suc n)) r D XOR (if Suc n = B then push_bit (D - 1) 1 else 0)"
  shows "low_index D B Y (Suc n) r f XOR flipped c (Suc n * D) =
    push_bit (n * D) (scan g XOR flipped (\<not> c) D) OR
    (low_index D B Y n (adjust_rotation r D g) (push_bit r 1) XOR flipped (par g = c) (n * D))"
    "fits (n * D) (low_index D B Y n (adjust_rotation r D g) (push_bit r 1))" "fits D g"
proof -
  let ?Z = "Y XOR drop_bit D Y" and ?T = "drop_bit 1 (nthbits D B)" and ?t = "push_bit (D - 1) 1 :: u64"
  let ?j = "rotateRight (f XOR digit D Y n XOR digit D Y (Suc n)) r D"
  have size: "Suc n * D \<le> 64" using mult_le_mono1 [OF assms(4), of D] assms(5) by (simp add: mult.commute)
  have D64: "D \<le> 64" using size by simp
  have adj: "adjust_rotation r D g = adjust_rotation r D ?j" using adjust_top [OF assms(1) D64] by (simp add: g)
  let ?rest = "c2i_loop D ?Z n 0 (adjust_rotation r D g) (push_bit r 1)"
  have dz: "drop_bit (n * D) ?Z AND ones D = digit D Y n XOR digit D Y (Suc n)"
    using assms(1) digit_shifted [of D Y n] by (simp only: digit_def [symmetric] digit_xor)
  have loop: "c2i_loop D ?Z (Suc n) 0 r f = push_bit (n * D) ?j OR ?rest"
    unfolding c2i_loop_Suc dz adj by (simp only: xor.assoc)
  have rest: "fits (n * D) ?rest"
    using assms(1,2) by (intro fits_c2i_loop) (simp_all add: adjust_rotation_less fits_power)
  then show low: "fits (n * D) (low_index D B Y n (adjust_rotation r D g) (push_bit r 1))"
    unfolding low_index_def by (intro fits_scan fits_xor [OF rest fits_take_bit])
  have j: "fits D ?j" using assms(1) by simp
  then show fg: "fits D g" using assms(1) by (simp only: g) (intro fits_xor, auto intro: fits_power)
  have k: "?j XOR digit D ?T n = g XOR ?t"
    using digit_correction [OF assms(1) _ assms(5), of n] assms(4) by (auto simp: g xor.assoc)
  have ft: "fits D (g XOR ?t)" using fg assms(1) by (intro fits_xor) (auto intro: fits_power)
  have "take_bit (Suc n * D) ?T = push_bit (n * D) (digit D ?T n) OR take_bit (n * D) ?T" by (rule take_digit) (use assms(1) in simp)
  then have "c2i_loop D ?Z (Suc n) 0 r f XOR take_bit (Suc n * D) ?T = push_bit (n * D) (g XOR ?t) OR (?rest XOR take_bit (n * D) ?T)"
    unfolding loop k [symmetric] by (simp only: xor_split [OF rest fits_take_bit])
  then have "low_index D B Y (Suc n) r f = push_bit (n * D) (scan (g XOR ?t)) OR
      (low_index D B Y n (adjust_rotation r D g) (push_bit r 1) XOR flipped (par (g XOR ?t)) (n * D))"
    unfolding low_index_def using scan_append [of "n * D" "?rest XOR take_bit (n * D) ?T" D "g XOR ?t"] rest ft size
    by (simp add: fits_xor add.commute)
  moreover have "flipped c (Suc n * D) = push_bit (n * D) (flipped c D) OR flipped c (n * D)"
    using flipped_split [of c "n * D" D] by (simp add: add.commute)
  ultimately have "low_index D B Y (Suc n) r f XOR flipped c (Suc n * D) =
      push_bit (n * D) (scan (g XOR ?t) XOR flipped c D) OR
      (low_index D B Y n (adjust_rotation r D g) (push_bit r 1) XOR flipped (par (g XOR ?t)) (n * D) XOR flipped c (n * D))"
    using low by (simp only: xor_split fits_xor fits_flipped xor.assoc)
  moreover have "scan (g XOR ?t) XOR flipped c D = scan g XOR flipped (\<not> c) D"
    using scan_top [of D] assms(1) D64 by (auto simp: scan_xor flipped_def xor.assoc)
  moreover have "par (g XOR ?t) \<longleftrightarrow> \<not> par g" using par_top [of D] assms(1) D64 by (simp add: par_xor)
  moreover have "((\<not> par g) \<noteq> c) = (par g = c)" by blast
  ultimately show "low_index D B Y (Suc n) r f XOR flipped c (Suc n * D) =
    push_bit (n * D) (scan g XOR flipped (\<not> c) D) OR
    (low_index D B Y n (adjust_rotation r D g) (push_bit r 1) XOR flipped (par g = c) (n * D))"
    by (simp only: xor.assoc flipped_xor)
qed


lemma xor_zero: "v XOR w = 0 \<Longrightarrow> v = (w :: u64)"
proof -
  assume "v XOR w = 0"
  then have "(v XOR w) XOR w = 0 XOR w" by simp
  then show "v = w" by (simp add: xor.assoc)
qed

lemma xor_same: "v XOR w = v \<Longrightarrow> w = (0 :: u64)"
proof -
  assume "v XOR w = v"
  then have "v XOR (v XOR w) = v XOR v" by simp
  then show "w = 0" by (simp add: xor.assoc [symmetric])
qed

lemma order_digit:
  assumes "fits m l1" "fits m l2" "fits k g1" "fits k g2" "m + k \<le> 64"
  shows "order_of (push_bit m (scan g1 XOR flipped (\<not> c) k) OR (l1 XOR flipped d1 m)) (push_bit m (scan g2 XOR flipped (\<not> c) k) OR (l2 XOR flipped d2 m)) =
    (if g1 = g2 then order_of (l1 XOR flipped d1 m) (l2 XOR flipped d2 m)
     else if c then order_of (scan g1) (scan g2) else order_of (scan g2) (scan g1))"
proof -
  have f: "fits m (l1 XOR flipped d1 m)" "fits m (l2 XOR flipped d2 m)" "fits k (scan g1 XOR flipped (\<not> c) k)" "fits k (scan g2 XOR flipped (\<not> c) k)"
    using assms by (auto intro!: fits_xor)
  have "scan g1 XOR flipped (\<not> c) k = scan g2 XOR flipped (\<not> c) k \<longleftrightarrow> g1 = g2"
  proof
    assume "scan g1 XOR flipped (\<not> c) k = scan g2 XOR flipped (\<not> c) k"
    then have "(scan g1 XOR flipped (\<not> c) k) XOR flipped (\<not> c) k = (scan g2 XOR flipped (\<not> c) k) XOR flipped (\<not> c) k" by (simp only:)
    then show "g1 = g2" by (simp add: xor.assoc)
  qed simp
  then show ?thesis
    using order_join [OF f assms(5)] order_complement [OF fits_scan [OF assms(3)] fits_scan [OF assms(4)]]
    by (auto simp: flipped_def)
qed

text \<open>The loop compares the parts of the two indices that the remaining digits determine.\<close>

lemma cmp_step_bit: "((v XOR word_of_nat y XOR word_of_nat n) AND 1 = (1 :: u64)) \<longleftrightarrow> (bit v 0 = (odd y = odd n))"
  by (simp add: and_one_eq odd_iff_mod_2_eq_one [symmetric] even_xor_iff del: bit_0) (simp add: bit_0, blast)

lemma cmp_work_orders:
  assumes "1 < D" "D * B \<le> 64" "n \<le> B" "r < D" "fits D f" "fits D index" "n = B \<Longrightarrow> r = 0"
    "\<forall>z<n. c1 z = Some (digit D Y1 z) \<and> c2 z = Some (digit D Y2 z)" "digit D Y1 n = digit D Y2 n"
    "bits = digit D Y1 n XOR f XOR (if n = B then push_bit (D - 1) 1 else 0)"
  shows "cmp_work D B 0 n c1 c2 r bits index = Some (order_of
    (low_index D B Y1 n r f XOR flipped (par index = odd (B - n)) (n * D))
    (low_index D B Y2 n r f XOR flipped (par index = odd (B - n)) (n * D)))"
  using assms(3-)
proof (induction n arbitrary: r f bits index)
  case 0
  then show ?case by (simp add: low_index_def order_of_def)
next
  case (Suc n)
  let ?e = "if Suc n = B then push_bit (D - 1) 1 else 0 :: u64" and ?c = "par index = odd (B - Suc n)"
  let ?j = "\<lambda>Y. rotateRight (f XOR digit D Y n XOR digit D Y (Suc n)) r D XOR ?e"
  let ?m1 = "low_index D B Y1 n (adjust_rotation r D (?j Y1)) (push_bit r 1)" and ?m2 = "low_index D B Y2 n (adjust_rotation r D (?j Y2)) (push_bit r 1)"
  have size: "Suc n * D \<le> 64" using mult_le_mono1 [OF Suc.prems(1), of D] assms(2) by (simp add: mult.commute)
  have D64: "D \<le> 64" "0 < D" using size assms(1) by simp_all
  note low1 = low_index_Suc(1) [where Y = Y1 and c = ?c, OF assms(1) Suc.prems(2,3,1) assms(2) refl]
    low_index_Suc(2,3) [where Y = Y1, OF assms(1) Suc.prems(2,3,1) assms(2) refl]
  note low2 = low_index_Suc(1) [where Y = Y2 and c = ?c, OF assms(1) Suc.prems(2,3,1) assms(2) refl]
    low_index_Suc(2,3) [where Y = Y2, OF assms(1) Suc.prems(2,3,1) assms(2) refl]
  have e: "fits D ?e" using assms(1) by (auto intro: fits_power)
  have rot_e: "rotateRight ?e r D = ?e"
  proof (cases "Suc n = B")
    case True
    then show ?thesis using Suc.prems(5) e rotateRight_0 [OF e] D64 by simp
  next
    case False
    then show ?thesis by (simp add: rotateRight_def)
  qed
  have dig: "fits D (digit D Y k)" for Y k using D64 by simp
  have "bits XOR digit D Y1 n = (f XOR digit D Y1 n XOR digit D Y1 (Suc n)) XOR ?e" by (simp add: Suc.prems(8) ac_simps)
  then have b: "rotateRight (bits XOR digit D Y1 n) r D = ?j Y1"
    using rotateRight_xor [OF _ e Suc.prems(2) D64(1), of "f XOR digit D Y1 n XOR digit D Y1 (Suc n)"] rot_e Suc.prems(3) dig by (simp only: fits_xor)
  let ?d = "digit D Y1 n XOR digit D Y2 n"
  have jd: "?j Y1 XOR rotateRight ?d r D = ?j Y2"
  proof -
    have "rotateRight (f XOR digit D Y1 n XOR digit D Y1 (Suc n)) r D XOR rotateRight ?d r D =
        rotateRight ((f XOR digit D Y1 n XOR digit D Y1 (Suc n)) XOR ?d) r D"
      by (rule rotateRight_xor [symmetric]) (use Suc.prems(2,3) D64 dig in \<open>auto intro!: fits_xor\<close>)
    also have "(f XOR digit D Y1 n XOR digit D Y1 (Suc n)) XOR ?d = f XOR digit D Y2 n XOR digit D Y2 (Suc n)"
      using Suc.prems(7) by (simp add: ac_simps)
    finally show ?thesis by (simp add: ac_simps)
  qed
  have reads: "c1 n = Some (digit D Y1 n)" "c2 n = Some (digit D Y2 n)" using Suc.prems(6) by simp_all
  have scans: "xor_scan 1 D w = scan w" if "fits D w" for w using that by (rule scan_limit) simp
  have f_sc: "fits D (scan (?j Y1))" "fits D (scan (?j Y2))" using low1(3) low2(3) by auto
  show ?case
  proof (cases "?d = 0")
    case False
    have rd: "fits D (rotateRight ?d r D)" using D64 by simp
    have ne: "?j Y1 \<noteq> ?j Y2"
    proof
      assume "?j Y1 = ?j Y2"
      then have "rotateRight ?d r D = 0" using jd xor_same [of "?j Y2" "rotateRight ?d r D"] by (simp only:)
      then have "rotateLeft (rotateRight ?d r D) r D = 0" by (simp add: rotateLeft_def)
      then show False using False rotateLeft_rotateRight [of D ?d r] Suc.prems(2) D64 dig by (simp add: fits_xor)
    qed
    have "scan (?j Y1) XOR scan (rotateRight ?d r D) = scan (?j Y2)" using jd by (simp only: scan_xor [symmetric])
    then have run: "cmp_work D B 0 (Suc n) c1 c2 r bits index =
        Some (if (par index = (odd n = odd B)) = (scan (?j Y1) < scan (?j Y2)) then - 1 else 1)"
      using False reads b scans [OF rd] scans [OF Suc.prems(4)] scans [OF low1(3)]
      by (simp add: Let_def cmp_step_bit par_def del: bit_0)
    have c: "(par index = (odd n = odd B)) = ?c" using Suc.prems(1) by (auto simp: even_diff_nat)
    have "order_of (low_index D B Y1 (Suc n) r f XOR flipped ?c (Suc n * D)) (low_index D B Y2 (Suc n) r f XOR flipped ?c (Suc n * D)) =
        (if ?c then order_of (scan (?j Y1)) (scan (?j Y2)) else order_of (scan (?j Y2)) (scan (?j Y1)))"
      unfolding low1(1) low2(1) using ne size by (subst order_digit [OF low1(2) low2(2) low1(3) low2(3)]) (simp_all only: add.commute mult_Suc if_False)
    then show ?thesis using ne unfolding run c by (auto simp: order_of_def)
  next
    case True
    then have eq: "digit D Y1 n = digit D Y2 n" by (rule xor_zero)
    have jj: "?j Y1 = ?j Y2" using eq Suc.prems(7) by simp
    let ?r = "adjust_rotation r D (?j Y1)" and ?i = "index XOR ?j Y1"
    have run: "cmp_work D B 0 (Suc n) c1 c2 r bits index = cmp_work D B 0 n c1 c2 ?r (digit D Y1 n XOR push_bit r 1) ?i"
      using reads b True by (simp add: Let_def)
    have flip: "(par (?j Y1) = ?c) = (par ?i = odd (B - n))"
      using Suc.prems(1) by (auto simp: par_xor even_diff_nat Suc_le_eq)
    have "cmp_work D B 0 n c1 c2 ?r (digit D Y1 n XOR push_bit r 1) ?i = Some (order_of
        (low_index D B Y1 n ?r (push_bit r 1) XOR flipped (par ?i = odd (B - n)) (n * D))
        (low_index D B Y2 n ?r (push_bit r 1) XOR flipped (par ?i = odd (B - n)) (n * D)))"
      by (rule Suc.IH) (use Suc.prems assms(1) eq low1(3) in \<open>auto simp: adjust_rotation_less intro!: fits_xor fits_power\<close>)
    moreover have "order_of (low_index D B Y1 (Suc n) r f XOR flipped ?c (Suc n * D)) (low_index D B Y2 (Suc n) r f XOR flipped ?c (Suc n * D)) =
        order_of (?m1 XOR flipped (par (?j Y1) = ?c) (n * D)) (?m2 XOR flipped (par (?j Y2) = ?c) (n * D))"
      unfolding low1(1) low2(1) using jj size by (subst order_digit [OF low1(2) low2(2) low1(3) low2(3)]) (simp_all only: add.commute mult_Suc simp_thms if_True)
    ultimately show ?thesis unfolding run using jj flip by simp
  qed
qed


subsection \<open>Reading the coordinates\<close>

text \<open>The array of coordinates of \<open>nBytes\<close> bytes each.\<close>

definition coord_bytes :: "nat \<Rightarrow> u64 list \<Rightarrow> 8 word list" where
  "coord_bytes nBytes cs = concat (map (\<lambda>c. map (\<lambda>k. ucast (drop_bit (8 * k) c)) [0..<nBytes]) cs)"

lemma length_coord_bytes [simp]: "length (coord_bytes N cs) = length cs * N"
  by (induction cs) (simp_all add: coord_bytes_def)

lemma nth_coord_bytes:
  "d < length cs \<Longrightarrow> j < N \<Longrightarrow> coord_bytes N cs ! (d * N + j) = ucast (drop_bit (8 * j) (cs ! d))"
proof (induction cs arbitrary: d)
  case (Cons c cs)
  have app: "coord_bytes N (c # cs) = map (\<lambda>k. ucast (drop_bit (8 * k) c)) [0..<N] @ coord_bytes N cs" by (simp add: coord_bytes_def)
  show ?case
  proof (cases d)
    case 0
    then show ?thesis using Cons.prems(2) by (simp add: app nth_append)
  next
    case (Suc e)
    then have "coord_bytes N (c # cs) ! (d * N + j) = coord_bytes N cs ! (e * N + j)" by (simp add: app nth_append)
    then show ?thesis using Cons Suc by simp
  qed
qed simp

primrec column :: "u64 list \<Rightarrow> nat \<Rightarrow> nat \<Rightarrow> u64" where
  "column cs y 0 = 0"
| "column cs y (Suc d) = column cs y d OR push_bit d (of_bool (bit (cs ! d) y))"

lemma bit_column: "bit (column cs y d) p \<longleftrightarrow> p < d \<and> p < 64 \<and> bit (cs ! p) y"
  by (induction d) (auto simp: bit_or_iff bit_push_u64 bit_1_iff less_Suc_eq simp del: bit_0)

lemma int_bits_column:
  assumes "d \<le> length cs" "d \<le> 31" "y < 8 * N"
  shows "int_bits N (coord_bytes N cs) y d = Some (column cs y d)"
  using assms(1,2)
proof (induction d)
  case (Suc d)
  have j: "y div 8 < N" using assms(3) by (simp add: less_mult_imp_div_less mult.commute)
  have "Suc d * N \<le> length cs * N" using Suc.prems(1) by (rule mult_le_mono1)
  then have len: "d * N + y div 8 < length cs * N" using j by simp
  have "coord_bytes N cs ! (d * N + y div 8) = ucast (drop_bit (8 * (y div 8)) (cs ! d))" using Suc.prems(1) j by (intro nth_coord_bytes) simp_all
  moreover have "drop_bit (y mod 8) (ucast (drop_bit (8 * (y div 8)) (cs ! d)) :: 8 word) AND 1 = of_bool (bit (cs ! d) y)"
    by (rule bit_word_eqI)
      (auto simp: bit_and_iff bit_drop_bit_eq bit_1_iff bit_of_bool_iff bit_ucast_iff simp del: bit_0)
  moreover have "ucast (of_bool b :: 8 word) = (of_bool b :: u64)" for b by (cases b) simp_all
  ultimately show ?case using Suc len by (simp add: Let_def)
qed simp

lemma bit_pack:
  assumes "p < length cs" "y < B" "\<forall>c\<in>set cs. fits B c" "length cs * B \<le> 64"
  shows "bit (pack_coords B cs) (p * B + y) \<longleftrightarrow> bit (cs ! p) y"
  using assms
proof (induction cs arbitrary: p)
  case (Cons c cs)
  show ?case
  proof (cases p)
    case 0
    then show ?thesis using Cons.prems by (auto simp: pack_Cons bit_or_iff bit_push_u64 simp del: bit_0)
  next
    case (Suc q)
    have "Suc q * B + y < 64"
    proof -
      have "Suc (Suc q) * B \<le> length (c # cs) * B" using Cons.prems(1) Suc by (intro mult_le_mono1) simp
      then show ?thesis using Cons.prems(2,4) by simp
    qed
    moreover have "\<not> bit c (Suc q * B + y)" using Cons.prems(3) fitsD [of B c "Suc q * B + y"] by auto
    moreover have "bit (pack_coords B cs) (q * B + y) \<longleftrightarrow> bit (cs ! q) y"
      using Cons.prems Suc by (intro Cons.IH) auto
    ultimately show ?thesis using Suc by (simp add: pack_Cons bit_or_iff bit_push_u64 add.assoc del: bit_0)
  qed
qed simp

text \<open>The bits of the coordinates, interleaved; and the index computed from them.\<close>

definition interleaved :: "nat \<Rightarrow> nat \<Rightarrow> u64 list \<Rightarrow> u64" where
  "interleaved D B cs = (if 1 < B then bitTranspose D B (pack_coords B cs) else pack_coords B cs)"

lemma fits_interleaved:
  assumes "1 < D" "0 < B" "D * B \<le> 64" "length cs = D" "\<forall>c\<in>set cs. fits B c"
  shows "fits (D * B) (interleaved D B cs)"
  using fits_pack [OF assms(5)] fits_bitTranspose [of D B "pack_coords B cs"] assms by (auto simp: interleaved_def)

lemma digit_interleaved:
  assumes "1 < D" "0 < B" "D * B \<le> 64" "length cs = D" "\<forall>c\<in>set cs. fits B c" "y < B"
  shows "digit D (interleaved D B cs) y = column cs y D"
proof (rule bit_word_eqI)
  fix p
  show "bit (digit D (interleaved D B cs) y) p \<longleftrightarrow> bit (column cs y D) p"
  proof (cases "p < D")
    case True
    have pk: "bit (pack_coords B cs) (p * B + y) \<longleftrightarrow> bit (cs ! p) y" using assms True by (intro bit_pack) auto
    have P: "fits (D * B) (pack_coords B cs)" using fits_pack [OF assms(5)] assms(4) by simp
    have q: "y * D + p < D * B" using row_room [OF assms(6) True] by (simp add: mult.commute)
    have "bit (interleaved D B cs) (y * D + p) \<longleftrightarrow> bit (pack_coords B cs) (p * B + y)"
    proof (cases "1 < B")
      case B: True
      then show ?thesis using transposed_bits [OF P _ _ assms(3), of "y * D + p"] assms(1) q True by (simp add: interleaved_def del: bit_0)
    next
      case False
      then have "B = 1" "y = 0" using assms(2,6) by simp_all
      then show ?thesis by (simp add: interleaved_def del: bit_0)
    qed
    then show ?thesis using True pk q assms(1,3) by (simp add: bit_digit bit_column del: bit_0)
  qed (use assms(1) in \<open>simp add: bit_digit bit_column del: bit_0\<close>)
qed

lemma index_low:
  assumes "1 < D" "0 < B" "D * B \<le> 64" "length cs = D" "\<forall>c\<in>set cs. fits B c"
  shows "mfa_hilbert_c2i D B cs = low_index D B (interleaved D B cs) B 0 0"
proof -
  let ?Y = "interleaved D B cs" and ?T = "drop_bit 1 (nthbits D B)"
  have T: "take_bit (B * D) ?T = ?T" using fits_drop_bit [OF fits_nthbits [OF assms(1,2)], of 1] by (simp add: fits_def mult.commute)
  have loop: "fits (D * B) (c2i_loop D (?Y XOR drop_bit D ?Y) B 0 0 0)" using assms fits_c2i_loop [of D 0 0 B] by (simp add: mult.commute)
  have w: "fits (D * B) (c2i_loop D (?Y XOR drop_bit D ?Y) B 0 0 0 XOR ?T)" using loop fits_nthbits [OF assms(1,2)] by (intro fits_xor fits_drop_bit)
  show ?thesis
  proof (cases "1 < B")
    case True
    then have "mfa_hilbert_c2i D B cs = xor_scan 1 (D * B) (c2i_loop D (?Y XOR drop_bit D ?Y) B 0 0 0 XOR ?T)"
      using assms by (simp only: c2i_many interleaved_def Let_def if_True)
    also have "\<dots> = scan (c2i_loop D (?Y XOR drop_bit D ?Y) B 0 0 0 XOR ?T)" by (rule scan_limit [OF w]) simp
    finally show ?thesis by (simp only: low_index_def T)
  next
    case False
    then have B: "B = 1" using assms(2) by simp
    have P: "fits D (pack_coords 1 cs)" using fits_pack [of cs 1] assms(4,5) B by simp
    have "nthbits D 1 = 1" using nthbits_repeated [of D 1] assms B by simp
    then have "low_index D 1 ?Y 1 0 0 = scan (rotateRight (digit D (pack_coords 1 cs XOR drop_bit D (pack_coords 1 cs)) 0) 0 D)"
      using B by (simp add: low_index_def interleaved_def digit_def)
    also have "drop_bit D (pack_coords 1 cs) = 0" using P by (rule fits_drop_zero) simp
    also have "digit D (pack_coords 1 cs XOR 0) 0 = pack_coords 1 cs" using P assms(1) by (simp add: digit_def and_ones fits_def)
    also have "rotateRight (pack_coords 1 cs) 0 D = pack_coords 1 cs" using assms B by (intro rotateRight_0 P) simp_all
    also have "scan (pack_coords 1 cs) = xor_scan 1 D (pack_coords 1 cs)" using scan_limit [OF P] by simp
    finally show ?thesis using assms B by (simp add: mfa_hilbert_c2i_def)
  qed
qed

subsection \<open>Property\<close>

text \<open>C13: the comparison agrees with the indices. For two points whose coordinates fit in the arrays, in at most 31
  dimensions, \<open>mfa_hilbert_cmp\<close> returns -1, 0 or 1 as the index that \<open>mfa_hilbert_c2i\<close> gives the first point is
  smaller than, equal to or greater than that of the second, though it looks at no more than the leading bits in
  which the points differ.\<close>

theorem hilbert_cmp_orders:
  assumes "1 < D" "D \<le> 31" "0 < B" "D * B \<le> 64" "B \<le> 8 * N"
    "length cs = D" "\<forall>c\<in>set cs. fits B c" "length ds = D" "\<forall>c\<in>set ds. fits B c"
  shows "mfa_hilbert_cmp D N B (coord_bytes N cs) (coord_bytes N ds) =
    Some (if mfa_hilbert_c2i D B cs < mfa_hilbert_c2i D B ds then - 1
          else if mfa_hilbert_c2i D B cs = mfa_hilbert_c2i D B ds then 0 else 1)"
proof -
  let ?t = "push_bit (D - 1) 1 :: u64" and ?Y = "interleaved D B"
  have reads: "getIntBits D N (coord_bytes N xs) z = Some (digit D (?Y xs) z)"
    if "z < B" "length xs = D" "\<forall>c\<in>set xs. fits B c" for z xs
    using int_bits_column [of D xs z N] digit_interleaved [OF assms(1,3,4) that(2,3,1)] that assms(2,5) by (simp add: getIntBits_def)
  have top: "digit D (?Y xs) B = 0" if "length xs = D" "\<forall>c\<in>set xs. fits B c" for xs
    using fits_drop_zero [OF fits_interleaved [OF assms(1,3,4) that]] by (simp add: digit_def mult.commute)
  have p: "par ?t" using par_top [of D] assms(1,2) by simp
  have "cmp_work D B 0 B (getIntBits D N (coord_bytes N cs)) (getIntBits D N (coord_bytes N ds)) 0 ?t ?t = Some (order_of
      (low_index D B (?Y cs) B 0 0 XOR flipped (par ?t = odd (B - B)) (B * D))
      (low_index D B (?Y ds) B 0 0 XOR flipped (par ?t = odd (B - B)) (B * D)))"
    by (rule cmp_work_orders [OF assms(1,4)])
      (use assms reads top in \<open>simp_all add: fits_power\<close>)
  then have "mfa_hilbert_cmp D N B (coord_bytes N cs) (coord_bytes N ds) = Some (order_of (mfa_hilbert_c2i D B cs) (mfa_hilbert_c2i D B ds))"
    using p assms(1,2) by (simp add: mfa_hilbert_cmp_def Let_def index_low [OF assms(1,3,4,6,7)] index_low [OF assms(1,3,4,8,9)] flipped_def)
  then show ?thesis by (simp only: order_of_def)
qed

theorem hilbert_cmp_orders_witness:
  "mfa_hilbert_cmp 3 2 12 (coord_bytes 2 [100, 7, 4000]) (coord_bytes 2 [100, 8, 4000]) =
    Some (if mfa_hilbert_c2i 3 12 [100, 7, 4000] < mfa_hilbert_c2i 3 12 [100, 8, 4000] then - 1
          else if mfa_hilbert_c2i 3 12 [100, 7, 4000] = mfa_hilbert_c2i 3 12 [100, 8, 4000] then 0 else 1)"
  by (rule hilbert_cmp_orders) (simp_all add: fits_unat)

end
