(* ===== verification/Hilbert_Incr.thy ===== *)
theory Hilbert_Incr
  imports Hilbert_Cmp
begin

text \<open>
  \<open>mfa_hilbert_incr\<close> of \<open>hilbert.c\<close>: from a point to its successor on the curve, by flipping the low bits of one
  coordinate. \<open>None\<close> is undefined: a read behind the array, and a shift by too much (\<open>2 << rb\<close> is an \<open>int\<close>).
\<close>

unbundle bit_operations_syntax

primrec reflect_bits :: "u64 list \<Rightarrow> nat \<Rightarrow> nat \<Rightarrow> u64" where
  "reflect_bits coord b 0 = 0"
| "reflect_bits coord b (Suc d) = reflect_bits coord b d OR push_bit d (rdbit (coord ! d) b)"

primrec incr_loop :: "nat \<Rightarrow> u64 list \<Rightarrow> nat \<Rightarrow> nat \<Rightarrow> u64 \<Rightarrow> u64 \<Rightarrow> nat \<Rightarrow> u64 \<Rightarrow> nat \<times> u64" where
  "incr_loop nDims coord 0 rotation reflection index rb rd = (rb, rd)"
| "incr_loop nDims coord (Suc b) rotation reflection index rb rd =
     (let bits = reflection;
          reflection = reflect_bits coord b nDims;
          bits = rotateRight (bits XOR reflection) rotation nDims;
          index = xor_scan 1 nDims (index XOR bits);
          (rb, rd) = (if index \<noteq> ones nDims then (b, rotateLeft ((index + 1) AND - (index + 1)) rotation nDims) else (rb, rd));
          index = push_bit (nDims - 1) ((index + 1) AND 1);
          reflection = reflection XOR push_bit rotation 1
      in incr_loop nDims coord b (adjust_rotation rotation nDims bits) reflection index rb rd)"

primrec first_set :: "nat \<Rightarrow> u64 \<Rightarrow> nat \<Rightarrow> nat option" where
  "first_set 0 rd d = None"
| "first_set (Suc k) rd d = (if rdbit rd d \<noteq> 0 then Some d else first_set k rd (Suc d))"

definition mfa_hilbert_incr :: "nat \<Rightarrow> nat \<Rightarrow> u64 list \<Rightarrow> u64 list option" where
  "mfa_hilbert_incr nDims nBits coord =
     (if nDims = 0 \<or> 64 \<le> nDims \<or> 64 < nBits \<or> length coord < nDims then None
      else let (rb, rd) = incr_loop nDims coord nBits 0 0 0 (nat ((int nBits - 1) mod 2 ^ 32)) (ones nDims) in do {
        d \<leftarrow> first_set 64 rd 0;
        if 30 \<le> rb then None else Some (coord[d := coord ! d XOR (push_bit rb 2 - 1)]) })"

subsection \<open>The index, digit by digit\<close>

text \<open>The digits of the index from \<open>n\<close> down: \<open>c\<close> says that the digit is complemented, which the parity of the digit
  above decides.\<close>

primrec digits_index :: "nat \<Rightarrow> u64 \<Rightarrow> nat \<Rightarrow> nat \<Rightarrow> u64 \<Rightarrow> bool \<Rightarrow> u64" where
  "digits_index D Y 0 r f c = 0"
| "digits_index D Y (Suc n) r f c =
     (let g = rotateRight (f XOR digit D Y n) r D
      in push_bit (n * D) (scan g XOR flipped c D) OR
         digits_index D Y n (adjust_rotation r D g) (digit D Y n XOR push_bit r 1) (par g = c))"

lemma fits_digits_index: "1 < D \<Longrightarrow> fits (n * D) (digits_index D Y n r f c)"
proof (induction n arbitrary: r f c)
  case (Suc n)
  let ?g = "rotateRight (f XOR digit D Y n) r D"
  have "fits D (scan ?g XOR flipped c D)" using Suc.prems by (intro fits_xor fits_scan) simp_all
  then have "fits (n * D + D) (push_bit (n * D) (scan ?g XOR flipped c D))" by (rule fits_push_bit)
  moreover have "fits (Suc n * D) x" if "fits (n * D) x" for x using that by (rule fits_mono) simp
  ultimately show ?case using Suc.IH [OF Suc.prems] by (simp add: Let_def add.commute)
qed simp

lemma digits_low:
  assumes "1 < D" "r < D" "fits D f" "n < B" "D * B \<le> 64"
  shows "digits_index D Y n r (f XOR digit D Y n) (\<not> c) = low_index D B Y n r f XOR flipped c (n * D)"
  using assms(2-4)
proof (induction n arbitrary: r f c)
  case 0
  then show ?case by (simp add: low_index_def flipped_def)
next
  case (Suc n)
  let ?g = "rotateRight (f XOR digit D Y n XOR digit D Y (Suc n)) r D"
  have g: "rotateRight ((f XOR digit D Y (Suc n)) XOR digit D Y n) r D = ?g" by (simp add: ac_simps)
  have ne: "Suc n \<noteq> B" using Suc.prems(3) by simp
  then have q: "?g = ?g XOR (if Suc n = B then push_bit (D - 1) 1 else 0)" by simp
  note low = low_index_Suc [OF assms(1) Suc.prems(1,2) less_imp_le [OF Suc.prems(3)] assms(5) q]
  have "digits_index D Y n (adjust_rotation r D ?g) (push_bit r 1 XOR digit D Y n) (\<not> (par ?g = c)) =
      low_index D B Y n (adjust_rotation r D ?g) (push_bit r 1) XOR flipped (par ?g = c) (n * D)"
    using Suc.prems assms(1) low(3) by (intro Suc.IH) (auto simp: adjust_rotation_less fits_power)
  moreover have "(par ?g = (\<not> c)) = (\<not> (par ?g = c))" by blast
  ultimately show ?case
    unfolding low(1) digits_index.simps Let_def g xor.commute [of "digit D Y n" "push_bit r 1"] by (simp only:)
qed

lemma index_digits:
  assumes "1 < D" "0 < B" "D * B \<le> 64" "length cs = D" "\<forall>c\<in>set cs. fits B c"
  shows "mfa_hilbert_c2i D B cs = digits_index D (interleaved D B cs) B 0 0 False"
proof -
  let ?Y = "interleaved D B cs"
  obtain n where n: "B = Suc n" using assms(2) by (cases B) auto
  have D64: "D \<le> 64" using assms(2,3) by (cases B) auto
  let ?b = "rotateRight (digit D ?Y n) 0 D"
  let ?g = "?b XOR push_bit (D - 1) 1"
  have top: "digit D ?Y (Suc n) = 0"
    using fits_drop_zero [OF fits_interleaved [OF assms]] n by (simp add: digit_def mult.commute)
  have pr: "0 < D" "fits D 0" "Suc n \<le> B"
    "?g = rotateRight (0 XOR digit D ?Y n XOR digit D ?Y (Suc n)) 0 D XOR (if Suc n = B then push_bit (D - 1) 1 else 0)"
    using assms(1) n top by (simp_all del: push_bit_of_1)
  note low = low_index_Suc(1) [OF assms(1) pr(1-3) assms(3) pr(4), of False]
  have g: "scan ?g XOR flipped True D = scan ?b" using scan_top [of D] assms(1) D64 by (simp add: scan_xor flipped_def xor.assoc)
  have p: "par ?g \<longleftrightarrow> \<not> par ?b" using par_top [of D] assms(1) D64 by (simp add: par_xor)
  have a: "adjust_rotation 0 D ?g = adjust_rotation 0 D ?b" by (rule adjust_top [OF assms(1) D64])
  have z: "flipped False k = 0" for k by (simp add: flipped_def)
  have "low_index D B ?Y B 0 0 = push_bit (n * D) (scan ?b) OR
      (low_index D B ?Y n (adjust_rotation 0 D ?b) (push_bit 0 1) XOR flipped (par ?b) (n * D))"
    using low by (simp only: n [symmetric] g p a z not_False_eq_True xor.right_neutral simp_thms)
  also have "low_index D B ?Y n (adjust_rotation 0 D ?b) (push_bit 0 1) XOR flipped (par ?b) (n * D) =
      digits_index D ?Y n (adjust_rotation 0 D ?b) (push_bit 0 1 XOR digit D ?Y n) (\<not> par ?b)"
    by (rule digits_low [symmetric]) (use assms n fits_flip [of 0 D] in \<open>auto simp: adjust_rotation_less\<close>)
  finally show ?thesis by (simp only: index_low [OF assms]) (simp add: n Let_def z ac_simps)
qed

subsection \<open>The lowest set bit\<close>

declare push_bit_of_1 [simp del] push_bit_Suc [simp del]

lemma bit_one [simp]: "bit (push_bit k 1 :: u64) p \<longleftrightarrow> p = k \<and> p < 64"
  by (auto simp: bit_push_u64 bit_1_iff simp del: bit_0)

lemma one_inj: "push_bit a 1 = (push_bit b 1 :: u64) \<Longrightarrow> a < 64 \<Longrightarrow> a = b"
  by (metis bit_one)

lemma one_nonzero [simp]: "k < 64 \<Longrightarrow> push_bit k 1 \<noteq> (0 :: u64)"
  by (metis bit_0_eq bit_one bot_apply bot_bool_def)

definition lowest :: "u64 \<Rightarrow> nat \<Rightarrow> bool" where
  "lowest w k \<longleftrightarrow> bit w k \<and> (\<forall>i<k. \<not> bit w i)"

lemma odd_and_minus: "odd w \<Longrightarrow> w AND - w = (1 :: u64)"
proof (rule bit_word_eqI)
  fix p
  assume o: "odd w" and "p < LENGTH(64)"
  have "(w AND NOT 1) OR 1 = w"
    by (rule bit_word_eqI) (use o bit_0 [of w] in \<open>auto simp: bit_or_iff bit_and_iff bit_not_iff bit_1_iff simp del: bit_0\<close>)
  moreover have "(w AND NOT 1) OR 1 = (w AND NOT 1) + 1"
    by (rule disjunctive_add [symmetric]) (auto simp: bit_and_iff bit_not_iff bit_1_iff simp del: bit_0)
  ultimately have "w - 1 = w AND NOT 1" by (metis add_diff_cancel_right')
  then have "- w = NOT (w AND NOT 1)" by (simp only: minus_eq_not_minus_1)
  then show "bit (w AND - w) p \<longleftrightarrow> bit (1 :: u64) p"
    using o bit_0 [of w] by (cases p) (auto simp: bit_and_iff bit_or_iff bit_not_iff bit_1_iff)
qed

lemma and_minus: "lowest w k \<Longrightarrow> w AND - w = push_bit k (1 :: u64)"
proof -
  assume l: "lowest w k"
  let ?v = "drop_bit k w"
  have w: "w = push_bit k ?v"
  proof (rule bit_word_eqI)
    fix p
    show "bit w p \<longleftrightarrow> bit (push_bit k ?v) p"
      using l by (cases "p < k") (auto simp: lowest_def bit_push_u64 bit_drop_bit_eq dest: bit_u64)
  qed
  have "odd ?v" using l by (simp add: lowest_def even_drop_bit_iff_not_bit)
  then have "push_bit k (?v AND - ?v) = push_bit k 1" by (simp add: odd_and_minus)
  moreover have "push_bit k (- ?v) = - push_bit k ?v" by (simp add: push_bit_eq_mult)
  ultimately show ?thesis using w by (metis push_bit_and)
qed

lemma lowest_exists: "w \<noteq> (0 :: u64) \<Longrightarrow> \<exists>k. lowest w k"
proof -
  assume "w \<noteq> 0"
  then have "\<exists>k. bit w k" by (metis bit_0_eq bit_word_eqI bot_apply bot_bool_def)
  then show ?thesis unfolding lowest_def by (metis exists_least_iff)
qed

lemma first_set_lowest: "lowest w (d + j) \<Longrightarrow> j < k \<Longrightarrow> first_set k w d = Some (d + j)"
proof (induction k arbitrary: d j)
  case (Suc k)
  have r: "rdbit w d \<noteq> 0 \<longleftrightarrow> bit w d" using bit_iff_and_drop_bit_eq_1 [of w d] by (auto simp: rdbit_def and_one_eq)
  show ?case
  proof (cases j)
    case 0
    then show ?thesis using Suc.prems r by (simp add: lowest_def)
  next
    case (Suc i)
    then have "\<not> bit w d" using Suc.prems(1) by (simp add: lowest_def)
    then show ?thesis using Suc.IH [of "Suc d" i] Suc.prems Suc r by simp
  qed
qed simp

text \<open>Adding one flips the bits up to the lowest that is clear.\<close>

lemma add_one_flips:
  assumes "\<not> bit w k" "\<forall>i<k. bit w i" "k < 64"
  shows "w + 1 = w XOR mask (Suc k)" "lowest (w + 1) k"
proof -
  let ?h = "w AND NOT (mask (Suc k)) :: u64"
  have "w = ?h OR mask k"
    by (rule bit_word_eqI) (use assms in \<open>auto simp: bit_or_iff bit_and_iff bit_not_iff bit_mask_iff less_Suc_eq\<close>)
  also have "\<dots> = ?h + mask k"
    by (rule disjunctive_add [symmetric]) (auto simp: bit_and_iff bit_not_iff bit_mask_iff)
  finally have "w + 1 = (?h + mask k) + 1" by (rule arg_cong [where f = "\<lambda>x. x + 1"])
  also have "\<dots> = ?h + (mask k + 1)" by (rule add.assoc)
  also have "mask k + 1 = (push_bit k 1 :: u64)" by (simp add: mask_eq_exp_minus_1 push_bit_eq_mult)
  also have "?h + push_bit k 1 = ?h OR push_bit k 1"
    by (rule disjunctive_add) (auto simp: bit_and_iff bit_not_iff bit_mask_iff)
  also have "\<dots> = w XOR mask (Suc k)"
    by (rule bit_word_eqI) (use assms in \<open>auto simp: bit_or_iff bit_and_iff bit_not_iff bit_mask_iff bit_xor_iff less_Suc_eq\<close>)
  finally show e: "w + 1 = w XOR mask (Suc k)" .
  show "lowest (w + 1) k" unfolding e using assms by (auto simp: lowest_def bit_xor_iff bit_mask_iff)
qed

subsection \<open>The first and the last point of a cell\<close>

definition turn :: "nat \<Rightarrow> nat \<Rightarrow> u64" where
  "turn D r = rotateLeft (push_bit (D - 1) 1) r D"

lemma fits_one: "k < n \<Longrightarrow> fits n (push_bit k 1)"
  by (rule fits_flip)

lemma turn_bit: "1 < D \<Longrightarrow> D \<le> 64 \<Longrightarrow> r < D \<Longrightarrow> turn D r = push_bit (if r = 0 then D - 1 else r - 1) 1"
  by (rule bit_word_eqI) (auto simp: turn_def bit_rotateLeft fits_one)

lemma rotate_eq:
  assumes "fits D v" "fits D w" "r < D" "D \<le> 64"
  shows "rotateRight v r D = w \<longleftrightarrow> v = rotateLeft w r D"
  using rotateLeft_rotateRight [OF assms(1,3,4)] rotateRight_rotateLeft [OF assms(2,3,4)] by metis

lemma xor_eq: "v XOR w = u \<longleftrightarrow> w = v XOR (u :: u64)"
proof -
  have "v XOR (v XOR x) = x" for x by (simp add: xor.assoc [symmetric])
  then show ?thesis by metis
qed

lemma adjust_0: "1 < D \<Longrightarrow> r < D \<Longrightarrow> adjust_rotation r D 0 = (if Suc r = D then 0 else Suc r)"
  by (auto simp: adjust_rotation_def rot_count.simps)

lemma join_eq:
  assumes "fits m l1" "fits m l2" "fits k h1" "fits k h2" "m + k \<le> 64"
  shows "push_bit m h1 OR l1 = push_bit m h2 OR l2 \<longleftrightarrow> h1 = h2 \<and> l1 = l2"
  using digit_split [OF assms(1,3,5)] digit_split [OF assms(2,4,5)] by metis

lemma flipped_same: "v XOR flipped c D = flipped e D \<longleftrightarrow> v = flipped (c \<noteq> e) D"
  by (simp only: xor.commute [of v] xor_eq flipped_xor)

text \<open>The part of the index below a cell is all ones, or zero, exactly when the point stays in one corner.\<close>

lemma corner_index:
  assumes "1 < D" "r < D" "fits D f" "n * D \<le> 64"
  shows "digits_index D Y n r f c = flipped e (n * D) \<longleftrightarrow> (\<forall>k<n. digit D Y k = f XOR (if c = e then 0 else turn D r))"
  using assms(2-4)
proof (induction n arbitrary: r f c)
  case 0
  then show ?case by (simp add: flipped_def)
next
  case (Suc n)
  have D64: "D \<le> 64" using Suc.prems(3) by simp
  let ?g = "rotateRight (f XOR digit D Y n) r D" and ?t = "push_bit (D - 1) 1 :: u64"
  let ?r = "adjust_rotation r D ?g" and ?f = "digit D Y n XOR push_bit r 1"
  let ?x = "if c = e then 0 else turn D r"
  have fd: "fits D (digit D Y n)" using assms(1) by simp
  have ft: "fits D ?t" using assms(1) by (intro fits_one) simp
  have t: "scan ?t = flipped True D" using scan_top [of D] assms(1) D64 by (simp add: flipped_def)
  have corner: "?g = (if c = e then 0 else ?t) \<longleftrightarrow> digit D Y n = f XOR ?x"
    using rotate_eq [of D "f XOR digit D Y n" "if c = e then 0 else ?t" r] Suc.prems(1,2) D64 fd ft
    by (simp add: fits_xor xor_eq turn_def rotateLeft_def split: if_splits)
  have "digits_index D Y (Suc n) r f c = flipped e (Suc n * D) \<longleftrightarrow>
      scan ?g XOR flipped c D = flipped e D \<and> digits_index D Y n ?r ?f (par ?g = c) = flipped e (n * D)"
    unfolding digits_index.simps Let_def mult_Suc add.commute [of D "n * D"] flipped_split
    by (rule join_eq [OF fits_digits_index [OF assms(1)] fits_flipped _ fits_flipped])
      (use Suc.prems(3) assms(1) in \<open>simp_all add: fits_xor fits_scan\<close>)
  also have "scan ?g XOR flipped c D = flipped e D \<longleftrightarrow> ?g = (if c = e then 0 else ?t)"
  proof -
    have "flipped (c \<noteq> e) D = scan (if c = e then 0 else ?t)" using t by (simp add: flipped_def)
    then show ?thesis by (simp only: flipped_same scan_inj)
  qed
  also note corner
  also have "(digit D Y n = f XOR ?x \<and> digits_index D Y n ?r ?f (par ?g = c) = flipped e (n * D)) \<longleftrightarrow>
      (digit D Y n = f XOR ?x \<and> (\<forall>k<n. digit D Y k = digit D Y n))"
  proof (rule conj_cong [OF refl])
    assume "digit D Y n = f XOR ?x"
    then have g: "?g = (if c = e then 0 else ?t)" by (rule corner [THEN iffD2])
    have "par ?t" using par_top [of D] assms(1) D64 by simp
    then have p: "(par ?g = c) \<noteq> e" unfolding g by (auto simp: par_def)
    have "?r = adjust_rotation r D 0" unfolding g using adjust_top [OF assms(1) D64, of r 0] by simp
    then have r: "?r = (if Suc r = D then 0 else Suc r)" using adjust_0 [OF assms(1) Suc.prems(1)] by simp
    then have "turn D ?r = push_bit r 1" using turn_bit [OF assms(1) D64, of ?r] Suc.prems(1) by auto
    moreover have "digits_index D Y n ?r ?f (par ?g = c) = flipped e (n * D) \<longleftrightarrow>
        (\<forall>k<n. digit D Y k = ?f XOR (if (par ?g = c) = e then 0 else turn D ?r))"
      using Suc.prems assms(1) fd by (intro Suc.IH) (auto simp: adjust_rotation_less fits_xor fits_one)
    ultimately show "digits_index D Y n ?r ?f (par ?g = c) = flipped e (n * D) \<longleftrightarrow> (\<forall>k<n. digit D Y k = digit D Y n)"
      using p by (simp add: xor.assoc)
  qed
  also have "\<dots> \<longleftrightarrow> (\<forall>k<Suc n. digit D Y k = f XOR ?x)" by (auto simp: less_Suc_eq)
  finally show ?case .
qed

subsection \<open>The step to the next cell\<close>

lemma rotateLeft_one:
  assumes "k < D" "r < D" "D \<le> 64"
  shows "rotateLeft (push_bit k 1) r D = push_bit (if k + r < D then k + r else k + r - D) 1"
  by (rule bit_word_eqI) (use assms in \<open>auto simp: bit_rotateLeft fits_one\<close>)

lemma rot_count_one: "j < 64 \<Longrightarrow> rot_count (push_bit j 1) r = Suc (r + j)"
proof (induction j arbitrary: r)
  case (Suc j)
  have "drop_bit 1 (push_bit (Suc j) 1) = (push_bit j 1 :: u64)"
    by (rule bit_word_eqI) (use Suc.prems in \<open>auto simp: bit_drop_bit_eq\<close>)
  moreover have "push_bit (Suc j) 1 \<noteq> (0 :: u64)" using Suc.prems by simp
  ultimately show ?case using Suc by (subst rot_count.simps) simp
qed (simp add: rot_count.simps)

lemma turn_adjusted:
  assumes "1 < D" "D \<le> 64" "r < D" "lowest g j" "Suc j < D"
  shows "turn D (adjust_rotation r D g) = rotateLeft (push_bit (Suc j) 1) r D"
proof -
  have "(g AND - g) AND drop_bit 1 (ones D) = push_bit j 1"
    by (rule bit_word_eqI) (use assms in \<open>auto simp: and_minus [OF assms(4)] bit_and_iff bit_drop_bit_eq\<close>)
  then have "rot_count (g AND ((- g) AND drop_bit 1 (ones D))) r = Suc (r + j)"
    using assms(2,5) rot_count_one [of j r] by (simp add: and.assoc)
  then have "adjust_rotation r D g = (if D \<le> Suc (Suc (r + j)) then Suc (Suc (r + j)) - D else Suc (Suc (r + j)))"
    by (simp add: adjust_rotation_def Let_def)
  moreover have "adjust_rotation r D g < D" using assms(1,3) by (rule adjust_rotation_less)
  ultimately show ?thesis
    using turn_bit [OF assms(1,2), of "adjust_rotation r D g"] rotateLeft_one [OF assms(5,3,2)] assms by (auto simp: add.commute)
qed

lemma scan_one: "k < 64 \<Longrightarrow> scan (push_bit k 1) = mask (Suc k)"
  using scan_top [of "Suc k"] by simp

text \<open>The bit \<open>d\<close> of the digits from \<open>b\<close> down is what the successor changes.\<close>

definition advances :: "nat \<Rightarrow> u64 \<Rightarrow> nat \<Rightarrow> nat \<Rightarrow> u64 \<Rightarrow> bool \<Rightarrow> nat \<Rightarrow> nat \<Rightarrow> bool" where
  "advances D Y n r f c b d \<longleftrightarrow>
     (\<forall>Y'. (\<forall>k<n. digit D Y' k = digit D Y k XOR (if k \<le> b then push_bit d 1 else 0)) \<longrightarrow>
       digits_index D Y' n r f c = digits_index D Y n r f c + 1) \<and>
     (\<forall>k<b. bit (digit D Y k) d \<noteq> bit (digit D Y b) d)"

text \<open>A cell whose sub-cells are used up: the bit \<open>d\<close> of all its digits is flipped.\<close>

lemma next_cell:
  assumes "1 < D" "D \<le> 64" "r < D" "fits D f" "Suc n * D \<le> 64"
    and g: "g = rotateRight (f XOR digit D Y n) r D" and w: "w = scan g XOR flipped c D"
    and k: "k < D" "\<not> bit w k" "\<forall>i<k. bit w i"
    and rest: "digits_index D Y n (adjust_rotation r D g) (digit D Y n XOR push_bit r 1) (par g = c) = mask (n * D)"
    and d: "rotateLeft (push_bit k 1) r D = push_bit d 1" "d < D"
  shows "advances D Y (Suc n) r f c n d"
proof -
  let ?m = "n * D" and ?r = "adjust_rotation r D g" and ?g = "g XOR push_bit k 1"
  let ?r' = "adjust_rotation r D ?g" and ?one = "\<lambda>k. push_bit k 1 :: u64"
  have fd: "fits D (digit D Y j)" for j using assms(1) by simp
  have "scan ?g XOR flipped c D = w XOR mask (Suc k)"
    using scan_one [of k] k(1) assms(2) by (simp add: scan_xor w ac_simps)
  then have w': "scan ?g XOR flipped c D = w + 1" using add_one_flips(1) [of w k] k assms(2) by simp
  have ws: "bit w i \<longleftrightarrow> bit (scan g) i \<noteq> c" if "i < D" for i using that assms(2) by (auto simp: w bit_xor_iff)
  have p: "(par g = c) = (k = 0)" using ws [of 0] k assms(1) by (cases k) (auto simp: par_def simp del: bit_0)
  have "par (?one k)" using scan_one [of k] k(1) assms(2) by (simp add: par_def bit_mask_iff del: bit_0)
  then have p': "(par ?g = c) = (k \<noteq> 0)" using p by (auto simp: par_xor)
  have gw: "bit g i \<longleftrightarrow> bit w i \<noteq> bit w (Suc i)" if "Suc i < D" for i
    using bit_scan [of g i] ws [of i] ws [of "Suc i"] that by auto
  have t: "turn D ?r = ?one d \<and> turn D ?r' = ?one d \<and> d \<noteq> r" if "k \<noteq> 0"
  proof -
    obtain j where j: "k = Suc j" using \<open>k \<noteq> 0\<close> by (cases k) auto
    have l: "lowest g j" using gw k j by (simp add: lowest_def)
    then have "lowest ?g j" using j by (auto simp: lowest_def bit_xor_iff)
    then have "turn D ?r = ?one d" "turn D ?r' = ?one d" using turn_adjusted [OF assms(1-3)] l k(1) d(1) j by simp_all
    moreover have "?one d = ?one (if k + r < D then k + r else k + r - D)" using rotateLeft_one [OF k(1) assms(3,2)] d(1) by simp
    then have "d = (if k + r < D then k + r else k + r - D)" using one_inj [of d] d(2) assms(2) by simp
    ultimately show ?thesis using j assms(3) k(1) by auto
  qed
  have z: "d = r" if "k = 0"
  proof -
    have "?one d = ?one r" using rotateLeft_one [OF k(1) assms(3,2)] that assms(3) unfolding d(1) by simp
    then show ?thesis by (rule one_inj) (use d(2) assms(2) in simp)
  qed
  have fs: "fits D (digit D Y n XOR ?one r)"
    using fd assms(1,3) by (simp add: fits_xor fits_one)
  have low: "digit D Y j = (digit D Y n XOR ?one r) XOR (if k = 0 then 0 else ?one d)" if "j < n" for j
  proof -
    have "?m \<le> 64" using assms(5) by simp
    from corner_index [OF assms(1) adjust_rotation_less [OF assms(1,3)] fs this, of Y g _ True]
    have "\<forall>j<n. digit D Y j = (digit D Y n XOR ?one r) XOR (if (k = 0) = True then 0 else turn D ?r)"
      using rest by (simp add: p flipped_def)
    then show ?thesis using that t by auto
  qed
  have flip: "\<forall>j<n. bit (digit D Y j) d \<noteq> bit (digit D Y n) d"
    using low t z d(2) assms(2) by (auto simp: bit_xor_iff split: if_splits)
  have "digits_index D Y' (Suc n) r f c = digits_index D Y (Suc n) r f c + 1"
    if Y': "\<forall>j\<le>n. digit D Y' j = digit D Y j XOR push_bit d 1" for Y'
  proof -
    have fs': "fits D (digit D Y' n XOR ?one r)" using assms(1,3) by (simp add: fits_xor fits_one)
    have "rotateRight (f XOR digit D Y' n) r D = rotateRight ((f XOR digit D Y n) XOR ?one d) r D" using Y' by (simp add: xor.assoc)
    also have "\<dots> = g XOR rotateRight (?one d) r D"
      unfolding g by (rule rotateRight_xor) (use assms(2-4) d(2) fd in \<open>auto intro!: fits_xor fits_one\<close>)
    also have "rotateRight (?one d) r D = ?one k"
      using rotateRight_rotateLeft [OF fits_one [OF k(1)] assms(3,2)] d(1) by simp
    finally have g': "rotateRight (f XOR digit D Y' n) r D = ?g" .
    have "\<forall>j<n. digit D Y' j = (digit D Y' n XOR ?one r) XOR (if (k \<noteq> 0) = False then 0 else turn D ?r')"
      using low t Y' by (auto simp: ac_simps)
    then have rest': "digits_index D Y' n ?r' (digit D Y' n XOR ?one r) (par ?g = c) = 0"
      using corner_index [OF assms(1) adjust_rotation_less [OF assms(1,3)] fs', of n Y' ?g "k \<noteq> 0" False] assms(5)
      by (simp add: p' flipped_def)
    have "push_bit ?m w OR mask ?m = push_bit ?m w + mask ?m"
      by (rule disjunctive_add [symmetric]) (auto simp: bit_push_u64 bit_mask_iff)
    then have "(push_bit ?m w OR mask ?m) + 1 = push_bit ?m w + (mask ?m + 1)" by simp
    also have "\<dots> = push_bit ?m (w + 1)" by (simp add: mask_eq_exp_minus_1 push_bit_eq_mult algebra_simps)
    finally show "digits_index D Y' (Suc n) r f c = digits_index D Y (Suc n) r f c + 1"
      by (simp only: digits_index.simps Let_def g' w' rest' g [symmetric] w [symmetric] rest or.right_neutral)
  qed
  with flip show ?thesis by (simp add: advances_def less_Suc_eq_le)
qed

subsection \<open>The loop\<close>

lemma clear_bit:
  assumes "fits m w" "w \<noteq> mask m" "m \<le> 64"
  obtains k where "k < m" "\<not> bit w k" "\<forall>i<k. bit w i"
proof -
  have "\<exists>i<m. \<not> bit w i"
  proof (rule ccontr)
    assume "\<not> ?thesis"
    then have "w = mask m" by (intro bit_word_eqI) (use assms(1) in \<open>auto simp: bit_mask_iff dest: fitsD\<close>)
    then show False using assms(2) by blast
  qed
  then obtain i where i: "i < m" "\<not> bit w i" by blast
  define k where "k = (LEAST i. \<not> bit w i)"
  have k: "\<not> bit w k" "\<forall>i<k. bit w i" using LeastI [of "\<lambda>i. \<not> bit w i", OF i(2)] not_less_Least by (auto simp: k_def)
  have "k < m" using Least_le [of "\<lambda>i. \<not> bit w i", OF i(2)] i(1) by (simp add: k_def)
  with k show thesis by (blast intro: that)
qed

lemma add_one_low:
  assumes "fits m l" "l \<noteq> mask m" "m \<le> 64"
  shows "(push_bit m h OR l) + 1 = push_bit m h OR (l + 1)"
proof -
  obtain k where k: "k < m" "\<not> bit l k" "\<forall>i<k. bit l i" using clear_bit [OF assms] .
  then have "l + 1 = l XOR mask (Suc k)" using add_one_flips(1) [of l k] assms(3) by simp
  moreover have "fits m (mask (Suc k))" using k(1) by (simp add: fits_bit bit_mask_iff)
  ultimately have f: "fits m (l + 1)" using assms(1) by (simp add: fits_xor)
  have j: "push_bit m h OR v = push_bit m h + v" if "fits m v" for v
    by (rule disjunctive_add [symmetric]) (use that in \<open>auto simp: bit_push_u64 dest: fitsD\<close>)
  show ?thesis unfolding j [OF assms(1)] j [OF f] by simp
qed

lemma advances_Suc:
  assumes "1 < D" "Suc n * D \<le> 64" and g: "g = rotateRight (f XOR digit D Y n) r D"
    and rest: "digits_index D Y n (adjust_rotation r D g) (digit D Y n XOR push_bit r 1) (par g = c) \<noteq> mask (n * D)"
    and adv: "advances D Y n (adjust_rotation r D g) (digit D Y n XOR push_bit r 1) (par g = c) b d" and b: "b < n"
  shows "advances D Y (Suc n) r f c b d"
  unfolding advances_def
proof (intro conjI allI impI)
  fix Y'
  assume Y': "\<forall>k<Suc n. digit D Y' k = digit D Y k XOR (if k \<le> b then push_bit d 1 else 0)"
  then have top: "digit D Y' n = digit D Y n" using b by simp
  have "n * D \<le> 64" using assms(2) by simp
  moreover have "digits_index D Y' n (adjust_rotation r D g) (digit D Y n XOR push_bit r 1) (par g = c) =
      digits_index D Y n (adjust_rotation r D g) (digit D Y n XOR push_bit r 1) (par g = c) + 1"
    using adv Y' by (simp add: advances_def)
  ultimately show "digits_index D Y' (Suc n) r f c = digits_index D Y (Suc n) r f c + 1"
    using add_one_low [OF fits_digits_index [OF assms(1)] rest] by (simp only: digits_index.simps Let_def top g [symmetric])
qed (use adv in \<open>simp add: advances_def\<close>)

lemma next_index:
  assumes "1 < D" "D \<le> 64" "fits D g" and w_def: "w = xor_scan 1 D (push_bit (D - 1) (of_bool c) XOR g)"
  shows "w = scan g XOR flipped c D" "push_bit (D - 1) ((w + 1) AND 1) = push_bit (D - 1) (of_bool (par g = c))" "fits D w"
proof -
  have "push_bit (D - 1) (of_bool c) = (if c then push_bit (D - 1) 1 else 0 :: u64)" by simp
  then have s: "scan (push_bit (D - 1) (of_bool c)) = flipped c D" "fits D (push_bit (D - 1) (of_bool c) :: u64)"
    using scan_top [of D] assms(1,2) fits_top [of D] by (auto simp: flipped_def)
  then have "w = scan (push_bit (D - 1) (of_bool c) XOR g)"
    unfolding w_def using assms(3) by (intro scan_limit [where m = D] fits_xor) simp_all
  then show w: "w = scan g XOR flipped c D" by (simp only: scan_xor s(1) xor.commute [of "flipped c D"])
  then have "bit w 0 \<longleftrightarrow> par g \<noteq> c" using assms(1,2) by (simp add: par_def bit_xor_iff del: bit_0)
  moreover have "(w + 1) AND 1 = of_bool (\<not> bit w 0)" by (simp only: and_one_eq mod_2_eq_odd bit_0 even_plus_one_iff not_not)
  ultimately show "push_bit (D - 1) ((w + 1) AND 1) = push_bit (D - 1) (of_bool (par g = c))" by simp
  show "fits D w" unfolding w using assms(3) by (intro fits_xor fits_scan) simp_all
qed

lemma incr_loop_next:
  assumes "1 < D" "D \<le> 64" "r < D" "fits D f" "n * D \<le> 64" "\<forall>b<n. reflect_bits cs b D = digit D Y b"
  shows "case incr_loop D cs n r f (push_bit (D - 1) (of_bool c)) rb rd of (b, v) \<Rightarrow>
    if digits_index D Y n r f c = mask (n * D) then b = rb \<and> v = rd
    else b < n \<and> (\<exists>d<D. v = push_bit d 1 \<and> advances D Y n r f c b d)"
  using assms(3-6)
proof (induction n arbitrary: r f c rb rd)
  case 0
  then show ?case by simp
next
  case (Suc n)
  define g where "g = rotateRight (f XOR digit D Y n) r D"
  define w where "w = xor_scan 1 D (push_bit (D - 1) (of_bool c) XOR g)"
  define v where "v = (if w \<noteq> ones D then (n, rotateLeft ((w + 1) AND - (w + 1)) r D) else (rb, rd))"
  let ?r = "adjust_rotation r D g" and ?f = "digit D Y n XOR push_bit r 1"
  let ?rest = "digits_index D Y n ?r ?f (par g = c)" and ?x = "digits_index D Y (Suc n) r f c"
  have fg: "fits D g" using assms(1) by (simp add: g_def)
  note w = next_index [OF assms(1,2) fg w_def]
  have x: "?x = push_bit (n * D) w OR ?rest" by (simp only: digits_index.simps Let_def g_def [symmetric] w(1))
  have bits: "reflect_bits cs n D = digit D Y n" using Suc.prems(4) by simp
  have run: "incr_loop D cs (Suc n) r f (push_bit (D - 1) (of_bool c)) rb rd =
      incr_loop D cs n ?r ?f (push_bit (D - 1) (of_bool (par g = c))) (fst v) (snd v)"
    by (simp only: incr_loop.simps Let_def bits g_def [symmetric] w_def [symmetric] w(2) v_def [symmetric] case_prod_beta)
  have IH: "case incr_loop D cs n ?r ?f (push_bit (D - 1) (of_bool (par g = c))) (fst v) (snd v) of (b, u) \<Rightarrow>
    if ?rest = mask (n * D) then b = fst v \<and> u = snd v
    else b < n \<and> (\<exists>d<D. u = push_bit d 1 \<and> advances D Y n ?r ?f (par g = c) b d)"
    using Suc.prems assms(1) by (intro Suc.IH) (auto simp: adjust_rotation_less fits_xor fits_one)
  have full: "?x = mask (Suc n * D) \<longleftrightarrow> w = mask D \<and> ?rest = mask (n * D)"
  proof -
    have "mask (Suc n * D) = push_bit (n * D) (mask D) OR (mask (n * D) :: u64)"
      using flipped_split [of True "n * D" D] by (simp add: flipped_def add.commute)
    moreover have "fits D (mask D)" "fits (n * D) (mask (n * D))" by (simp_all add: fits_bit bit_mask_iff)
    ultimately show ?thesis unfolding x
      using join_eq [OF fits_digits_index [OF assms(1)] _ w(3), of n "mask (n * D)" "mask D"] Suc.prems(3) by (simp add: add.commute)
  qed
  show ?case
  proof (cases "?rest = mask (n * D)")
    case False
    then show ?thesis
      using IH full advances_Suc [OF assms(1) Suc.prems(3) g_def False] unfolding run by (auto split: prod.splits intro: less_SucI)
  next
    case True
    show ?thesis
    proof (cases "w = mask D")
      case True
      then have "v = (rb, rd)" using assms(1) by (simp add: v_def ones_mask)
      then show ?thesis using IH full True \<open>?rest = mask (n * D)\<close> unfolding run by (auto split: prod.splits)
    next
      case False
      obtain k where k: "k < D" "\<not> bit w k" "\<forall>i<k. bit w i" using clear_bit [OF w(3) False assms(2)] .
      then have "lowest (w + 1) k" using add_one_flips(2) [of w k] assms(2) by simp
      then have low: "(w + 1) AND - (w + 1) = push_bit k 1" by (rule and_minus)
      define d where "d = (if k + r < D then k + r else k + r - D)"
      have d: "rotateLeft (push_bit k 1) r D = push_bit d 1" "d < D"
        using rotateLeft_one [OF k(1) Suc.prems(1) assms(2)] k(1) Suc.prems(1) by (auto simp: d_def)
      have "v = (n, push_bit d 1)" unfolding v_def low d(1) using False assms(1) by (simp add: ones_mask)
      moreover have "advances D Y (Suc n) r f c n d"
        by (rule next_cell [OF assms(1,2) Suc.prems(1-3) g_def w(1) k True d])
      ultimately show ?thesis using IH full True False d(2) unfolding run by (auto split: prod.splits)
    qed
  qed
qed

subsection \<open>The successor\<close>

lemma reflect_bit: "bit (reflect_bits cs b d) p \<longleftrightarrow> p < d \<and> p < 64 \<and> bit (cs ! p) b"
proof -
  have "rdbit w k = of_bool (bit w k)" for w k by (simp add: rdbit_def and_one_eq bit_iff_odd_drop_bit mod_2_eq_odd)
  then show ?thesis by (induction d) (auto simp: bit_or_iff bit_push_u64 bit_1_iff less_Suc_eq simp del: bit_0)
qed

lemma column_bit_flipped:
  assumes "d < length cs" "d < 64"
  shows "column (cs[d := cs ! d XOR mask (Suc b)]) k (length cs) = column cs k (length cs) XOR (if k \<le> b \<and> k < 64 then push_bit d 1 else 0)"
  by (rule bit_word_eqI) (use assms in \<open>auto simp: bit_column bit_xor_iff nth_list_update bit_mask_iff\<close>)

text \<open>Flipping the low bits changes a coordinate by one, when those below the highest are its complement.\<close>

lemma flip_by_one:
  assumes "\<forall>k<b. bit v k \<noteq> bit v b" "b < 64"
  shows "v XOR mask (Suc b) = v + 1 \<or> v XOR mask (Suc b) = v - (1 :: u64)"
proof (cases "bit v b")
  case False
  then show ?thesis using add_one_flips(1) [of v b] assms by simp
next
  case True
  let ?u = "v XOR mask (Suc b)"
  have "?u + 1 = ?u XOR mask (Suc b)"
    using add_one_flips(1) [of ?u b] assms True by (auto simp: bit_xor_iff bit_mask_iff)
  also have "\<dots> = v" by (simp only: xor.assoc xor_self_eq xor.right_neutral)
  finally show ?thesis by (metis add_diff_cancel_right')
qed

lemma incr_index:
  assumes "1 < D" "0 < B" "D * B \<le> 64" "length cs = D" "\<forall>c\<in>set cs. fits B c" "mfa_hilbert_c2i D B cs \<noteq> mask (D * B)"
  obtains b d where "b < B" "d < D" "incr_loop D cs B 0 0 0 rb rd = (b, push_bit d 1)"
    "mfa_hilbert_i2c D B (mfa_hilbert_c2i D B cs + 1) = cs[d := cs ! d XOR mask (Suc b)]"
    "cs ! d XOR mask (Suc b) = cs ! d + 1 \<or> cs ! d XOR mask (Suc b) = cs ! d - 1"
proof -
  have D64: "D \<le> 64" "B \<le> 64" using assms(1-3) by (cases B; cases D; auto)+
  note inter = digit_interleaved [OF assms(1-3)]
  have reads: "reflect_bits cs b D = digit D (interleaved D B cs) b" if "b < B" for b
    by (rule bit_word_eqI) (simp add: inter [OF assms(4,5) that] bit_column reflect_bit)
  have x: "digits_index D (interleaved D B cs) B 0 0 False \<noteq> mask (B * D)"
    using assms(6) by (simp add: index_digits [OF assms(1-5)] mult.commute)
  obtain b u where run: "incr_loop D cs B 0 0 0 rb rd = (b, u)" by fastforce
  obtain d where d: "b < B" "d < D" "u = push_bit d 1" "advances D (interleaved D B cs) B 0 0 False b d"
    using incr_loop_next [OF assms(1) D64(1), of 0 0 B cs "interleaved D B cs" False rb rd] assms(1,3) reads x run
    by (auto simp: mult.commute)
  let ?cs = "cs[d := cs ! d XOR mask (Suc b)]"
  have "fits B (mask (Suc b))" using d(1) by (simp add: fits_bit bit_mask_iff)
  moreover have "cs ! d \<in> set cs" using assms(4) d(2) by simp
  ultimately have "\<forall>c\<in>insert (cs ! d XOR mask (Suc b)) (set cs). fits B c" using assms(5) by (simp add: fits_xor)
  then have fits': "\<forall>c\<in>set ?cs. fits B c" using set_update_subset_insert by fast
  have "digit D (interleaved D B ?cs) k = digit D (interleaved D B cs) k XOR (if k \<le> b then push_bit d 1 else 0)" if "k < B" for k
    using inter [OF _ fits' that] inter [OF assms(4,5) that] column_bit_flipped [of d cs b k] assms(4) d(2) that D64 by simp
  then have "mfa_hilbert_c2i D B ?cs = mfa_hilbert_c2i D B cs + 1"
    using d(4) index_digits [OF assms(1-3) _ fits'] index_digits [OF assms(1-5)] assms(4) by (simp add: advances_def)
  then have "mfa_hilbert_i2c D B (mfa_hilbert_c2i D B cs + 1) = ?cs" using i2c_of_c2i [OF assms(1-3) _ fits'] assms(4) by simp
  moreover have "bit (digit D (interleaved D B cs) k) d \<longleftrightarrow> bit (cs ! d) k" if "k < B" for k
    using d(2) D64 by (simp add: inter [OF assms(4,5) that] bit_column)
  then have "\<forall>k<b. bit (cs ! d) k \<noteq> bit (cs ! d) b" using d(1,4) by (simp add: advances_def)
  then have "cs ! d XOR mask (Suc b) = cs ! d + 1 \<or> cs ! d XOR mask (Suc b) = cs ! d - 1"
    by (rule flip_by_one) (use d(1) D64 in simp)
  ultimately show thesis using that d(1-3) run by blast
qed

lemma last_index:
  assumes "unat r + 1 < 2 ^ (D * B)" "D * B \<le> 64"
  shows "fits (D * B) r" "r \<noteq> mask (D * B)"
proof -
  show "fits (D * B) r" using assms(1) by (simp add: fits_unat)
  have "uint (mask (D * B) :: u64) = mask (D * B)" using assms(2) by (simp add: uint_mask_eq min_absorb2)
  then have "unat (mask (D * B) :: u64) = mask (D * B)" by (simp only: unat_eq_nat_uint nat_mask_eq)
  then have "unat (mask (D * B) :: u64) + 1 = 2 ^ (D * B)" by (simp only: mask_eq_exp_minus_1) simp
  then show "r \<noteq> mask (D * B)" using assms(1) by (auto simp del: of_nat_mask_eq)
qed

subsection \<open>Properties\<close>

text \<open>C12: the curve is continuous. From one index to the next exactly one coordinate of the point that
  \<open>mfa_hilbert_i2c\<close> returns changes, and it changes by one.\<close>

theorem curve_continuous:
  assumes "1 < D" "0 < B" "D * B \<le> 64" "unat r + 1 < 2 ^ (D * B)"
  shows "\<exists>d<D. \<exists>v. mfa_hilbert_i2c D B (r + 1) = (mfa_hilbert_i2c D B r)[d := v] \<and>
    (v = mfa_hilbert_i2c D B r ! d + 1 \<or> v = mfa_hilbert_i2c D B r ! d - 1)"
proof -
  note r = last_index [OF assms(4,3)] and grid = i2c_grid [OF assms(1,2)]
  have c: "mfa_hilbert_c2i D B (mfa_hilbert_i2c D B r) = r" by (rule c2i_of_i2c [OF assms(1-3) r(1)])
  show ?thesis
    by (rule incr_index [OF assms(1-3), of "mfa_hilbert_i2c D B r" 0 0]) (use grid r c in auto)
qed

theorem curve_continuous_witness:
  "\<exists>d<3. \<exists>v. mfa_hilbert_i2c 3 5 (12345 + 1) = (mfa_hilbert_i2c 3 5 12345)[d := v] \<and>
    (v = mfa_hilbert_i2c 3 5 12345 ! d + 1 \<or> v = mfa_hilbert_i2c 3 5 12345 ! d - 1)"
  by (rule curve_continuous) simp_all

text \<open>C40: \<open>mfa_hilbert_incr\<close> advances a point to its successor: from the point of every index but the last it
  computes the point of the next index, without a conversion. It does so only as long as the step stays below bit 30
  of the coordinate it changes: a step that carries further, which takes coordinates of more than 30 bits, is
  undefined.\<close>

theorem incr_is_successor:
  assumes "1 < D" "D < 64" "0 < B" "D * B \<le> 64" "unat r + 1 < 2 ^ (D * B)"
  shows "mfa_hilbert_incr D B (mfa_hilbert_i2c D B r) =
    (if \<forall>d<D. drop_bit 30 (mfa_hilbert_i2c D B (r + 1) ! d) = drop_bit 30 (mfa_hilbert_i2c D B r ! d)
     then Some (mfa_hilbert_i2c D B (r + 1)) else None)"
proof -
  note r = last_index [OF assms(5,4)] and grid = i2c_grid [OF assms(1,3)]
  let ?p = "mfa_hilbert_i2c D B r" and ?q = "mfa_hilbert_i2c D B (r + 1)"
  have c: "mfa_hilbert_c2i D B ?p = r" by (rule c2i_of_i2c [OF assms(1,3,4) r(1)])
  have B64: "B \<le> 64" using assms(1,4) by (cases D) auto
  obtain b d where s: "b < B" "d < D" "incr_loop D ?p B 0 0 0 (nat ((int B - 1) mod 2 ^ 32)) (ones D) = (b, push_bit d 1)"
    "?q = ?p[d := ?p ! d XOR mask (Suc b)]"
    by (rule incr_index [OF assms(1,3,4), of ?p "nat ((int B - 1) mod 2 ^ 32)" "ones D"]) (use grid r c in auto)
  have "lowest (push_bit d 1) (0 + d)" using s(2) assms(2) by (auto simp: lowest_def)
  then have "first_set 64 (push_bit d 1) 0 = Some d" using first_set_lowest [of "push_bit d 1" 0 d 64] s(2) assms(2) by simp
  moreover have "push_bit b 2 - 1 = (mask (Suc b) :: u64)" by (simp add: mask_eq_exp_minus_1 push_bit_eq_mult)
  ultimately have run: "mfa_hilbert_incr D B ?p = (if 30 \<le> b then None else Some ?q)"
    using s assms(1,2) B64 grid(1) by (simp add: mfa_hilbert_incr_def)
  have bits: "drop_bit 30 (v XOR mask (Suc b)) = drop_bit 30 v \<longleftrightarrow> b < 30" for v :: u64
  proof
    assume "drop_bit 30 (v XOR mask (Suc b)) = drop_bit 30 v"
    then have "bit (drop_bit 30 (v XOR mask (Suc b))) 0 = bit (drop_bit 30 v) 0" by (simp only:)
    then show "b < 30" by (cases "bit v 30") (simp_all add: bit_drop_bit_eq bit_xor_iff bit_mask_iff del: bit_0)
  next
    assume "b < 30"
    then show "drop_bit 30 (v XOR mask (Suc b)) = drop_bit 30 v"
      by (intro bit_word_eqI) (auto simp: bit_drop_bit_eq bit_xor_iff bit_mask_iff)
  qed
  have "(\<forall>j<D. drop_bit 30 (?q ! j) = drop_bit 30 (?p ! j)) \<longleftrightarrow> b < 30"
    using s(2) grid(1) bits by (auto simp: s(4) nth_list_update)
  then show ?thesis by (simp add: run not_le)
qed

theorem incr_is_successor_witness:
  "mfa_hilbert_incr 2 16 (mfa_hilbert_i2c 2 16 123456) =
    (if \<forall>d<2. drop_bit 30 (mfa_hilbert_i2c 2 16 (123456 + 1) ! d) = drop_bit 30 (mfa_hilbert_i2c 2 16 123456 ! d)
     then Some (mfa_hilbert_i2c 2 16 (123456 + 1)) else None)"
  by (rule incr_is_successor) simp_all

end
